(* ===== verification/Prelude.thy ===== *)
theory Prelude
  imports Main
begin

text \<open>
  Shared ground of the development: the lemma collections the component theories extend, the
  model of the JavaScript values the bridge passes around (JSON values, objects, strings), and
  generic lemmas on lists and options.

  Strings are lists of characters (bytes). The bridge's identifiers, cursors, type tags and
  states are ASCII, where the JavaScript length (UTF-16 units), the SQLite length (characters)
  and the byte length agree with \<open>length\<close>.
\<close>

named_theorems tx_simps \<open>evaluation of the store's transaction monad\<close>
named_theorems row_simps \<open>projections of table rows after an update\<close>
named_theorems inv_intros \<open>preservation of the table invariants by the operations\<close>

section \<open>JavaScript values\<close>

datatype json =
    JNull
  | JBool bool
  | JNum int
  | JStr string
  | JArr "json list"
  | JObj "(string \<times> json) list"

type_synonym obj = "(string \<times> json) list"

text \<open>Property read \<open>o[k]\<close>; \<open>None\<close> is \<open>undefined\<close>.\<close>

definition prop_get :: "obj \<Rightarrow> string \<Rightarrow> json option" where
  "prop_get ob k = map_of ob k"

text \<open>Assignment \<open>o[k] = v\<close>: an existing key keeps its place, a new one goes last.\<close>

fun prop_set :: "string \<Rightarrow> json \<Rightarrow> obj \<Rightarrow> obj" where
  "prop_set k v [] = [(k, v)]"
| "prop_set k v ((k', v') # ob) = (if k' = k then (k, v) # ob else (k', v') # prop_set k v ob)"

text \<open>Object spread \<open>{ ...a, ...b }\<close>: the entries of \<open>b\<close> are assigned over \<open>a\<close> in order.\<close>

definition spread :: "obj \<Rightarrow> obj \<Rightarrow> obj" where
  "spread a b = fold (\<lambda>(k, v). prop_set k v) b a"

lemma prop_get_set [simp]:
  "prop_get (prop_set k v ob) k' = (if k' = k then Some v else prop_get ob k')"
  by (induction ob) (auto simp: prop_get_def)

lemma spread_Nil [simp]: "spread a [] = a"
  by (simp add: spread_def)

lemma spread_Cons [simp]: "spread a ((k, v) # b) = spread (prop_set k v a) b"
  by (simp add: spread_def)

section \<open>JSON.stringify\<close>

text \<open>
  The text of a JSON value without white space, as \<open>JSON.stringify\<close> writes it. The store keeps
  the value itself in its JSON columns (parsing the text gives the value back); the text is used
  where the code measures it.
\<close>

fun digit_char :: "nat \<Rightarrow> char" where
  "digit_char d = char_of (48 + d)"

fun dec :: "nat \<Rightarrow> string" where
  "dec n = (if n < 10 then [digit_char n] else dec (n div 10) @ [digit_char (n mod 10)])"

declare dec.simps [simp del]

definition int_text :: "int \<Rightarrow> string" where
  "int_text i = (if i < 0 then CHR ''-'' # dec (nat (- i)) else dec (nat i))"

definition hex_digit :: "nat \<Rightarrow> char" where
  "hex_digit d = (if d < 10 then char_of (48 + d) else char_of (87 + d))"

definition escape_char :: "char \<Rightarrow> string" where
  "escape_char c =
     (if c = CHR 0x22 then [CHR 0x5C, CHR 0x22]
      else if c = CHR 0x5C then [CHR 0x5C, CHR 0x5C]
      else if c = CHR 0x08 then [CHR 0x5C, CHR ''b'']
      else if c = CHR 0x0C then [CHR 0x5C, CHR ''f'']
      else if c = CHR 0x0A then [CHR 0x5C, CHR ''n'']
      else if c = CHR 0x0D then [CHR 0x5C, CHR ''r'']
      else if c = CHR 0x09 then [CHR 0x5C, CHR ''t'']
      else if of_char c < (32 :: nat)
        then [CHR 0x5C, CHR ''u'', CHR ''0'', CHR ''0'',
              hex_digit (of_char c div 16), hex_digit (of_char c mod 16)]
      else [c])"

definition str_text :: "string \<Rightarrow> string" where
  "str_text s = CHR 0x22 # concat (map escape_char s) @ [CHR 0x22]"

fun commas :: "string list \<Rightarrow> string" where
  "commas [] = []"
| "commas [s] = s"
| "commas (s # t # ss) = s @ CHR '','' # commas (t # ss)"

fun json_text :: "json \<Rightarrow> string" where
  "json_text JNull = ''null''"
| "json_text (JBool b) = (if b then ''true'' else ''false'')"
| "json_text (JNum i) = int_text i"
| "json_text (JStr s) = str_text s"
| "json_text (JArr js) = CHR ''['' # commas (map json_text js) @ '']''"
| "json_text (JObj kvs) =
     CHR ''{'' # commas (map (\<lambda>(k, v). str_text k @ CHR '':'' # json_text v) kvs) @ ''}''"

section \<open>Strings\<close>

definition starts_with :: "string \<Rightarrow> string \<Rightarrow> bool" where
  "starts_with p s \<longleftrightarrow> take (length p) s = p"

fun str_includes :: "string \<Rightarrow> string \<Rightarrow> bool" where
  "str_includes p [] = (p = [])"
| "str_includes p (c # s) = (starts_with p (c # s) \<or> str_includes p s)"

definition is_control :: "char \<Rightarrow> bool" where
  "is_control c \<longleftrightarrow> of_char c < (32 :: nat) \<or> of_char c = (127 :: nat)"

definition upper_char :: "char \<Rightarrow> char" where
  "upper_char c = (if (97 :: nat) \<le> of_char c \<and> of_char c \<le> (122 :: nat)
                   then char_of (of_char c - (32 :: nat)) else c)"

definition lower_char :: "char \<Rightarrow> char" where
  "lower_char c = (if (65 :: nat) \<le> of_char c \<and> of_char c \<le> (90 :: nat)
                   then char_of (of_char c + (32 :: nat)) else c)"

text \<open>\<open>String.prototype.trim\<close>, on ASCII.\<close>

definition is_space :: "char \<Rightarrow> bool" where
  "is_space c \<longleftrightarrow> of_char c \<in> {9, 10, 11, 12, 13, 32 :: nat}"

definition trim :: "string \<Rightarrow> string" where
  "trim s = rev (dropWhile is_space (rev (dropWhile is_space s)))"

lemma starts_with_append [simp]: "starts_with p (p @ s)"
  by (simp add: starts_with_def)

text \<open>The binary collation of SQLite and the \<open><\<close> of JavaScript on ASCII strings.\<close>

fun str_less :: "string \<Rightarrow> string \<Rightarrow> bool" where
  "str_less [] ys = (ys \<noteq> [])"
| "str_less (x # xs) [] = False"
| "str_less (x # xs) (y # ys) =
     (if x = y then str_less xs ys else (of_char x :: nat) < of_char y)"

lemma str_less_irrefl [simp]: "\<not> str_less xs xs"
  by (induction xs) auto

lemma str_less_asym: "str_less xs ys \<Longrightarrow> \<not> str_less ys xs"
proof (induction xs ys rule: str_less.induct)
  case (1 ys)
  then show ?case by (cases ys) auto
qed (auto split: if_splits)

lemma str_less_total: "str_less xs ys \<or> xs = ys \<or> str_less ys xs"
proof (induction xs arbitrary: ys)
  case Nil
  then show ?case by (cases ys) auto
next
  case (Cons x xs)
  show ?case
  proof (cases ys)
    case Nil
    then show ?thesis by simp
  next
    case C: (Cons y ys')
    have "x = y \<or> (of_char x :: nat) < of_char y \<or> (of_char y :: nat) < of_char x"
      by (metis linorder_neqE_nat of_char_eq_iff)
    with Cons.IH [of ys'] C show ?thesis by auto
  qed
qed

section \<open>ORDER BY and Array.sort\<close>

text \<open>
  A stable sort by a strict comparison, as both SQLite's \<open>ORDER BY\<close> (over rows in rowid order)
  and \<open>Array.prototype.sort\<close> give it.
\<close>

fun ins_by :: "('a \<Rightarrow> 'a \<Rightarrow> bool) \<Rightarrow> 'a \<Rightarrow> 'a list \<Rightarrow> 'a list" where
  "ins_by lt x [] = [x]"
| "ins_by lt x (y # ys) = (if lt y x then y # ins_by lt x ys else x # y # ys)"

definition order_by :: "('a \<Rightarrow> 'a \<Rightarrow> bool) \<Rightarrow> 'a list \<Rightarrow> 'a list" where
  "order_by lt xs = foldr (ins_by lt) xs []"

lemma order_by_simps [simp]:
  "order_by lt [] = []"
  "order_by lt (x # xs) = ins_by lt x (order_by lt xs)"
  by (simp_all add: order_by_def)

lemma set_ins_by [simp]: "set (ins_by lt x xs) = insert x (set xs)"
  by (induction xs) auto

lemma set_order_by [simp]: "set (order_by lt xs) = set xs"
  by (induction xs) auto

lemma length_ins_by [simp]: "length (ins_by lt x xs) = Suc (length xs)"
  by (induction xs) auto

lemma length_order_by [simp]: "length (order_by lt xs) = length xs"
  by (induction xs) auto

lemma distinct_ins_by [simp]: "distinct (ins_by lt x xs) \<longleftrightarrow> x \<notin> set xs \<and> distinct xs"
  by (induction xs) auto

lemma distinct_order_by [simp]: "distinct (order_by lt xs) = distinct xs"
  by (induction xs) auto

lemma order_by_id: "sorted_wrt (\<lambda>x y. \<not> lt y x) xs \<Longrightarrow> order_by lt xs = xs"
proof (induction xs)
  case Nil
  then show ?case by simp
next
  case (Cons x xs)
  then show ?case by (cases xs) auto
qed

lemma sorted_ins_by:
  assumes tot: "\<And>x y z. \<not> lt x y \<Longrightarrow> \<not> lt y z \<Longrightarrow> \<not> lt x z" and as: "\<And>x y. lt x y \<Longrightarrow> \<not> lt y x"
  shows "sorted_wrt (\<lambda>x y. \<not> lt y x) xs \<Longrightarrow> sorted_wrt (\<lambda>x y. \<not> lt y x) (ins_by lt x xs)"
proof (induction xs)
  case Nil
  then show ?case by simp
next
  case (Cons y ys)
  show ?case
  proof (cases "lt y x")
    case True
    with Cons as [OF True] show ?thesis by simp
  next
    case False
    with Cons.prems have "\<forall>z \<in> set ys. \<not> lt z x" using tot [of _ y x] by auto
    with Cons.prems False show ?thesis by simp
  qed
qed

lemma sorted_order_by:
  assumes "\<And>x y z. \<not> lt x y \<Longrightarrow> \<not> lt y z \<Longrightarrow> \<not> lt x z" and "\<And>x y. lt x y \<Longrightarrow> \<not> lt y x"
  shows "sorted_wrt (\<lambda>x y. \<not> lt y x) (order_by lt xs)"
proof (induction xs)
  case Nil
  then show ?case by simp
next
  case (Cons x xs)
  then show ?case using sorted_ins_by [of lt, OF assms] by simp
qed

lemma ins_by_snoc: "\<not> lt q x \<Longrightarrow> ins_by lt x (ys @ [q]) = ins_by lt x ys @ [q]"
  by (induction ys) auto

lemma order_by_snoc: "(\<And>x. x \<in> set xs \<Longrightarrow> \<not> lt q x) \<Longrightarrow> order_by lt (xs @ [q]) = order_by lt xs @ [q]"
  by (induction xs) (auto simp: ins_by_snoc)

lemma filter_ins_by:
  assumes tot: "\<And>x y z. \<not> lt x y \<Longrightarrow> \<not> lt y z \<Longrightarrow> \<not> lt x z"
  shows "sorted_wrt (\<lambda>x y. \<not> lt y x) ys \<Longrightarrow>
    filter P (ins_by lt x ys) = (if P x then ins_by lt x (filter P ys) else filter P ys)"
proof (induction ys)
  case Nil
  then show ?case by simp
next
  case (Cons y ys)
  show ?case
  proof (cases "lt y x")
    case True
    with Cons show ?thesis by simp
  next
    case False
    have "ins_by lt x (filter P ys) = x # filter P ys"
    proof (cases "filter P ys")
      case Nil
      then show ?thesis by simp
    next
      case C: (Cons z zs)
      then have "z \<in> set ys" by (metis filter_is_subset list.set_intros(1) subsetD)
      with Cons.prems have "\<not> lt z y" by simp
      with False tot have "\<not> lt z x" by blast
      with C show ?thesis by simp
    qed
    with False show ?thesis by simp
  qed
qed

lemma order_by_filter:
  assumes "\<And>x y z. \<not> lt x y \<Longrightarrow> \<not> lt y z \<Longrightarrow> \<not> lt x z" and "\<And>x y. lt x y \<Longrightarrow> \<not> lt y x"
  shows "order_by lt (filter P xs) = filter P (order_by lt xs)"
proof (induction xs)
  case Nil
  then show ?case by simp
next
  case (Cons x xs)
  then show ?case using filter_ins_by [of lt, OF assms(1) sorted_order_by [of lt, OF assms]] by simp
qed

lemma order_by_map:
  "(\<And>x y. lt' (f x) (f y) = lt x y) \<Longrightarrow> order_by lt' (map f xs) = map f (order_by lt xs)"
proof (induction xs)
  case (Cons x xs)
  have "ins_by lt' (f x) (map f ys) = map f (ins_by lt x ys)" for ys
    by (induction ys) (simp_all add: Cons.prems)
  with Cons show ?case by simp
qed simp

section \<open>Lists\<close>

lemma filter_map_if:
  "(\<And>x. x \<in> set xs \<Longrightarrow> P (f x) = P x) \<Longrightarrow> filter P (map f xs) = map f (filter P xs)"
  by (induction xs) auto

lemma filter_all: "(\<And>x. x \<in> set xs \<Longrightarrow> P x) \<Longrightarrow> filter P xs = xs"
  by (induction xs) auto

lemma filter_none: "(\<And>x. x \<in> set xs \<Longrightarrow> \<not> P x) \<Longrightarrow> filter P xs = []"
  by (induction xs) auto

lemma distinct_map_filter_sub: "distinct (map f xs) \<Longrightarrow> distinct (map f (filter P xs))"
  by (induction xs) auto

lemma find_None_filter: "find P xs = None \<longleftrightarrow> filter P xs = []"
  by (induction xs) auto

lemma find_SomeD: "find P xs = Some x \<Longrightarrow> x \<in> set xs \<and> P x"
  by (induction xs) (auto split: if_splits)

lemma find_exists: "x \<in> set xs \<Longrightarrow> P x \<Longrightarrow> \<exists>y. find P xs = Some y"
  by (induction xs) auto

lemma find_append: "find P (xs @ ys) = (case find P xs of None \<Rightarrow> find P ys | Some x \<Rightarrow> Some x)"
  by (induction xs) auto

lemma find_unique:
  "distinct (map f xs) \<Longrightarrow> x \<in> set xs \<Longrightarrow> find (\<lambda>y. f y = f x) xs = Some x"
  by (induction xs) (auto simp: image_iff)

lemma find_key_Some_iff:
  "distinct (map f xs) \<Longrightarrow> find (\<lambda>y. f y = k) xs = Some x \<longleftrightarrow> x \<in> set xs \<and> f x = k"
  using find_unique find_SomeD by fastforce

lemma distinct_map_ConsD: "distinct (map f (x # xs)) \<Longrightarrow> y \<in> set xs \<Longrightarrow> f y \<noteq> f x"
  by (metis distinct.simps(2) image_eqI list.set_map list.simps(9))

lemma filter_key_unique:
  assumes "distinct (map f xs)" and "x \<in> set xs"
  shows "filter (\<lambda>y. f y = f x) xs = [x]"
  using assms
proof (induction xs)
  case (Cons a xs)
  show ?case
  proof (cases "a = x")
    case True
    with Cons.prems have "\<forall>y \<in> set xs. f y \<noteq> f x"
      using distinct_map_ConsD by metis
    with True show ?thesis by (simp add: filter_none)
  next
    case False
    with Cons show ?thesis by force
  qed
qed simp

lemma find_map_key:
  "(\<And>y. f (g y) = f y) \<Longrightarrow> find (\<lambda>y. f y = k) (map g xs) = map_option g (find (\<lambda>y. f y = k) xs)"
  by (induction xs) auto

lemma find_map_other:
  "(\<And>y. f (g y) = f y) \<Longrightarrow> (\<And>y. f y = k \<Longrightarrow> g y = y) \<Longrightarrow>
   find (\<lambda>y. f y = k) (map g xs) = find (\<lambda>y. f y = k) xs"
  by (induction xs) auto

section \<open>Components that run in steps\<close>

text \<open>
  The interface of a component whose operations are the steps of a relation: an invariant that every step keeps. A
  component proves one step and is given its runs.
\<close>

locale kept_along =
  fixes step :: "'s \<Rightarrow> 's \<Rightarrow> bool" and ok :: "'s \<Rightarrow> bool"
  assumes step_kept: "step s t \<Longrightarrow> ok s \<Longrightarrow> ok t"
begin

lemma run_kept: "step\<^sup>*\<^sup>* s t \<Longrightarrow> ok s \<Longrightarrow> ok t"
  by (induction rule: rtranclp_induct) (blast intro: step_kept)+

end

end
