(* ===== verification/Cursor.thy ===== *)
theory Cursor
  imports Prelude
begin

text \<open>
  Decimal cursors. A stream position is a canonical decimal string
  (\<open>DECIMAL_CURSOR_PATTERN\<close> of packages/protocol-schema/src/index.ts). The store computes with
  it as a bigint (\<open>canonicalCursor\<close> of packages/bridge/src/core/store.ts) and compares it in SQL
  as a string, by length and then by character; \<open>compareDecimalCursors\<close> does the same in
  JavaScript. The lemmas show the three views agree.
\<close>

section \<open>Errors\<close>

datatype store_error_code = Busy | Full | Readonly | Corrupt | Io | Conflict | Not_found

text \<open>
  What a call can throw: the store's own error, an error of the SQLite driver with its message,
  or a plain JavaScript error.
\<close>

datatype exn =
    Store_error store_error_code string
  | Sqlite_error string
  | Type_error string
  | Range_error string
  | Js_error string

section \<open>Canonical decimal strings\<close>

definition is_digit :: "char \<Rightarrow> bool" where
  "is_digit c \<longleftrightarrow> (48 :: nat) \<le> of_char c \<and> of_char c \<le> (57 :: nat)"

text \<open>The pattern \<open>^(0|[1-9][0-9]*)$\<close>.\<close>

definition decimal_cursor_pattern :: "string \<Rightarrow> bool" where
  "decimal_cursor_pattern s \<longleftrightarrow>
     s = ''0'' \<or> (case s of [] \<Rightarrow> False | c # cs \<Rightarrow> is_digit c \<and> c \<noteq> CHR ''0'' \<and> list_all is_digit cs)"

definition digit_val :: "char \<Rightarrow> nat" where
  "digit_val c = of_char c - 48"

text \<open>\<open>BigInt(s)\<close> of a string of decimal digits.\<close>

fun big_int :: "string \<Rightarrow> nat" where
  "big_int [] = 0"
| "big_int (c # cs) = digit_val c * 10 ^ length cs + big_int cs"

definition canonicalCursor :: "string \<Rightarrow> exn + nat" where
  "canonicalCursor v =
     (if \<not> decimal_cursor_pattern v then Inl (Store_error Conflict ''cursor is not canonical'')
      else Inr (big_int v))"

text \<open>The condition \<open>length(a)>length(b) OR (length(a)=length(b) AND a>b)\<close> of the SQL queries.\<close>

definition sql_cursor_gt :: "string \<Rightarrow> string \<Rightarrow> bool" where
  "sql_cursor_gt a b \<longleftrightarrow> length b < length a \<or> (length a = length b \<and> str_less b a)"

definition sql_cursor_le :: "string \<Rightarrow> string \<Rightarrow> bool" where
  "sql_cursor_le a b \<longleftrightarrow> length a < length b \<or> (length a = length b \<and> (a = b \<or> str_less a b))"

definition compareDecimalCursors :: "string \<Rightarrow> string \<Rightarrow> exn + int" where
  "compareDecimalCursors l r =
     (if \<not> decimal_cursor_pattern l \<or> \<not> decimal_cursor_pattern r
      then Inl (Type_error ''cursor must be a non-negative canonical decimal string'')
      else Inr (if length l = length r
                then (if l = r then 0 else if str_less l r then -1 else 1)
                else if length l < length r then -1 else 1))"

section \<open>Printing and reading decimals\<close>

lemma is_digit_digit_char [simp]: "d < 10 \<Longrightarrow> is_digit (digit_char d)"
  by (simp add: is_digit_def)

lemma digit_val_digit_char [simp]: "d < 10 \<Longrightarrow> digit_val (digit_char d) = d"
  by (simp add: digit_val_def)

lemma digit_char_0: "d < 10 \<Longrightarrow> digit_char d = CHR ''0'' \<longleftrightarrow> d = 0"
proof -
  assume "d < 10"
  then have "digit_char d = CHR ''0'' \<longleftrightarrow> (of_char (digit_char d) :: nat) = of_char (CHR ''0'')"
    by (metis of_char_eq_iff)
  also have "\<dots> \<longleftrightarrow> d = 0" using \<open>d < 10\<close> by simp
  finally show ?thesis .
qed

declare digit_char.simps [simp del]

lemma digit_val_less: "is_digit c \<Longrightarrow> digit_val c < 10"
  by (simp add: is_digit_def digit_val_def) arith

lemma digit_char_val: "is_digit c \<Longrightarrow> digit_char (digit_val c) = c"
  by (simp add: is_digit_def digit_val_def digit_char.simps)

lemma digit_val_inject: "is_digit c \<Longrightarrow> is_digit d \<Longrightarrow> digit_val c = digit_val d \<longleftrightarrow> c = d"
  by (metis digit_char_val)

lemma digit_val_pos: "is_digit c \<Longrightarrow> c \<noteq> CHR ''0'' \<Longrightarrow> 0 < digit_val c"
  by (metis digit_char_0 digit_char_val digit_val_less gr0I)

lemma digit_val_mono:
  "is_digit c \<Longrightarrow> is_digit d \<Longrightarrow> digit_val c < digit_val d \<longleftrightarrow> (of_char c :: nat) < of_char d"
  by (auto simp: is_digit_def digit_val_def)

lemma dec_small: "n < 10 \<Longrightarrow> dec n = [digit_char n]"
  by (simp add: dec.simps [of n])

lemma dec_big: "\<not> n < 10 \<Longrightarrow> dec n = dec (n div 10) @ [digit_char (n mod 10)]"
  by (simp add: dec.simps [of n])

lemma dec_Nil [simp]: "dec n \<noteq> []"
  by (cases "n < 10") (simp_all add: dec_small dec_big)

lemma dec_0: "dec 0 = ''0''"
  using digit_char_0 [of 0] by (simp add: dec_small)

lemma dec_digits: "list_all is_digit (dec n)"
proof (induction n rule: dec.induct)
  case (1 n)
  then show ?case by (cases "n < 10") (simp_all add: dec_small dec_big)
qed

lemma dec_hd: "0 < n \<Longrightarrow> hd (dec n) \<noteq> CHR ''0''"
proof (induction n rule: dec.induct)
  case (1 n)
  then show ?case
    by (cases "n < 10") (simp_all add: dec_small dec_big digit_char_0)
qed

lemma decimal_cursor_pattern_dec [simp]: "decimal_cursor_pattern (dec n)"
proof (cases "n = 0")
  case True
  then show ?thesis by (simp add: decimal_cursor_pattern_def dec_0)
next
  case False
  then obtain c cs where "dec n = c # cs" by (cases "dec n") auto
  with dec_digits [of n] dec_hd [of n] False show ?thesis
    by (simp add: decimal_cursor_pattern_def)
qed

lemma big_int_append: "big_int (xs @ ys) = big_int xs * 10 ^ length ys + big_int ys"
  by (induction xs) (simp_all add: power_add algebra_simps)

lemma big_int_dec [simp]: "big_int (dec n) = n"
proof (induction n rule: dec.induct)
  case (1 n)
  then show ?case by (cases "n < 10") (simp_all add: dec_small dec_big big_int_append)
qed

lemma big_int_bound: "list_all is_digit cs \<Longrightarrow> big_int cs < 10 ^ length cs"
proof (induction cs)
  case Nil
  then show ?case by simp
next
  case (Cons c cs)
  then have c: "digit_val c \<le> 9" and cs: "big_int cs < 10 ^ length cs"
    using digit_val_less [of c] by auto
  from c have "digit_val c * 10 ^ length cs \<le> 9 * 10 ^ length cs" by (rule mult_le_mono1)
  with cs have "digit_val c * 10 ^ length cs + big_int cs < 9 * 10 ^ length cs + 10 ^ length cs"
    by linarith
  then show ?case by simp
qed

lemma dec_big_int: "decimal_cursor_pattern s \<Longrightarrow> dec (big_int s) = s"
proof (induction s rule: rev_induct)
  case Nil
  then show ?case by (simp add: decimal_cursor_pattern_def)
next
  case (snoc d cs)
  show ?case
  proof (cases cs)
    case Nil
    then have "is_digit d" using snoc.prems
      by (auto simp: decimal_cursor_pattern_def is_digit_def)
    then show ?thesis using Nil digit_val_less [of d]
      by (simp add: dec_small digit_char_val)
  next
    case (Cons c cs')
    with snoc.prems have d: "is_digit d" and p: "decimal_cursor_pattern cs"
      by (auto simp: decimal_cursor_pattern_def)
    have "0 < digit_val c" using snoc.prems Cons
      by (auto simp: decimal_cursor_pattern_def intro: digit_val_pos)
    then have big: "0 < big_int cs" using Cons by simp
    have n: "big_int (cs @ [d]) = big_int cs * 10 + digit_val d" by (simp add: big_int_append)
    have "\<not> big_int (cs @ [d]) < 10" using n big by linarith
    then have "dec (big_int (cs @ [d])) =
        dec (big_int (cs @ [d]) div 10) @ [digit_char (big_int (cs @ [d]) mod 10)]"
      by (rule dec_big)
    also have "\<dots> = dec (big_int cs) @ [digit_char (digit_val d)]"
      using n digit_val_less [OF d] by simp
    also have "\<dots> = cs @ [d]" using snoc.IH p d by (simp add: digit_char_val)
    finally show ?thesis .
  qed
qed

lemma dec_inject [simp]: "dec m = dec n \<longleftrightarrow> m = n"
  by (metis big_int_dec)

section \<open>The string order is the numeric order\<close>

lemma pattern_digits: "decimal_cursor_pattern s \<Longrightarrow> list_all is_digit s"
  by (auto simp: decimal_cursor_pattern_def is_digit_def split: list.splits)

lemma str_less_digits:
  "length xs = length ys \<Longrightarrow> list_all is_digit xs \<Longrightarrow> list_all is_digit ys \<Longrightarrow>
   str_less xs ys \<longleftrightarrow> big_int xs < big_int ys"
proof (induction xs ys rule: list_induct2)
  case Nil
  then show ?case by simp
next
  case (Cons x xs y ys)
  show ?case
  proof (cases "x = y")
    case True
    with Cons show ?thesis by simp
  next
    case False
    let ?k = "10 ^ length ys :: nat"
    have bx: "big_int xs < ?k" and by': "big_int ys < ?k"
      using Cons.prems Cons.hyps big_int_bound [of xs] big_int_bound [of ys] by auto
    have dv: "digit_val x < digit_val y \<longleftrightarrow> (of_char x :: nat) < of_char y"
      "digit_val x \<noteq> digit_val y"
      using Cons.prems False by (simp_all add: digit_val_mono digit_val_inject)
    show ?thesis
    proof (cases "digit_val x < digit_val y")
      case True
      then have "digit_val x * ?k + ?k \<le> digit_val y * ?k"
        using mult_le_mono1 [of "Suc (digit_val x)" "digit_val y" ?k] by simp
      with bx True dv False Cons.hyps show ?thesis by simp
    next
      case F: False
      with dv have "digit_val y * ?k + ?k \<le> digit_val x * ?k"
        using mult_le_mono1 [of "Suc (digit_val y)" "digit_val x" ?k] by simp
      with by' F dv False Cons.hyps show ?thesis by simp
    qed
  qed
qed

lemma big_int_lower: "decimal_cursor_pattern (c # cs) \<Longrightarrow> cs \<noteq> [] \<Longrightarrow> 10 ^ length cs \<le> big_int (c # cs)"
proof -
  assume p: "decimal_cursor_pattern (c # cs)" and "cs \<noteq> []"
  then have "is_digit c" "c \<noteq> CHR ''0''" by (auto simp: decimal_cursor_pattern_def)
  then have "1 \<le> digit_val c" using digit_val_pos [of c] by simp
  then have "1 * 10 ^ length cs \<le> digit_val c * 10 ^ length cs" by (rule mult_le_mono1)
  then have "10 ^ length cs \<le> digit_val c * 10 ^ length cs" by (simp only: mult_1)
  then show ?thesis unfolding big_int.simps by (rule trans_le_add1)
qed

lemma length_less_big_int:
  assumes "decimal_cursor_pattern s" and "decimal_cursor_pattern t" and "length s < length t"
  shows "big_int s < big_int t"
proof -
  have "s \<noteq> []" using assms(1) by (auto simp: decimal_cursor_pattern_def)
  with assms(3) obtain c cs where t: "t = c # cs" and "cs \<noteq> []"
    by (metis length_0_conv length_Suc_conv less_Suc0 list.exhaust not_less0)
  with assms have "10 ^ length cs \<le> big_int t" using big_int_lower by blast
  moreover have "big_int s < 10 ^ length s" using assms big_int_bound pattern_digits by blast
  moreover have "(10 :: nat) ^ length s \<le> 10 ^ length cs"
    using assms t by (intro power_increasing) auto
  ultimately show ?thesis by linarith
qed

lemma sql_cursor_gt_iff:
  assumes "decimal_cursor_pattern a" and "decimal_cursor_pattern b"
  shows "sql_cursor_gt a b \<longleftrightarrow> big_int b < big_int a"
proof (cases "length a" "length b" rule: linorder_cases)
  case less
  then show ?thesis using length_less_big_int [OF assms less] by (auto simp: sql_cursor_gt_def)
next
  case equal
  then show ?thesis using str_less_digits [of b a] pattern_digits assms
    by (simp add: sql_cursor_gt_def)
next
  case greater
  then show ?thesis using length_less_big_int [OF assms(2,1) greater]
    by (simp add: sql_cursor_gt_def)
qed

lemma sql_cursor_le_not_gt: "sql_cursor_le a b \<longleftrightarrow> \<not> sql_cursor_gt a b"
  using str_less_total [of a b] str_less_asym [of a b] str_less_asym [of b a]
  by (auto simp: sql_cursor_le_def sql_cursor_gt_def)

lemma sql_cursor_le_iff:
  assumes "decimal_cursor_pattern a" and "decimal_cursor_pattern b"
  shows "sql_cursor_le a b \<longleftrightarrow> big_int a \<le> big_int b"
  using sql_cursor_gt_iff [OF assms] by (auto simp: sql_cursor_le_not_gt)

lemma sql_cursor_gt_dec [simp]: "sql_cursor_gt (dec m) (dec n) \<longleftrightarrow> n < m"
  by (simp add: sql_cursor_gt_iff)

lemma sql_cursor_le_dec [simp]: "sql_cursor_le (dec m) (dec n) \<longleftrightarrow> m \<le> n"
  by (simp add: sql_cursor_le_iff)

lemma canonicalCursor_dec [simp]: "canonicalCursor (dec n) = Inr n"
  by (simp add: canonicalCursor_def)

lemma canonicalCursor_Inr: "canonicalCursor s = Inr n \<longleftrightarrow> s = dec n"
  using dec_big_int [of s] by (auto simp: canonicalCursor_def)

lemma decimal_cursor_pattern_iff: "decimal_cursor_pattern s \<longleftrightarrow> (\<exists>n. s = dec n)"
  by (metis dec_big_int decimal_cursor_pattern_dec)

end
