(* ===== verification/Dates.thy ===== *)
theory Dates
  imports Cursor
begin

text \<open>
  The two functions of JavaScript's \<open>Date\<close> the store uses: \<open>toISOString\<close>, the text of a time in
  milliseconds since 1970, and \<open>Date.parse\<close>. The proleptic Gregorian calendar repeats every 400
  years (146097 days), so a day is first reduced to the 400 years from 1970. A text that is
  not of the form \<open>toISOString\<close> writes is read by the engine in its own way: a parameter.
  Times are within the range of \<open>Date\<close>, where \<open>toISOString\<close> does not throw.
\<close>

section \<open>The calendar\<close>

definition leap :: "nat \<Rightarrow> bool" where
  "leap y \<longleftrightarrow> (4 dvd y \<and> \<not> 100 dvd y) \<or> 400 dvd y"

definition year_len :: "nat \<Rightarrow> nat" where
  "year_len y = (if leap y then 366 else 365)"

definition month_lens :: "nat \<Rightarrow> nat list" where
  "month_lens y = [31, if leap y then 29 else 28, 31, 30, 31, 30, 31, 31, 30, 31, 30, 31]"

function year_split :: "nat \<Rightarrow> nat \<Rightarrow> nat \<times> nat" where
  "year_split y d = (if d < year_len y then (y, d) else year_split (Suc y) (d - year_len y))"
  by pat_completeness auto
termination
  by (relation "measure snd") (auto simp: year_len_def)

fun month_split :: "nat list \<Rightarrow> nat \<Rightarrow> nat \<times> nat" where
  "month_split [] d = (0, d)"
| "month_split (l # ls) d =
     (if d < l then (0, d) else (let (m, r) = month_split ls (d - l) in (Suc m, r)))"

declare year_split.simps [simp del]

section \<open>Writing\<close>

definition pad :: "nat \<Rightarrow> nat \<Rightarrow> string" where
  "pad w n = replicate (w - length (dec n)) (CHR ''0'') @ dec n"

definition iso_year :: "int \<Rightarrow> string" where
  "iso_year y =
     (if 0 \<le> y \<and> y \<le> 9999 then pad 4 (nat y)
      else (if y < 0 then CHR ''-'' else CHR ''+'') # pad 6 (nat \<bar>y\<bar>))"

definition isoTime :: "int \<Rightarrow> string" where
  "isoTime t =
     (let day = t div 86400000; ms = nat (t mod 86400000);
          era = day div 146097;
          (y, doy) = year_split 1970 (nat (day mod 146097));
          (m, d) = month_split (month_lens y) doy in
      iso_year (int y + 400 * era) @ ''-'' @ pad 2 (m + 1) @ ''-'' @ pad 2 (d + 1) @ ''T''
      @ pad 2 (ms div 3600000) @ '':'' @ pad 2 (ms div 60000 mod 60) @ '':''
      @ pad 2 (ms div 1000 mod 60) @ ''.'' @ pad 3 (ms mod 1000) @ ''Z'')"

section \<open>Reading\<close>

text \<open>Days from 1970-01-01 to the given day; the month counts from 0.\<close>

definition days_of :: "int \<Rightarrow> nat \<Rightarrow> nat \<Rightarrow> int" where
  "days_of year m d =
     (let era = (year - 1970) div 400; y = nat ((year - 1970) mod 400) + 1970 in
      146097 * era + int (sum_list (map year_len [1970..<y]) + sum_list (take m (month_lens y)) + (d - 1)))"

definition iso_fields :: "string \<Rightarrow> (nat \<times> nat \<times> nat \<times> nat \<times> nat \<times> nat \<times> nat) option" where
  "iso_fields s =
     (let f = (\<lambda>i n. take n (drop i s)) in
      if length s = 24 \<and> f 4 1 = ''-'' \<and> f 7 1 = ''-'' \<and> f 10 1 = ''T'' \<and> f 13 1 = '':'' \<and> f 16 1 = '':''
         \<and> f 19 1 = ''.'' \<and> f 23 1 = ''Z''
         \<and> list_all is_digit (f 0 4 @ f 5 2 @ f 8 2 @ f 11 2 @ f 14 2 @ f 17 2 @ f 20 3)
      then Some (big_int (f 0 4), big_int (f 5 2), big_int (f 8 2), big_int (f 11 2), big_int (f 14 2),
                 big_int (f 17 2), big_int (f 20 3))
      else None)"

text \<open>\<open>Date.parse\<close>; \<open>None\<close> is \<open>NaN\<close>, \<open>legacy\<close> what the engine does with other texts.\<close>

definition dateParse :: "(string \<Rightarrow> int option) \<Rightarrow> string \<Rightarrow> int option" where
  "dateParse legacy s =
     (case iso_fields s of
        None \<Rightarrow> legacy s
      | Some (y, mo, d, h, mi, sec, ms) \<Rightarrow>
          if 1 \<le> mo \<and> mo \<le> 12 \<and> 1 \<le> d \<and> d \<le> month_lens y ! (mo - 1)
             \<and> (h < 24 \<or> (h = 24 \<and> mi = 0 \<and> sec = 0 \<and> ms = 0)) \<and> mi < 60 \<and> sec < 60
          then Some (days_of (int y) (mo - 1) d * 86400000
                     + int (h * 3600000 + mi * 60000 + sec * 1000 + ms))
          else None)"

section \<open>The calendar, split and put together\<close>

lemma year_split_spec:
  "year_split y d = (y', r) \<Longrightarrow> y \<le> y' \<and> r < year_len y' \<and> d = sum_list (map year_len [y..<y']) + r"
proof (induction y d rule: year_split.induct)
  case (1 y d)
  show ?case
  proof (cases "d < year_len y")
    case True
    with 1(2) show ?thesis by (simp add: year_split.simps [of y d])
  next
    case False
    with 1(2) have "year_split (Suc y) (d - year_len y) = (y', r)" by (simp add: year_split.simps [of y d])
    with 1(1) [OF False] have IH: "Suc y \<le> y'" "r < year_len y'"
      "d - year_len y = sum_list (map year_len [Suc y..<y']) + r" by auto
    then have "[y..<y'] = y # [Suc y..<y']" by (intro upt_conv_Cons) simp
    with IH False show ?thesis by simp
  qed
qed

lemma month_split_spec:
  "month_split ls d = (m, r) \<Longrightarrow> d < sum_list ls \<Longrightarrow>
   m < length ls \<and> r < ls ! m \<and> d = sum_list (take m ls) + r"
proof (induction ls d arbitrary: m r rule: month_split.induct)
  case (2 l ls d)
  show ?case
  proof (cases "d < l")
    case True
    with 2 show ?thesis by auto
  next
    case False
    obtain m' r' where s: "month_split ls (d - l) = (m', r')" by (cases "month_split ls (d - l)")
    with 2 False have "m' < length ls \<and> r' < ls ! m' \<and> d - l = sum_list (take m' ls) + r'" by auto
    with 2(2) s False show ?thesis by auto
  qed
qed simp

lemma sum_month_lens: "sum_list (month_lens y) = year_len y"
  by (simp add: month_lens_def year_len_def)

lemma length_month_lens [simp]: "length (month_lens y) = 12"
  by (simp add: month_lens_def)

lemma leap_400: "leap (y + 400 * k) = leap y"
proof -
  have "4 dvd 400 * k" "100 dvd 400 * k" "400 dvd 400 * k" by (simp_all add: dvd_mult2)
  then show ?thesis by (auto simp: leap_def dvd_add_left_iff)
qed

lemma month_lens_400: "month_lens (y + 400 * k) = month_lens y"
  by (simp add: month_lens_def leap_400)

lemma cycle_days: "sum_list (map year_len [1970..<2370]) = 146097"
  by (simp add: year_len_def leap_def)

lemma thirty_years: "sum_list (map year_len [1970..<2000]) = 10957"
  by (simp add: year_len_def leap_def)

lemma year_split_cycle:
  assumes "year_split 1970 d = (y, r)" and "d < 146097"
  shows "y < 2370"
proof (rule ccontr)
  assume "\<not> y < 2370"
  then have "[1970..<y] = [1970..<2370] @ [2370..<y]" using upt_add_eq_append [of 1970 2370 "y - 2370"] by simp
  then have "sum_list (map year_len [1970..<y]) = 146097 + sum_list (map year_len [2370..<y])"
    by (simp only: map_append sum_list_append cycle_days)
  with year_split_spec [OF assms(1)] have "146097 \<le> d" by linarith
  with assms(2) show False by simp
qed

section \<open>Round trip\<close>

lemma length_dec: "n < 10 ^ w \<Longrightarrow> 0 < w \<Longrightarrow> length (dec n) \<le> w"
proof (induction n arbitrary: w rule: dec.induct)
  case (1 n)
  show ?case
  proof (cases "n < 10")
    case True
    then show ?thesis using 1(3) by (simp add: dec_small)
  next
    case False
    obtain v where v: "w = Suc v" using 1(3) by (cases w) auto
    moreover have "0 < v" using False 1(2) v by (cases v) auto
    ultimately have v: "w = Suc v" "0 < v" by simp_all
    with 1(2) have "n div 10 < 10 ^ v" by (simp add: less_mult_imp_div_less)
    with 1(1) [OF False this v(2)] False v show ?thesis by (simp add: dec_big)
  qed
qed

lemma length_pad [simp]: "n < 10 ^ w \<Longrightarrow> 0 < w \<Longrightarrow> length (pad w n) = w"
  using length_dec by (simp add: pad_def)

lemma big_int_zeros: "big_int (replicate k (CHR ''0'') @ s) = big_int s"
  by (induction k) (simp_all add: digit_val_def)

lemma big_int_pad [simp]: "big_int (pad w n) = n"
  by (simp add: pad_def big_int_zeros)

lemma digits_pad [simp]: "list_all is_digit (pad w n)"
proof -
  have "list_all is_digit (replicate k (CHR ''0''))" for k by (induction k) (simp_all add: is_digit_def)
  then show ?thesis using dec_digits [of n] by (simp add: pad_def)
qed

lemma iso_fields_written:
  assumes "y < 10000" "mo < 100" "d < 100" "h < 100" "mi < 100" "sec < 100" "ms < 1000"
  shows "iso_fields (pad 4 y @ ''-'' @ pad 2 mo @ ''-'' @ pad 2 d @ ''T'' @ pad 2 h @ '':'' @ pad 2 mi @ '':''
      @ pad 2 sec @ ''.'' @ pad 3 ms @ ''Z'') = Some (y, mo, d, h, mi, sec, ms)"
  using assms by (simp add: iso_fields_def Let_def)

lemma nat_div_mod_time:
  fixes n :: nat
  shows "n div 3600000 * 3600000 + n div 60000 mod 60 * 60000 + n div 1000 mod 60 * 1000 + n mod 1000 = n"
proof -
  have a: "n = n div 1000 * 1000 + n mod 1000" by simp
  have b: "n div 1000 = n div 1000 div 60 * 60 + n div 1000 mod 60" by simp
  have c: "n div 60000 = n div 60000 div 60 * 60 + n div 60000 mod 60" by simp
  have d: "n div 1000 div 60 = n div 60000" "n div 60000 div 60 = n div 3600000" by (simp_all add: div_mult2_eq [symmetric])
  from a b c d show ?thesis by linarith
qed

lemma iso_parse_written:
  assumes "0 \<le> t" and "t < 253402300800000"
  shows "dateParse legacy (isoTime t) = Some t"
proof -
  define day where "day = t div 86400000"
  define ms where "ms = nat (t mod 86400000)"
  define era where "era = day div 146097"
  obtain y doy where ys: "year_split 1970 (nat (day mod 146097)) = (y, doy)" by fastforce
  obtain m d where md: "month_split (month_lens y) doy = (m, d)" by fastforce
  have yr: "1970 \<le> y" "doy < year_len y" "nat (day mod 146097) = sum_list (map year_len [1970..<y]) + doy"
    using year_split_spec [OF ys] by auto
  have y2: "y < 2370" by (rule year_split_cycle [OF ys]) simp
  have mo: "m < 12" "d < month_lens y ! m" "doy = sum_list (take m (month_lens y)) + d"
    using month_split_spec [OF md] yr(2) by (auto simp: sum_month_lens)
  have "month_lens y ! m \<le> 31" using mo(1) by (auto simp: month_lens_def nth_Cons' split: if_splits)
  then have d: "d < 31" using mo(2) by simp
  have ms: "ms < 86400000" unfolding ms_def by simp
  have era: "0 \<le> era" unfolding era_def day_def using assms(1) by (simp add: pos_imp_zdiv_nonneg_iff)
  define Y where "Y = y + 400 * nat era"
  have Y: "int Y = int y + 400 * era" using era by (simp add: Y_def)
  have dm: "day = 146097 * era + day mod 146097" by (simp add: era_def)
  have dlt: "day < 2932897" 
  proof -
    have "t = day * 86400000 + t mod 86400000" "0 \<le> t mod 86400000" by (simp_all add: day_def)
    then show ?thesis using assms(2) by linarith
  qed
  have Y4: "Y < 10000"
  proof (cases "era < 20")
    case True
    then show ?thesis using y2 Y by simp
  next
    case False
    then have "day mod 146097 < 10957" using dm dlt by linarith
    have "y < 2000"
    proof (rule ccontr)
      assume "\<not> y < 2000"
      then have "[1970..<y] = [1970..<2000] @ [2000..<y]" using upt_add_eq_append [of 1970 2000 "y - 2000"] by simp
      then have "sum_list (map year_len [1970..<y]) = 10957 + sum_list (map year_len [2000..<y])"
        by (simp only: map_append sum_list_append thirty_years)
      with yr(3) \<open>day mod 146097 < 10957\<close> show False by linarith
    qed
    moreover have "era < 21" using dm dlt pos_mod_sign [of 146097 day] by linarith
    ultimately show ?thesis using Y by linarith
  qed
  have lens: "month_lens Y = month_lens y" by (simp add: Y_def month_lens_400)
  have "isoTime t = pad 4 Y @ ''-'' @ pad 2 (m + 1) @ ''-'' @ pad 2 (d + 1) @ ''T''
      @ pad 2 (ms div 3600000) @ '':'' @ pad 2 (ms div 60000 mod 60) @ '':''
      @ pad 2 (ms div 1000 mod 60) @ ''.'' @ pad 3 (ms mod 1000) @ ''Z''"
    using Y4 by (simp add: isoTime_def Let_def day_def [symmetric] ms_def [symmetric] era_def [symmetric]
        ys md Y [symmetric] iso_year_def)
  moreover have "iso_fields \<dots> = Some (Y, m + 1, d + 1, ms div 3600000, ms div 60000 mod 60, ms div 1000 mod 60, ms mod 1000)"
    using Y4 mo(1) d ms by (intro iso_fields_written) auto
  moreover have "days_of (int Y) m (d + 1) = day"
  proof -
    have "int Y - 1970 = (int y - 1970) + era * 400" using Y by simp
    then have "(int Y - 1970) div 400 = era" "(int Y - 1970) mod 400 = int y - 1970"
      using yr(1) y2 unfolding \<open>int Y - 1970 = (int y - 1970) + era * 400\<close>
      by (simp_all only: div_mult_self1 mod_mult_self1) simp_all
    moreover have "nat (int y - 1970) + 1970 = y" using yr(1) by simp
    moreover have "int (nat (day mod 146097)) = day mod 146097" by simp
    ultimately show ?thesis using yr(3) mo(3) dm by (simp add: days_of_def)
  qed
  moreover have "ms div 3600000 < 24" using ms by (simp add: less_mult_imp_div_less)
  moreover have "day * 86400000 + int ms = t" by (simp add: day_def ms_def)
  ultimately show ?thesis
    using nat_div_mod_time [of ms] mo(1,2) lens by (simp add: dateParse_def)
qed

text \<open>
  Reading back the text of any time of the years 1970 to 9999 gives that time, whatever
  the engine does with other texts.
\<close>

theorem iso_round_trip:
  assumes "0 \<le> t" and "t < 253402300800000"
  shows "dateParse legacy (isoTime t) = Some t"
  by (rule iso_parse_written [OF assms])

end
