(* ===== verification/Store_Base.thy ===== *)
theory Store_Base
  imports Cursor
begin

text \<open>
  The durable store of packages/bridge/src/core/store.ts: its tables as lists of rows in
  insertion order, its transactions, error mapping, identity, sessions and streams.

  A row type has the columns of its \<open>CREATE TABLE\<close> (a JSON column holds the value, a nullable
  column is an option). \<open>INSERT\<close> appends a row, \<open>UPDATE\<close> maps over the table, \<open>DELETE\<close> filters
  it; a violated \<open>UNIQUE\<close>, \<open>PRIMARY KEY\<close> or foreign key throws the driver's error.
\<close>

section \<open>Tables\<close>

record session_row =
  sn_id :: string
  sn_state :: obj
  sn_created :: int
  sn_updated :: int

datatype stream_scope = Host_scope | Session_scope

record stream_row =
  st_id :: string
  st_scope :: stream_scope
  st_session :: "string option"
  st_current :: string
  st_floor :: string

record event_row =
  ev_id :: string
  ev_stream :: string
  ev_cursor :: string
  ev_type :: string
  ev_payload :: obj
  ev_bytes :: nat
  ev_created :: int

record command_row =
  cm_id :: string
  cm_type :: string
  cm_scope :: string
  cm_stream :: string
  cm_hash :: string
  cm_payload :: obj
  cm_state :: string
  cm_dispatches :: nat
  cm_created :: int
  cm_updated :: int

record cursor_row =
  cc_install :: string
  cc_stream :: string
  cc_cursor :: string
  cc_updated :: int

record lease_row =
  ls_id :: string
  ls_scope :: string
  ls_install :: string
  ls_conn :: string
  ls_acquired :: int
  ls_renewed :: int
  ls_expires :: int
  ls_reclaim :: "int option"
  ls_disconnected :: "int option"
  ls_takeover :: "string option"
  ls_revoked :: "int option"
  ls_updated :: int

record trust_row =
  tr_id :: string
  tr_root :: string
  tr_label :: string
  tr_fingerprint :: string
  tr_policy :: string
  tr_approved :: int
  tr_by :: string
  tr_seeded :: "int option"
  tr_updated :: int

datatype policy_mode = Full_mode | Read_only_mode

record policy_row =
  po_mode :: policy_mode
  po_version :: string
  po_fingerprint :: string
  po_source :: string
  po_updated :: int
  po_by :: "string option"

datatype queue_state = Queued | Dispatching

record queue_row =
  qu_id :: string
  qu_session :: string
  qu_message :: string
  qu_attach :: "string list"
  qu_state :: queue_state
  qu_pos :: nat
  qu_created :: int
  qu_updated :: int

datatype dialog_state = Pending | Responded | Expired | Cancelled | Orphaned

record dialog_row =
  dg_id :: string
  dg_session :: string
  dg_upstream :: string
  dg_method :: string
  dg_request :: obj
  dg_state :: dialog_state
  dg_created :: int
  dg_expires :: int
  dg_updated :: int

datatype platform = Apns | Fcm

record device_row =
  dv_id :: string
  dv_install :: string
  dv_platform :: platform
  dv_token :: string
  dv_version :: string
  dv_revision :: nat
  dv_seen :: int
  dv_created :: int
  dv_rejected_reason :: "string option"
  dv_rejected_at :: "int option"

record dedup_row =
  dd_source :: string
  dd_kind :: string
  dd_session :: string
  dd_created :: int

datatype enrollment_source = Qr | Manual | Cli | Seed

record credential_row =
  cr_install :: string
  cr_hash :: string
  cr_secret :: string
  cr_source :: enrollment_source
  cr_created :: int
  cr_seen :: int
  cr_expires :: "int option"
  cr_revoked :: "int option"
  cr_reason :: "string option"

record secret_row =
  se_hash :: string
  se_created :: int
  se_expires :: int
  se_used :: "int option"
  se_used_by :: "string option"

record ref_row =
  rf_session :: string
  rf_kind :: string
  rf_backend :: string
  rf_file :: string
  rf_created :: int
  rf_updated :: int

datatype migration_state = Running | Completed | Failed | Indeterminate
datatype migration_outcome = Succeeded | Outcome_failed | Unknown

record migration_row =
  mg_session :: string
  mg_id :: string
  mg_from :: string
  mg_to :: string
  mg_state :: migration_state
  mg_outcome :: "migration_outcome option"
  mg_reason :: "string option"
  mg_attempt :: nat
  mg_retryable :: bool
  mg_started :: int
  mg_completed :: "int option"
  mg_updated :: int

record canon_row =
  cn_session :: string
  cn_sequence :: nat
  cn_id :: string
  cn_source :: "string option"
  cn_type :: string
  cn_occurred :: string
  cn_payload :: obj
  cn_created :: int

section \<open>The store\<close>

text \<open>
  \<open>notified\<close> are the events the commit listeners have been called with, \<open>uuids\<close> the values
  \<open>crypto.randomUUID\<close> returns and \<open>uuid_pos\<close> how many have been drawn, \<open>clock\<close> what
  \<open>this.now()\<close> returns during the current operation.
\<close>

record store =
  ident :: "(string \<times> string) option"
  sessions :: "session_row list"
  streams :: "stream_row list"
  events :: "event_row list"
  commands :: "command_row list"
  client_cursors :: "cursor_row list"
  leases :: "lease_row list"
  trust :: "trust_row list"
  policy :: "policy_row option"
  follow_ups :: "queue_row list"
  dialogs :: "dialog_row list"
  devices :: "device_row list"
  dedup :: "dedup_row list"
  credentials :: "credential_row list"
  secrets :: "secret_row list"
  backend_refs :: "ref_row list"
  migrations :: "migration_row list"
  canon_sequences :: "(string \<times> nat) list"
  canon_events :: "canon_row list"
  writable :: bool
  maintenance :: bool
  last_failure :: "store_error_code option"
  notified :: "event_row list"
  uuids :: "nat \<Rightarrow> string"
  uuid_pos :: nat
  clock :: int

definition empty_store :: "(nat \<Rightarrow> string) \<Rightarrow> int \<Rightarrow> store" where
  "empty_store us t =
     \<lparr>ident = None, sessions = [], streams = [], events = [], commands = [], client_cursors = [],
      leases = [], trust = [], policy = None, follow_ups = [], dialogs = [], devices = [],
      dedup = [], credentials = [], secrets = [], backend_refs = [], migrations = [],
      canon_sequences = [], canon_events = [], writable = True, maintenance = False,
      last_failure = None, notified = [], uuids = us, uuid_pos = 0, clock = t\<rparr>"

text \<open>A source of distinct identifiers, for the concrete stores of the witnesses.\<close>

definition demo_uuids :: "nat \<Rightarrow> string" where
  "demo_uuids n = replicate (n + 40) (CHR ''u'')"

lemma demo_uuids_inj: "demo_uuids m = demo_uuids n \<longleftrightarrow> m = n"
  by (metis add_right_cancel demo_uuids_def length_replicate)

section \<open>Transactions\<close>

text \<open>
  A transaction body reads and writes the store and may throw; a throw discards what the body
  wrote (\<open>ROLLBACK\<close>) and what it collected for the listeners.
\<close>

type_synonym 'a tx = "store \<Rightarrow> exn + 'a \<times> store"

definition tx_return :: "'a \<Rightarrow> 'a tx" where
  "tx_return a s = Inr (a, s)"

definition tx_throw :: "exn \<Rightarrow> 'a tx" where
  "tx_throw e s = Inl e"

definition tx_bind :: "'a tx \<Rightarrow> ('a \<Rightarrow> 'b tx) \<Rightarrow> 'b tx" where
  "tx_bind m f s = (case m s of Inl e \<Rightarrow> Inl e | Inr (a, s') \<Rightarrow> f a s')"

definition tx_read :: "(store \<Rightarrow> 'a) \<Rightarrow> 'a tx" where
  "tx_read g s = Inr (g s, s)"

definition tx_write :: "(store \<Rightarrow> store) \<Rightarrow> unit tx" where
  "tx_write g s = Inr ((), g s)"

lemma tx_bind_return [tx_simps, simp]: "tx_bind (tx_return a) f = f a"
  by (simp add: tx_bind_def tx_return_def fun_eq_iff)

lemma tx_bind_throw [tx_simps, simp]: "tx_bind (tx_throw e) f s = Inl e"
  by (simp add: tx_bind_def tx_throw_def)

lemma tx_bind_read [tx_simps, simp]: "tx_bind (tx_read g) f s = f (g s) s"
  by (simp add: tx_bind_def tx_read_def)

lemma tx_bind_write [tx_simps, simp]: "tx_bind (tx_write g) f s = f () (g s)"
  by (simp add: tx_bind_def tx_write_def)

lemma tx_bind_Inr_iff:
  "tx_bind m f s = Inr (b, s') \<longleftrightarrow> (\<exists>a s1. m s = Inr (a, s1) \<and> f a s1 = Inr (b, s'))"
  by (auto simp: tx_bind_def split: sum.splits)

lemma tx_return_apply [tx_simps, simp]: "tx_return a s = Inr (a, s)"
  by (simp add: tx_return_def)

lemma tx_throw_apply [tx_simps, simp]: "tx_throw e s = Inl e"
  by (simp add: tx_throw_def)

lemma tx_read_apply [tx_simps, simp]: "tx_read g s = Inr (g s, s)"
  by (simp add: tx_read_def)

lemma tx_write_apply [tx_simps, simp]: "tx_write g s = Inr ((), g s)"
  by (simp add: tx_write_def)

lemma tx_bind_Inr [tx_simps]: "m s = Inr (a, s') \<Longrightarrow> tx_bind m f s = f a s'"
  by (simp add: tx_bind_def)

lemma tx_bind_Inl [tx_simps]: "m s = Inl e \<Longrightarrow> tx_bind m f s = Inl e"
  by (simp add: tx_bind_def)

text \<open>The message test of \<open>mapError\<close>, on the upper-cased message.\<close>

definition error_message :: "exn \<Rightarrow> string" where
  "error_message e =
     (case e of Store_error _ m \<Rightarrow> m | Sqlite_error m \<Rightarrow> m | Type_error m \<Rightarrow> m
              | Range_error m \<Rightarrow> m | Js_error m \<Rightarrow> m)"

definition message_code :: "string \<Rightarrow> store_error_code" where
  "message_code m =
     (let u = map upper_char m in
      if str_includes ''BUSY'' u \<or> str_includes ''LOCKED'' u then Busy
      else if str_includes ''FULL'' u then Full
      else if str_includes ''READONLY'' u \<or> str_includes ''READ-ONLY'' u then Readonly
      else if str_includes ''CORRUPT'' u \<or> str_includes ''MALFORMED'' u then Corrupt
      else Io)"

definition code_text :: "store_error_code \<Rightarrow> string" where
  "code_text c =
     (case c of Busy \<Rightarrow> ''busy'' | Full \<Rightarrow> ''full'' | Readonly \<Rightarrow> ''readonly'' | Corrupt \<Rightarrow> ''corrupt''
              | Io \<Rightarrow> ''io'' | Conflict \<Rightarrow> ''conflict'' | Not_found \<Rightarrow> ''not_found'')"

definition mapError :: "exn \<Rightarrow> store \<Rightarrow> exn \<times> store" where
  "mapError e s =
     (case e of
        Store_error _ _ \<Rightarrow> (e, s)
      | _ \<Rightarrow> let c = message_code (error_message e) in
           (Store_error c (''durable store '' @ code_text c),
            if c \<noteq> Busy then s\<lparr>writable := False, last_failure := Some c\<rparr> else s))"

text \<open>
  \<open>transaction\<close>: refused when the store is not writable; otherwise the body runs between
  \<open>BEGIN IMMEDIATE\<close> and \<open>COMMIT\<close>, and a throw is rolled back and mapped. A call inside another
  transaction runs its body directly, so nested calls are modelled by the bodies themselves.
\<close>

definition transaction :: "'a tx \<Rightarrow> store \<Rightarrow> (exn + 'a) \<times> store" where
  "transaction m s =
     (if \<not> writable s \<or> maintenance s
      then (Inl (Store_error Readonly ''durable store is not writable''), s)
      else case m s of
             Inl e \<Rightarrow> (let (e', s') = mapError e s in (Inl e', s'))
           | Inr (a, s') \<Rightarrow> (Inr a, s'))"

definition ready :: "store \<Rightarrow> bool" where
  "ready s \<longleftrightarrow> writable s \<and> \<not> maintenance s"

definition db_of :: "store \<Rightarrow> store" where
  "db_of s = s\<lparr>writable := True, maintenance := False, last_failure := None\<rparr>"

lemma db_of_sel [simp]:
  "ident (db_of s) = ident s" "sessions (db_of s) = sessions s" "streams (db_of s) = streams s"
  "events (db_of s) = events s" "commands (db_of s) = commands s" "client_cursors (db_of s) = client_cursors s"
  "leases (db_of s) = leases s" "trust (db_of s) = trust s" "policy (db_of s) = policy s"
  "follow_ups (db_of s) = follow_ups s" "dialogs (db_of s) = dialogs s" "devices (db_of s) = devices s"
  "dedup (db_of s) = dedup s" "credentials (db_of s) = credentials s" "secrets (db_of s) = secrets s"
  "backend_refs (db_of s) = backend_refs s" "migrations (db_of s) = migrations s" "canon_sequences (db_of s) = canon_sequences s"
  "canon_events (db_of s) = canon_events s" "notified (db_of s) = notified s" "uuids (db_of s) = uuids s"
  "uuid_pos (db_of s) = uuid_pos s" "clock (db_of s) = clock s"
  by (simp_all add: db_of_def)

lemma transaction_Inr [tx_simps]:
  "ready s \<Longrightarrow> m s = Inr (a, s') \<Longrightarrow> transaction m s = (Inr a, s')"
  by (simp add: transaction_def ready_def)

lemma transaction_Store_error [tx_simps]:
  "ready s \<Longrightarrow> m s = Inl (Store_error c msg) \<Longrightarrow> transaction m s = (Inl (Store_error c msg), s)"
  by (simp add: transaction_def ready_def mapError_def)

lemma transaction_not_ready [tx_simps]:
  "\<not> ready s \<Longrightarrow>
   transaction m s = (Inl (Store_error Readonly ''durable store is not writable''), s)"
  by (auto simp: transaction_def ready_def)

lemma mapError_db [simp]: "db_of (snd (mapError e s)) = db_of s"
  by (cases e) (simp_all add: mapError_def db_of_def Let_def)

lemma transaction_eq:
  "transaction m s =
     (if \<not> ready s then (Inl (Store_error Readonly ''durable store is not writable''), s)
      else case m s of
             Inl e \<Rightarrow> (Inl (fst (mapError e s)), snd (mapError e s))
           | Inr (a, s') \<Rightarrow> (Inr a, s'))"
  by (cases "m s") (simp_all add: transaction_def ready_def case_prod_unfold Let_def)

text \<open>A transaction either commits what its body returned or leaves every table as it was.\<close>

lemma transaction_cases:
  obtains (not_ready) "\<not> ready s" "transaction m s = (Inl (Store_error Readonly ''durable store is not writable''), s)"
  | (rolled_back) e where "ready s" "m s = Inl e"
      "transaction m s = (Inl (fst (mapError e s)), snd (mapError e s))"
  | (committed) a s' where "ready s" "m s = Inr (a, s')" "transaction m s = (Inr a, s')"
  by (cases "ready s"; cases "m s") (auto simp: transaction_eq)

lemma transaction_atomic:
  "transaction m s = (r, s') \<Longrightarrow>
   (case r of Inl e \<Rightarrow> db_of s' = db_of s | Inr a \<Rightarrow> m s = Inr (a, s'))"
  by (cases rule: transaction_cases [of s m]) (auto simp del: sum.split)

lemma transaction_Inr_iff:
  "transaction m s = (Inr a, s') \<longleftrightarrow> ready s \<and> m s = Inr (a, s')"
  by (cases rule: transaction_cases [of s m]) auto

lemma transaction_InrD: "transaction m s = (Inr a, s') \<Longrightarrow> m s = Inr (a, s') \<and> ready s"
  by (simp add: transaction_Inr_iff)

text \<open>An invariant of the tables alone survives a transaction whose body preserves it.\<close>

lemma transaction_preserves:
  assumes body: "\<And>a s'. m s = Inr (a, s') \<Longrightarrow> P s'"
    and db: "\<And>t. db_of t = db_of s \<Longrightarrow> P t"
  shows "P (snd (transaction m s))"
proof -
  obtain r s' where t: "transaction m s = (r, s')" by (cases "transaction m s")
  show ?thesis
  proof (cases r)
    case (Inl e)
    with transaction_atomic [OF t] db t show ?thesis by simp
  next
    case (Inr a)
    with transaction_atomic [OF t] body t show ?thesis by simp
  qed
qed

section \<open>Identifiers drawn\<close>

definition uuid :: "string tx" where
  "uuid s = Inr (uuids s (uuid_pos s), s\<lparr>uuid_pos := Suc (uuid_pos s)\<rparr>)"

lemma uuid_apply [tx_simps]: "tx_bind uuid f s = f (uuids s (uuid_pos s)) (s\<lparr>uuid_pos := Suc (uuid_pos s)\<rparr>)"
  by (simp add: tx_bind_def uuid_def)

section \<open>Identity\<close>

definition identity :: "(string \<times> string) tx" where
  "identity s =
     (case ident s of
        Some row \<Rightarrow> Inr (row, s)
      | None \<Rightarrow>
          (let row = (uuids s (uuid_pos s), ''1'') in
           Inr (row, s\<lparr>uuid_pos := Suc (uuid_pos s), ident := Some row\<rparr>)))"

lemma identity_total: "\<exists>row s'. identity s = Inr (row, s') \<and> ident s' = Some row"
  by (cases "ident s") (auto simp: identity_def Let_def)

lemma identity_stable: "ident s = Some row \<Longrightarrow> identity s = Inr (row, s)"
  by (simp add: identity_def)

definition incrementHostGeneration :: "store \<Rightarrow> (exn + string \<times> string) \<times> store" where
  "incrementHostGeneration s =
     (case transaction identity s of
        (Inl e, s1) \<Rightarrow> (Inl e, s1)
      | (Inr (h, g), s1) \<Rightarrow>
          transaction
            (\<lambda>t. case canonicalCursor g of
                Inl e \<Rightarrow> Inl e
              | Inr n \<Rightarrow> Inr ((h, dec (n + 1)), t\<lparr>ident := map_option (\<lambda>(h', _). (h', dec (n + 1))) (ident t)\<rparr>))
            s1)"

section \<open>Sessions\<close>

definition session_row_of :: "store \<Rightarrow> string \<Rightarrow> session_row option" where
  "session_row_of s i = find (\<lambda>r. sn_id r = i) (sessions s)"

definition sessionExists :: "store \<Rightarrow> string \<Rightarrow> bool" where
  "sessionExists s i \<longleftrightarrow> session_row_of s i \<noteq> None"

definition sessionState :: "store \<Rightarrow> string \<Rightarrow> obj option" where
  "sessionState s i = map_option sn_state (session_row_of s i)"

text \<open>\<open>INSERT OR IGNORE INTO sessions\<close>.\<close>

definition ensureSession_tx :: "string \<Rightarrow> obj \<Rightarrow> unit tx" where
  "ensureSession_tx i st s =
     (if sessionExists s i then Inr ((), s)
      else Inr ((), s\<lparr>sessions := sessions s @
        [\<lparr>sn_id = i, sn_state = st, sn_created = clock s, sn_updated = clock s\<rparr>]\<rparr>))"

definition ensureSession :: "string \<Rightarrow> obj \<Rightarrow> store \<Rightarrow> (exn + unit) \<times> store" where
  "ensureSession i st = transaction (ensureSession_tx i st)"

text \<open>\<open>UPDATE sessions SET state_json=?,updated_at=? WHERE session_id=?\<close>.\<close>

definition set_session_state :: "string \<Rightarrow> obj \<Rightarrow> store \<Rightarrow> store" where
  "set_session_state i st s =
     s\<lparr>sessions := map (\<lambda>r. if sn_id r = i then r\<lparr>sn_state := st, sn_updated := clock s\<rparr> else r)
         (sessions s)\<rparr>"

definition updateSessionState :: "string \<Rightarrow> obj \<Rightarrow> store \<Rightarrow> (exn + unit) \<times> store" where
  "updateSessionState i st =
     transaction (\<lambda>s. if sessionExists s i then Inr ((), set_session_state i st s)
                      else Inl (Store_error Not_found ''session not found''))"

text \<open>\<open>INSERT INTO sessions ... ON CONFLICT(session_id) DO UPDATE SET state_json, updated_at\<close>.\<close>

definition upsert_session_state :: "string \<Rightarrow> obj \<Rightarrow> store \<Rightarrow> store" where
  "upsert_session_state i st s =
     (if sessionExists s i then set_session_state i st s
      else s\<lparr>sessions := sessions s @
        [\<lparr>sn_id = i, sn_state = st, sn_created = clock s, sn_updated = clock s\<rparr>]\<rparr>)"

definition session_less :: "session_row \<Rightarrow> session_row \<Rightarrow> bool" where
  "session_less a b \<longleftrightarrow>
     sn_created a < sn_created b \<or> (sn_created a = sn_created b \<and> str_less (sn_id a) (sn_id b))"

definition sessionStates :: "store \<Rightarrow> obj list" where
  "sessionStates s =
     map (\<lambda>r. spread [(''sessionId'', JStr (sn_id r))] (sn_state r)) (order_by session_less (sessions s))"

section \<open>Streams\<close>

definition stream_row_of :: "store \<Rightarrow> string \<Rightarrow> stream_row option" where
  "stream_row_of s i = find (\<lambda>r. st_id r = i) (streams s)"

definition streamPosition :: "store \<Rightarrow> string \<Rightarrow> (string \<times> string) option" where
  "streamPosition s i = map_option (\<lambda>r. (st_current r, st_floor r)) (stream_row_of s i)"

text \<open>
  \<open>INSERT OR IGNORE INTO streams\<close>: nothing happens when the id is taken or, for a session
  stream, when the session already has a stream of this scope (\<open>UNIQUE(scope,session_id)\<close>, where
  NULLs never collide); \<open>OR IGNORE\<close> does not cover the foreign key to \<open>sessions\<close>.
\<close>

definition ensureStreamTx :: "string \<Rightarrow> stream_scope \<Rightarrow> string option \<Rightarrow> unit tx" where
  "ensureStreamTx i sc sess s =
     (if sc = Session_scope \<and> (sess = None \<or> sess = Some '''')
      then Inl (Store_error Conflict ''session stream requires session ID'')
      else if stream_row_of s i \<noteq> None
           \<or> (sess \<noteq> None \<and> (\<exists>r \<in> set (streams s). st_scope r = sc \<and> st_session r = sess))
      then Inr ((), s)
      else if (case sess of None \<Rightarrow> False | Some x \<Rightarrow> \<not> sessionExists s x)
      then Inl (Sqlite_error ''FOREIGN KEY constraint failed'')
      else Inr ((), s\<lparr>streams := streams s @
        [\<lparr>st_id = i, st_scope = sc, st_session = sess, st_current = ''0'', st_floor = ''0''\<rparr>]\<rparr>))"

definition ensureStream :: "string \<Rightarrow> stream_scope \<Rightarrow> string option \<Rightarrow> store \<Rightarrow> (exn + unit) \<times> store" where
  "ensureStream i sc sess = transaction (ensureStreamTx i sc sess)"

definition host_stream :: "string \<Rightarrow> string" where
  "host_stream h = ''host:'' @ h"

definition session_stream :: "string \<Rightarrow> string" where
  "session_stream i = ''session:'' @ i"

section \<open>Deleting a session\<close>

text \<open>
  \<open>DELETE FROM sessions\<close> with its \<open>ON DELETE CASCADE\<close> children: the session's streams, their
  events and acknowledged cursors, its queue, dialogs, backend reference and migration. The
  \<open>commands\<close> table references streams without a cascade, so a remaining command refuses the
  delete.
\<close>

definition delete_session :: "string \<Rightarrow> unit tx" where
  "delete_session i s =
     (let gone = map st_id (filter (\<lambda>r. st_session r = Some i) (streams s)) in
      if \<not> sessionExists s i then Inr ((), s)
      else if \<exists>c \<in> set (commands s). cm_stream c \<in> set gone
      then Inl (Sqlite_error ''FOREIGN KEY constraint failed'')
      else Inr ((), s\<lparr>
        sessions := filter (\<lambda>r. sn_id r \<noteq> i) (sessions s),
        streams := filter (\<lambda>r. st_session r \<noteq> Some i) (streams s),
        events := filter (\<lambda>e. ev_stream e \<notin> set gone) (events s),
        client_cursors := filter (\<lambda>c. cc_stream c \<notin> set gone) (client_cursors s),
        follow_ups := filter (\<lambda>q. qu_session q \<noteq> i) (follow_ups s),
        dialogs := filter (\<lambda>d. dg_session d \<noteq> i) (dialogs s),
        backend_refs := filter (\<lambda>r. rf_session r \<noteq> i) (backend_refs s),
        migrations := filter (\<lambda>m. mg_session m \<noteq> i) (migrations s)\<rparr>))"

definition discardSession :: "string \<Rightarrow> store \<Rightarrow> (exn + unit) \<times> store" where
  "discardSession i = transaction (delete_session i)"

end
