(* ===== verification/Store_Events.thy ===== *)
theory Store_Events
  imports Store_Base
begin

text \<open>
  The event journal of the store (\<open>streams\<close>, \<open>events\<close>, \<open>client_cursors\<close>): append, replay,
  paging, acknowledgement and compaction. The invariant \<open>journal_ok\<close> says that a stream holds
  exactly the events with the cursors above its retention floor up to its current cursor, each
  once and in order.
\<close>

section \<open>Append\<close>

definition new_event :: "string \<Rightarrow> string \<Rightarrow> string \<Rightarrow> string \<Rightarrow> obj \<Rightarrow> int \<Rightarrow> event_row" where
  "new_event eid sid cursor ty payload t =
     \<lparr>ev_id = eid, ev_stream = sid, ev_cursor = cursor, ev_type = ty, ev_payload = payload,
      ev_bytes = length (json_text (JObj payload)), ev_created = t\<rparr>"

definition set_current :: "string \<Rightarrow> string \<Rightarrow> store \<Rightarrow> store" where
  "set_current sid c s =
     s\<lparr>streams := map (\<lambda>r. if st_id r = sid then r\<lparr>st_current := c\<rparr> else r) (streams s)\<rparr>"

definition set_floor :: "string \<Rightarrow> string \<Rightarrow> store \<Rightarrow> store" where
  "set_floor sid c s =
     s\<lparr>streams := map (\<lambda>r. if st_id r = sid then r\<lparr>st_floor := c\<rparr> else r) (streams s)\<rparr>"

definition appendEventTx :: "string \<Rightarrow> string \<Rightarrow> obj \<Rightarrow> string \<Rightarrow> event_row tx" where
  "appendEventTx sid ty payload eid s =
     (case stream_row_of s sid of
        None \<Rightarrow> Inl (Store_error Not_found ''stream not found'')
      | Some st \<Rightarrow>
          (case canonicalCursor (st_current st) of
             Inl e \<Rightarrow> Inl e
           | Inr n \<Rightarrow>
               (let ev = new_event eid sid (dec (n + 1)) ty payload (clock s) in
                if \<exists>e \<in> set (events s). ev_id e = eid
                then Inl (Sqlite_error ''UNIQUE constraint failed: events.event_id'')
                else if \<exists>e \<in> set (events s). ev_stream e = sid \<and> ev_cursor e = dec (n + 1)
                then Inl (Sqlite_error ''UNIQUE constraint failed: events.stream_id, events.cursor'')
                else Inr (ev, (set_current sid (dec (n + 1)) s)
                       \<lparr>events := events s @ [ev], notified := notified s @ [ev]\<rparr>))))"

text \<open>The event id defaults to a fresh UUID.\<close>

definition append_fresh :: "string \<Rightarrow> string \<Rightarrow> obj \<Rightarrow> event_row tx" where
  "append_fresh sid ty payload = tx_bind uuid (appendEventTx sid ty payload)"

definition appendEvent :: "string \<Rightarrow> string \<Rightarrow> obj \<Rightarrow> string option \<Rightarrow> store \<Rightarrow> (exn + event_row) \<times> store" where
  "appendEvent sid ty payload eid =
     transaction (case eid of None \<Rightarrow> append_fresh sid ty payload
                            | Some i \<Rightarrow> appendEventTx sid ty payload i)"

definition appendEventIdempotent :: "string \<Rightarrow> string \<Rightarrow> obj \<Rightarrow> string \<Rightarrow> store \<Rightarrow> (exn + event_row) \<times> store" where
  "appendEventIdempotent sid ty payload eid s =
     (if eid = [] then (Inl (Store_error Conflict ''eventId is required for idempotent append''), s)
      else transaction (\<lambda>t.
        case find (\<lambda>e. ev_id e = eid) (events t) of
          Some row \<Rightarrow>
            if ev_stream row \<noteq> sid \<or> ev_type row \<noteq> ty
               \<or> json_text (JObj (ev_payload row)) \<noteq> json_text (JObj payload)
            then Inl (Store_error Conflict (''event identity already exists with different content: '' @ eid))
            else Inr (row, t)
        | None \<Rightarrow> appendEventTx sid ty payload eid t) s)"

section \<open>Reading\<close>

definition events_of :: "store \<Rightarrow> string \<Rightarrow> event_row list" where
  "events_of s sid = filter (\<lambda>e. ev_stream e = sid) (events s)"

text \<open>\<open>ORDER BY length(cursor),cursor\<close>.\<close>

definition event_less :: "event_row \<Rightarrow> event_row \<Rightarrow> bool" where
  "event_less a b \<longleftrightarrow> sql_cursor_gt (ev_cursor b) (ev_cursor a)"

definition select_events :: "store \<Rightarrow> string \<Rightarrow> string \<Rightarrow> string option \<Rightarrow> event_row list" where
  "select_events s sid lo hi =
     order_by event_less
       (filter (\<lambda>e. sql_cursor_gt (ev_cursor e) lo
                    \<and> (case hi of None \<Rightarrow> True | Some h \<Rightarrow> sql_cursor_le (ev_cursor e) h))
         (events_of s sid))"

text \<open>An empty \<open>through\<close> is falsy and means no upper bound.\<close>

definition listEvents :: "store \<Rightarrow> string \<Rightarrow> string \<Rightarrow> string option \<Rightarrow> exn + event_row list" where
  "listEvents s sid lo hi =
     (let hi' = (case hi of None \<Rightarrow> None | Some h \<Rightarrow> if h = [] then None else Some h) in
      case canonicalCursor lo of
        Inl e \<Rightarrow> Inl e
      | Inr _ \<Rightarrow>
          (case hi' of
             None \<Rightarrow> Inr (select_events s sid lo None)
           | Some h \<Rightarrow> (case canonicalCursor h of
                          Inl e \<Rightarrow> Inl e
                        | Inr _ \<Rightarrow> Inr (select_events s sid lo (Some h)))))"

record event_page =
  pg_items :: "event_row list"
  pg_revision :: string
  pg_next :: "string option"

definition MAX_EVENT_PAGE_SIZE :: int where
  "MAX_EVENT_PAGE_SIZE = 100"

definition pageEvents :: "string \<Rightarrow> int \<Rightarrow> string \<Rightarrow> string option \<Rightarrow> store \<Rightarrow> (exn + event_page) \<times> store" where
  "pageEvents sid psize lo hi s =
     (if psize < 1 \<or> psize > MAX_EVENT_PAGE_SIZE
      then (Inl (Store_error Conflict ''event page size must be an integer from 1 through 100''), s)
      else if \<not> decimal_cursor_pattern lo \<or> (case hi of None \<Rightarrow> False | Some h \<Rightarrow> \<not> decimal_cursor_pattern h)
      then (Inl (Store_error Conflict ''cursor is not canonical''), s)
      else transaction (\<lambda>t.
        case streamPosition t sid of
          None \<Rightarrow> Inl (Store_error Not_found ''stream not found'')
        | Some (current, _) \<Rightarrow>
            (let through = (case hi of None \<Rightarrow> current | Some h \<Rightarrow> h);
                 rows = take (nat psize + 1) (select_events t sid lo (Some through));
                 hasMore = nat psize < length rows;
                 items = take (nat psize) rows in
             Inr (\<lparr>pg_items = items, pg_revision = through,
                   pg_next = (if hasMore \<and> items \<noteq> [] then Some (ev_cursor (last items)) else None)\<rparr>, t))) s)"

definition latestEvent :: "store \<Rightarrow> string \<Rightarrow> event_row option" where
  "latestEvent s sid =
     (case order_by (\<lambda>a b. event_less b a) (events_of s sid) of [] \<Rightarrow> None | e # _ \<Rightarrow> Some e)"

definition pageSessionEvents :: "string \<Rightarrow> int \<Rightarrow> string option \<Rightarrow> store \<Rightarrow> (exn + event_page) \<times> store" where
  "pageSessionEvents sess psize before s =
     (if psize < 1 \<or> psize > 100
      then (Inl (Store_error Conflict ''page size must be an integer from 1 through 100''), s)
      else if (case before of None \<Rightarrow> False | Some b \<Rightarrow> \<not> decimal_cursor_pattern b)
      then (Inl (Store_error Conflict ''cursor is not canonical''), s)
      else transaction (\<lambda>t.
        if \<not> sessionExists t sess then Inl (Store_error Not_found ''session not found'')
        else let sid = session_stream sess in
        case streamPosition t sid of
          None \<Rightarrow> Inl (Store_error Not_found ''session stream not found'')
        | Some (current, _) \<Rightarrow>
            (let rows = take (nat psize + 1) (order_by (\<lambda>a b. event_less b a)
                   (filter (\<lambda>e. case before of None \<Rightarrow> True | Some b \<Rightarrow> sql_cursor_gt b (ev_cursor e))
                     (events_of t sid)));
                 hasMore = nat psize < length rows;
                 newestFirst = (if hasMore then take (nat psize) rows else rows);
                 items = rev newestFirst in
             Inr (\<lparr>pg_items = items, pg_revision = current,
                   pg_next = (if hasMore then Some (ev_cursor (hd items)) else None)\<rparr>, t))) s)"

record replay =
  rp_current :: string
  rp_floor :: string
  rp_events :: "event_row list"

definition readReplay_tx :: "string \<Rightarrow> string \<Rightarrow> replay tx" where
  "readReplay_tx sid lo s =
     (case streamPosition s sid of
        None \<Rightarrow> Inl (Store_error Not_found ''stream not found'')
      | Some (current, floor) \<Rightarrow>
          (case listEvents s sid lo (Some current) of
             Inl e \<Rightarrow> Inl e
           | Inr es \<Rightarrow> Inr (\<lparr>rp_current = current, rp_floor = floor, rp_events = es\<rparr>, s)))"

definition readReplay :: "string \<Rightarrow> string \<Rightarrow> store \<Rightarrow> (exn + replay) \<times> store" where
  "readReplay sid lo = transaction (readReplay_tx sid lo)"

record snapshot =
  sp_baseline :: string
  sp_current :: string
  sp_state :: obj
  sp_events :: "event_row list"

definition captureSnapshot_tx :: "string \<Rightarrow> snapshot tx" where
  "captureSnapshot_tx sid s =
     (case stream_row_of s sid of
        None \<Rightarrow> Inl (Store_error Not_found ''stream not found'')
      | Some st \<Rightarrow>
          (let state = (case st_session st of
                  Some i \<Rightarrow> if i = [] then [(''scope'', JStr ''host''), (''sessions'', JArr (map JObj (sessionStates s)))]
                           else (case sessionState s i of None \<Rightarrow> [] | Some x \<Rightarrow> x)
                | None \<Rightarrow> [(''scope'', JStr ''host''), (''sessions'', JArr (map JObj (sessionStates s)))]) in
           case listEvents s sid (st_current st) (Some (st_current st)) of
             Inl e \<Rightarrow> Inl e
           | Inr es \<Rightarrow> Inr (\<lparr>sp_baseline = st_current st, sp_current = st_current st,
                            sp_state = state, sp_events = es\<rparr>, s)))"

definition captureSnapshot :: "string \<Rightarrow> store \<Rightarrow> (exn + snapshot) \<times> store" where
  "captureSnapshot sid = transaction (captureSnapshot_tx sid)"

section \<open>Acknowledgement and retention\<close>

definition setRetentionFloor :: "string \<Rightarrow> string \<Rightarrow> store \<Rightarrow> (exn + unit) \<times> store" where
  "setRetentionFloor sid floor s =
     (if \<not> decimal_cursor_pattern floor then (Inl (Store_error Conflict ''cursor is not canonical''), s)
      else transaction (\<lambda>t. Inr ((), set_floor sid floor t)) s)"

definition ackedCursor :: "store \<Rightarrow> string \<Rightarrow> string \<Rightarrow> string option" where
  "ackedCursor s inst sid =
     map_option cc_cursor (find (\<lambda>c. cc_install c = inst \<and> cc_stream c = sid) (client_cursors s))"

definition ackCursor_tx :: "string \<Rightarrow> string \<Rightarrow> string \<Rightarrow> unit tx" where
  "ackCursor_tx inst sid cursor s =
     (if \<exists>c \<in> set (client_cursors s). cc_install c = inst \<and> cc_stream c = sid
      then Inr ((), s\<lparr>client_cursors :=
             map (\<lambda>c. if cc_install c = inst \<and> cc_stream c = sid
                       then c\<lparr>cc_cursor := cursor, cc_updated := clock s\<rparr> else c) (client_cursors s)\<rparr>)
      else if stream_row_of s sid = None
      then Inl (Sqlite_error ''FOREIGN KEY constraint failed'')
      else Inr ((), s\<lparr>client_cursors := client_cursors s @
             [\<lparr>cc_install = inst, cc_stream = sid, cc_cursor = cursor, cc_updated = clock s\<rparr>]\<rparr>))"

definition ackCursor :: "string \<Rightarrow> string \<Rightarrow> string \<Rightarrow> store \<Rightarrow> (exn + unit) \<times> store" where
  "ackCursor inst sid cursor s =
     (if \<not> decimal_cursor_pattern cursor then (Inl (Store_error Conflict ''cursor is not canonical''), s)
      else transaction (ackCursor_tx inst sid cursor) s)"

section \<open>Compaction\<close>

definition MAX_EVENT_COMPACTION_ROWS :: int where
  "MAX_EVENT_COMPACTION_ROWS = 1000"

definition MAX_EVENT_COMPACTION_BYTES :: int where
  "MAX_EVENT_COMPACTION_BYTES = 4 * 1024 * 1024"

text \<open>
  The cursors acknowledged on a stream by the installations whose credential is neither revoked
  nor expired; malformed cursors are skipped.
\<close>

definition valid_credential :: "int \<Rightarrow> credential_row \<Rightarrow> bool" where
  "valid_credential at c \<longleftrightarrow>
     cr_revoked c = None \<and> (case cr_expires c of None \<Rightarrow> True | Some x \<Rightarrow> at < x)"

definition acknowledgements :: "store \<Rightarrow> string \<Rightarrow> int \<Rightarrow> nat list" where
  "acknowledgements s sid at =
     List.map_filter (\<lambda>c. case canonicalCursor (cc_cursor c) of Inl _ \<Rightarrow> None | Inr n \<Rightarrow> Some n)
       (order_by (\<lambda>a b. str_less (cc_install a) (cc_install b))
         (filter (\<lambda>c. cc_stream c = sid
            \<and> (\<exists>k \<in> set (credentials s). cr_install k = cc_install c \<and> valid_credential at k))
           (client_cursors s)))"

text \<open>The longest prefix of the candidates whose bytes fit; its bytes.\<close>

fun take_bytes :: "nat \<Rightarrow> event_row list \<Rightarrow> event_row list" where
  "take_bytes budget [] = []"
| "take_bytes budget (e # es) =
     (if ev_bytes e > budget then [] else e # take_bytes (budget - ev_bytes e) es)"

record compaction =
  cp_rows :: nat
  cp_bytes :: nat
  cp_blocked :: "string list"

text \<open>One stream of the loop, with \<open>continue\<close> as returning the accumulator unchanged.\<close>

definition compact_stream :: "nat \<Rightarrow> nat \<Rightarrow> int \<Rightarrow> stream_row \<Rightarrow> compaction \<Rightarrow> compaction tx" where
  "compact_stream maxRows maxBytes at st acc s =
     (case canonicalCursor (st_current st) of
        Inl e \<Rightarrow> Inl e
      | Inr current \<Rightarrow>
     (case canonicalCursor (st_floor st) of
        Inl e \<Rightarrow> Inl e
      | Inr floor \<Rightarrow>
     (let sid = st_id st; acks = acknowledgements s sid at in
      if acks = [] then
        Inr (if events_of s sid \<noteq> [] then acc\<lparr>cp_blocked := cp_blocked acc @ [sid]\<rparr> else acc, s)
      else
        (let safe = fold (\<lambda>c m. if c < m then c else m) acks current;
             safe = (if safe > current then current else safe) in
         if safe \<le> floor then Inr (acc, s)
         else
           (let candidates = take (maxRows - cp_rows acc)
                  (select_events s sid (st_floor st) (Some (dec safe)));
                selected = take_bytes (maxBytes - cp_bytes acc) candidates in
            if selected = [] then Inr (acc, s)
            else
              (case canonicalCursor (ev_cursor (last selected)) of
                 Inl e \<Rightarrow> Inl e
               | Inr greatest \<Rightarrow>
                   (let newFloor = (let c = (if floor > greatest then floor else greatest)
                                    in if c > current then current else c) in
                    Inr (acc\<lparr>cp_rows := cp_rows acc + length selected,
                             cp_bytes := cp_bytes acc + sum_list (map ev_bytes selected)\<rparr>,
                         set_floor sid (dec newFloor)
                           (s\<lparr>events := filter (\<lambda>e. \<not> (ev_stream e = sid
                                \<and> sql_cursor_gt (ev_cursor e) (st_floor st)
                                \<and> sql_cursor_le (ev_cursor e) (dec greatest))) (events s)\<rparr>)))))))))"

fun compact_streams :: "nat \<Rightarrow> nat \<Rightarrow> int \<Rightarrow> stream_row list \<Rightarrow> compaction \<Rightarrow> compaction tx" where
  "compact_streams maxRows maxBytes at [] acc s = Inr (acc, s)"
| "compact_streams maxRows maxBytes at (st # sts) acc s =
     (if cp_rows acc \<ge> maxRows \<or> cp_bytes acc \<ge> maxBytes then Inr (acc, s)
      else case compact_stream maxRows maxBytes at st acc s of
             Inl e \<Rightarrow> Inl e
           | Inr (acc', s') \<Rightarrow> compact_streams maxRows maxBytes at sts acc' s')"

definition compactLegacyEvents :: "int option \<Rightarrow> int option \<Rightarrow> int option \<Rightarrow> store \<Rightarrow> (exn + compaction) \<times> store" where
  "compactLegacyEvents rows bytes now s =
     (let maxRows = (case rows of None \<Rightarrow> MAX_EVENT_COMPACTION_ROWS | Some r \<Rightarrow> r);
          maxBytes = (case bytes of None \<Rightarrow> MAX_EVENT_COMPACTION_BYTES | Some b \<Rightarrow> b);
          at = (case now of None \<Rightarrow> clock s | Some t \<Rightarrow> t) in
      if maxRows < 1 \<or> maxRows > MAX_EVENT_COMPACTION_ROWS
      then (Inl (Store_error Conflict ''event compaction rows must be an integer from 1 through 1000''), s)
      else if maxBytes < 1 \<or> maxBytes > MAX_EVENT_COMPACTION_BYTES
      then (Inl (Store_error Conflict ''event compaction bytes must be an integer from 1 through 4194304''), s)
      else transaction (\<lambda>t. compact_streams (nat maxRows) (nat maxBytes) at
             (order_by (\<lambda>a b. str_less (st_id a) (st_id b)) (streams t))
             \<lparr>cp_rows = 0, cp_bytes = 0, cp_blocked = []\<rparr> t) s)"

section \<open>The journal invariant\<close>

definition stream_ok :: "store \<Rightarrow> stream_row \<Rightarrow> bool" where
  "stream_ok s st \<longleftrightarrow>
     (\<exists>fl hi. st_floor st = dec fl \<and> st_current st = dec hi \<and> fl \<le> hi
        \<and> map ev_cursor (events_of s (st_id st)) = map dec [fl + 1..<hi + 1])"

definition journal_ok :: "store \<Rightarrow> bool" where
  "journal_ok s \<longleftrightarrow>
     distinct (map st_id (streams s)) \<and> distinct (map ev_id (events s))
     \<and> (\<forall>st \<in> set (streams s). stream_ok s st)
     \<and> (\<forall>e \<in> set (events s). \<exists>st \<in> set (streams s). st_id st = ev_stream e)"

text \<open>The identifiers still to be drawn are new and differ from each other.\<close>

definition fresh_ids :: "store \<Rightarrow> bool" where
  "fresh_ids s \<longleftrightarrow>
     (\<forall>m n. uuids s m = uuids s n \<longrightarrow> m = n)
     \<and> (\<forall>n \<ge> uuid_pos s. \<forall>e \<in> set (events s). ev_id e \<noteq> uuids s n)"

lemma stream_row_of_SomeD: "stream_row_of s i = Some st \<Longrightarrow> st \<in> set (streams s) \<and> st_id st = i"
  unfolding stream_row_of_def using find_SomeD [of "\<lambda>r. st_id r = i"] by blast

lemma stream_row_of_unique:
  "journal_ok s \<Longrightarrow> st \<in> set (streams s) \<Longrightarrow> stream_row_of s (st_id st) = Some st"
  by (simp add: journal_ok_def stream_row_of_def find_unique)

lemma journal_okD:
  assumes "journal_ok s" and "stream_row_of s i = Some st"
  obtains fl hi where "st_id st = i" "st_floor st = dec fl" "st_current st = dec hi" "fl \<le> hi"
    "map ev_cursor (events_of s i) = map dec [fl + 1..<hi + 1]"
proof -
  from stream_row_of_SomeD [OF assms(2)] have st: "st \<in> set (streams s)" "st_id st = i" by auto
  with assms(1) have "stream_ok s st" by (simp add: journal_ok_def)
  with st that show thesis unfolding stream_ok_def by blast
qed

lemma events_of_append [simp]:
  "events_of (s\<lparr>events := events s @ [e]\<rparr>) i = events_of s i @ (if ev_stream e = i then [e] else [])"
  by (simp add: events_of_def)

lemma set_current_sel [simp]:
  "events (set_current i c s) = events s" "notified (set_current i c s) = notified s"
  "uuids (set_current i c s) = uuids s" "uuid_pos (set_current i c s) = uuid_pos s"
  "clock (set_current i c s) = clock s" "sessions (set_current i c s) = sessions s"
  by (simp_all add: set_current_def)

lemma set_floor_sel [simp]:
  "events (set_floor i c s) = events s" "notified (set_floor i c s) = notified s"
  "uuids (set_floor i c s) = uuids s" "uuid_pos (set_floor i c s) = uuid_pos s"
  "client_cursors (set_floor i c s) = client_cursors s" "credentials (set_floor i c s) = credentials s"
  by (simp_all add: set_floor_def)

section \<open>Selecting a range\<close>

lemma filter_upt: "filter (\<lambda>n. a < n \<and> n \<le> b) [l..<h] = [max l (a + 1)..<min h (b + 1)]"
  by (induction h) (auto simp: max_def min_def not_less le_Suc_eq)

lemma filter_upt_gt: "filter (\<lambda>n. a < n) [l..<h] = [max l (a + 1)..<h]"
  by (induction h) (auto simp: max_def not_less le_Suc_eq)

lemma sorted_by_cursor:
  assumes "map ev_cursor xs = map dec [l..<h]"
  shows "order_by event_less (filter P xs) = filter P xs"
proof (rule order_by_id)
  have "sorted_wrt (\<lambda>x y. sql_cursor_gt y x) (map dec [l..<h])"
    by (simp add: sorted_wrt_map sorted_wrt_upt)
  then have "sorted_wrt (\<lambda>x y. event_less x y) xs"
    by (simp add: assms [symmetric] sorted_wrt_map event_less_def)
  then have "sorted_wrt (\<lambda>x y. event_less x y) (filter P xs)" by (rule sorted_wrt_filter)
  moreover have "event_less x y \<Longrightarrow> \<not> event_less y x" for x y
    unfolding event_less_def sql_cursor_gt_def using str_less_asym by auto
  ultimately show "sorted_wrt (\<lambda>x y. \<not> event_less y x) (filter P xs)"
    by (rule sorted_wrt_mono_rel [rotated]) simp
qed

text \<open>
  A bounded selection of a well-formed stream is the events numbered above the lower and up to
  the upper bound, in order, whatever the lengths of the cursor strings.
\<close>

lemma select_events_cursors:
  assumes "map ev_cursor (events_of s i) = map dec [l..<h]"
  shows "map ev_cursor (select_events s i (dec a) (Some (dec b)))
           = map dec [max l (a + 1)..<min h (b + 1)]"
    and "map ev_cursor (select_events s i (dec a) None) = map dec [max l (a + 1)..<h]"
proof -
  have "map ev_cursor (filter (\<lambda>e. sql_cursor_gt (ev_cursor e) (dec a) \<and> sql_cursor_le (ev_cursor e) (dec b))
          (events_of s i))
      = filter (\<lambda>c. sql_cursor_gt c (dec a) \<and> sql_cursor_le c (dec b)) (map dec [l..<h])"
    by (simp add: assms [symmetric] filter_map o_def)
  also have "\<dots> = map dec [max l (a + 1)..<min h (b + 1)]"
    by (simp add: filter_map o_def filter_upt)
  finally show "map ev_cursor (select_events s i (dec a) (Some (dec b)))
           = map dec [max l (a + 1)..<min h (b + 1)]"
    by (simp add: select_events_def sorted_by_cursor [OF assms])
  have "map ev_cursor (filter (\<lambda>e. sql_cursor_gt (ev_cursor e) (dec a)) (events_of s i))
      = filter (\<lambda>c. sql_cursor_gt c (dec a)) (map dec [l..<h])"
    by (simp add: assms [symmetric] filter_map o_def)
  also have "\<dots> = map dec [max l (a + 1)..<h]"
    by (simp add: filter_map o_def filter_upt_gt)
  finally show "map ev_cursor (select_events s i (dec a) None) = map dec [max l (a + 1)..<h]"
    by (simp add: select_events_def sorted_by_cursor [OF assms])
qed

lemma set_select_events: "set (select_events s i lo hi) \<subseteq> set (events_of s i)"
  by (auto simp: select_events_def)

section \<open>Appending preserves the journal\<close>

lemma no_cursor_clash:
  assumes "journal_ok s" and "stream_row_of s i = Some st" and "st_current st = dec n"
  shows "\<forall>e \<in> set (events s). \<not> (ev_stream e = i \<and> ev_cursor e = dec (n + 1))"
proof (intro ballI notI)
  fix e assume e: "e \<in> set (events s)" "ev_stream e = i \<and> ev_cursor e = dec (n + 1)"
  from journal_okD [OF assms(1,2)] obtain fl hi where
    "st_current st = dec hi" and c: "map ev_cursor (events_of s i) = map dec [fl + 1..<hi + 1]" by blast
  with assms(3) have "hi = n" by simp
  have "ev_cursor e \<in> set (map ev_cursor (events_of s i))" using e by (force simp: events_of_def)
  then show False unfolding c using e(2) \<open>hi = n\<close> by auto
qed

lemma appendEventTx_eq:
  assumes "journal_ok s" and "stream_row_of s i = Some st" and "st_current st = dec n"
    and "\<forall>e \<in> set (events s). ev_id e \<noteq> eid"
  shows "appendEventTx i ty p eid s =
     (let ev = new_event eid i (dec (n + 1)) ty p (clock s) in
      Inr (ev, (set_current i (dec (n + 1)) s)\<lparr>events := events s @ [ev], notified := notified s @ [ev]\<rparr>))"
  using assms no_cursor_clash [OF assms(1-3)] by (auto simp: appendEventTx_def Let_def)

lemma appendEventTx_InrD:
  assumes "appendEventTx i ty p eid s = Inr (ev, s')"
  obtains st n where "stream_row_of s i = Some st" "st_current st = dec n"
    "\<forall>e \<in> set (events s). ev_id e \<noteq> eid" "ev = new_event eid i (dec (n + 1)) ty p (clock s)"
    "s' = (set_current i (dec (n + 1)) s)\<lparr>events := events s @ [ev], notified := notified s @ [ev]\<rparr>"
proof -
  from assms obtain st where st: "stream_row_of s i = Some st"
    by (cases "stream_row_of s i") (simp_all add: appendEventTx_def)
  with assms obtain n where n: "canonicalCursor (st_current st) = Inr n"
    by (cases "canonicalCursor (st_current st)") (simp_all add: appendEventTx_def)
  then have c: "st_current st = dec n" by (simp add: canonicalCursor_Inr)
  from assms st n have f: "\<forall>e \<in> set (events s). ev_id e \<noteq> eid"
    by (auto simp: appendEventTx_def Let_def split: if_splits)
  from assms st n have
    "ev = new_event eid i (dec (n + 1)) ty p (clock s) \<and>
     s' = (set_current i (dec (n + 1)) s)\<lparr>events := events s @ [ev], notified := notified s @ [ev]\<rparr>"
    by (auto simp: appendEventTx_def Let_def split: if_splits)
  with st c f that show thesis by blast
qed

lemma new_event_sel [simp]:
  "ev_id (new_event a b c d e f) = a" "ev_stream (new_event a b c d e f) = b"
  "ev_cursor (new_event a b c d e f) = c" "ev_type (new_event a b c d e f) = d"
  "ev_payload (new_event a b c d e f) = e" "ev_created (new_event a b c d e f) = f"
  by (simp_all add: new_event_def)

lemma appendEventTx_journal_ok [inv_intros]:
  assumes "journal_ok s" and "appendEventTx i ty p eid s = Inr (ev, s')"
  shows "journal_ok s'"
proof -
  from assms(2) obtain st n where st: "stream_row_of s i = Some st" "st_current st = dec n"
    and f: "\<forall>e \<in> set (events s). ev_id e \<noteq> eid"
    and ev: "ev = new_event eid i (dec (n + 1)) ty p (clock s)"
    and s': "s' = (set_current i (dec (n + 1)) s)\<lparr>events := events s @ [ev], notified := notified s @ [ev]\<rparr>"
    by (rule appendEventTx_InrD)
  have streams': "streams s' = map (\<lambda>r. if st_id r = i then r\<lparr>st_current := dec (n + 1)\<rparr> else r) (streams s)"
    and events': "events s' = events s @ [ev]"
    by (simp_all add: s' set_current_def)
  have eo: "events_of s' j = events_of s j @ (if j = i then [ev] else [])" for j
    by (simp add: events_of_def events' ev)
  have "stream_ok s' r'" if "r' \<in> set (streams s')" for r'
  proof -
    from that streams' obtain r where r: "r \<in> set (streams s)"
      and r': "r' = (if st_id r = i then r\<lparr>st_current := dec (n + 1)\<rparr> else r)" by auto
    from assms(1) r have ok: "stream_ok s r" by (simp add: journal_ok_def)
    show ?thesis
    proof (cases "st_id r = i")
      case True
      with stream_row_of_unique [OF assms(1) r] st have "r = st" by simp
      with ok st(2) obtain fl where "st_floor r = dec fl" "fl \<le> n"
        "map ev_cursor (events_of s i) = map dec [fl + 1..<n + 1]"
        unfolding stream_ok_def using True by auto
      then show ?thesis using True r' by (auto simp: stream_ok_def eo ev)
    next
      case False
      with ok r' show ?thesis by (simp add: stream_ok_def eo)
    qed
  qed
  moreover have "map st_id (streams s') = map st_id (streams s)" by (simp add: streams')
  moreover have "distinct (map ev_id (events s'))" using assms(1) f
    by (auto simp: events' ev journal_ok_def)
  moreover have "\<exists>r \<in> set (streams s'). st_id r = ev_stream e" if "e \<in> set (events s')" for e
  proof -
    have "ev_stream e \<in> set (map st_id (streams s))"
      using that assms(1) stream_row_of_SomeD [OF st(1)] by (force simp: events' ev journal_ok_def)
    then show ?thesis using \<open>map st_id (streams s') = map st_id (streams s)\<close> by (metis in_set_conv_nth length_map nth_map nth_mem)
  qed
  ultimately show ?thesis using assms(1) unfolding journal_ok_def by simp
qed

end
