(* ===== verification/Journal.thy ===== *)
theory Journal
  imports Store_Events
begin

text \<open>
  What the journal of the store promises: appending, replaying and paging of a well-formed
  stream, and that compaction removes only acknowledged prefixes.
\<close>

section \<open>Compaction\<close>

lemma take_bytes_prefix: "\<exists>n. take_bytes b es = take n es \<and> n \<le> length es"
proof (induction es arbitrary: b)
  case Nil
  then show ?case by simp
next
  case (Cons e es)
  show ?case
  proof (cases "ev_bytes e > b")
    case True
    then show ?thesis by (auto intro: exI [of _ 0])
  next
    case False
    from Cons obtain n where "take_bytes (b - ev_bytes e) es = take n es" "n \<le> length es" by blast
    with False show ?thesis by (auto intro: exI [of _ "Suc n"])
  qed
qed

lemma take_bytes_sum: "sum_list (map ev_bytes (take_bytes b es)) \<le> b"
  by (induction b es rule: take_bytes.induct) auto

lemma fold_min_le: "fold (\<lambda>c m. if c < m then c else m) xs (m :: nat) \<le> m"
proof (induction xs arbitrary: m)
  case (Cons x xs)
  show ?case using Cons [of x] Cons [of m] by auto
qed simp

lemma fold_min_lower: "x \<in> set xs \<Longrightarrow> fold (\<lambda>c m. if c < m then c else m) xs (m :: nat) \<le> x"
proof (induction xs arbitrary: m)
  case (Cons y ys)
  then show ?case using fold_min_le [of ys y] fold_min_le [of ys m] by fastforce
qed simp

text \<open>
  One stream: nothing changes, or a non-empty prefix above the floor, within every valid
  acknowledgement and both budgets, is deleted and the floor moves to its end.
\<close>

definition drop_prefix :: "string \<Rightarrow> nat \<Rightarrow> nat \<Rightarrow> store \<Rightarrow> store" where
  "drop_prefix sid fl k s =
     set_floor sid (dec (fl + k))
       (s\<lparr>events := filter (\<lambda>e. \<not> (ev_stream e = sid \<and> sql_cursor_gt (ev_cursor e) (dec fl)
                                    \<and> sql_cursor_le (ev_cursor e) (dec (fl + k)))) (events s)\<rparr>)"

lemma compact_stream_cases:
  assumes ok: "journal_ok s" and row: "stream_row_of s sid = Some st"
    and r: "compact_stream maxRows maxBytes at st acc s = Inr (acc', s')"
  obtains (unchanged) "s' = s" "cp_rows acc' = cp_rows acc" "cp_bytes acc' = cp_bytes acc"
  | (deleted) fl k cur where "s' = drop_prefix sid fl k s" "0 < k" "fl + k \<le> cur"
      "st_floor st = dec fl" "st_current st = dec cur"
      "\<forall>a \<in> set (acknowledgements s sid at). fl + k \<le> a" "acknowledgements s sid at \<noteq> []"
      "cp_rows acc' = cp_rows acc + k" "k \<le> maxRows - cp_rows acc"
      "cp_bytes acc' \<le> cp_bytes acc + (maxBytes - cp_bytes acc)"
proof -
  obtain fl cur where id: "st_id st = sid" and fl: "st_floor st = dec fl" and cur: "st_current st = dec cur"
    and le: "fl \<le> cur" and evs: "map ev_cursor (events_of s sid) = map dec [fl + 1..<cur + 1]"
    using journal_okD [OF ok row] by blast
  define acks where "acks = acknowledgements s sid at"
  define safe where "safe = fold (\<lambda>c m. if c < m then c else m) acks cur"
  have safe_le: "safe \<le> cur" by (simp add: safe_def fold_min_le)
  then have nsafe: "\<not> cur < safe" by simp
  show thesis
  proof (cases "acks = [] \<or> safe \<le> fl")
    case True
    with r show thesis
      by (intro unchanged) (auto simp: compact_stream_def fl cur id Let_def acks_def [symmetric]
          safe_def [symmetric] nsafe split: if_splits)
  next
    case False
    define candidates where
      "candidates = take (maxRows - cp_rows acc) (select_events s sid (dec fl) (Some (dec safe)))"
    define selected where "selected = take_bytes (maxBytes - cp_bytes acc) candidates"
    show thesis
    proof (cases "selected = []")
      case True
      with False r show thesis
        by (intro unchanged) (auto simp: compact_stream_def fl cur id Let_def acks_def [symmetric]
          safe_def [symmetric] nsafe candidates_def [symmetric]
          selected_def [symmetric] split: if_splits)
    next
      case ne: False
      have cc: "map ev_cursor candidates = take (maxRows - cp_rows acc) (map dec [fl + 1..<safe + 1])"
        using select_events_cursors(1) [OF evs, of fl safe] safe_le
        by (simp add: candidates_def take_map [symmetric] min_def)
      obtain k where k: "selected = take k candidates" "k \<le> length candidates"
        using take_bytes_prefix unfolding selected_def by blast
      have len: "length candidates = min (maxRows - cp_rows acc) (safe - fl)"
        using arg_cong [OF cc, of length] by (simp add: min.commute del: upt_Suc)
      have lk: "length selected = k" using k by simp
      with ne have k0: "0 < k" by auto
      have kb: "k \<le> maxRows - cp_rows acc" "fl + k \<le> safe" using k(2) len k0 by auto
      have "ev_cursor (last selected) = last (map ev_cursor selected)" using ne by (simp add: last_map)
      also have "map ev_cursor selected = take k (map dec [fl + 1..<safe + 1])"
        using k(1) cc kb(1) by (simp add: take_map [symmetric])
      also have "last \<dots> = dec (fl + k)"
        using k0 kb(2) by (subst last_conv_nth) (auto simp: nth_append)
      finally have g: "ev_cursor (last selected) = dec (fl + k)" .
      have cur': "\<not> fl + k > cur" "\<not> fl > fl + k" using kb safe_le by auto
      from r False ne have "acc' = acc\<lparr>cp_rows := cp_rows acc + length selected,
                             cp_bytes := cp_bytes acc + sum_list (map ev_bytes selected)\<rparr> \<and>
          s' = drop_prefix sid fl k s"
        by (auto simp: compact_stream_def fl cur id Let_def acks_def [symmetric] safe_def [symmetric]
            nsafe candidates_def [symmetric] selected_def [symmetric] g cur'
            drop_prefix_def split: if_splits)
      moreover have "\<forall>a \<in> set acks. fl + k \<le> a"
        using kb(2) fold_min_lower [of _ acks cur] by (auto simp: safe_def intro: order_trans)
      moreover have "sum_list (map ev_bytes selected) \<le> maxBytes - cp_bytes acc"
        by (simp add: selected_def take_bytes_sum)
      ultimately show thesis
        using deleted [of fl k cur] False k0 kb safe_le fl cur lk by (auto simp: acks_def)
    qed
  qed
qed

lemma compact_stream_total:
  assumes ok: "journal_ok s" and row: "stream_row_of s sid = Some st"
  shows "\<exists>acc' s'. compact_stream maxRows maxBytes at st acc s = Inr (acc', s')"
proof -
  obtain fl cur where id: "st_id st = sid" and fl: "st_floor st = dec fl" and cur: "st_current st = dec cur"
    and evs: "map ev_cursor (events_of s sid) = map dec [fl + 1..<cur + 1]"
    using journal_okD [OF ok row] by blast
  have "\<exists>g. canonicalCursor (ev_cursor e) = Inr g" if "e \<in> set (events_of s sid)" for e
  proof -
    from that have "ev_cursor e \<in> set (map ev_cursor (events_of s sid))" by simp
    then show ?thesis unfolding evs by auto
  qed
  moreover have "last (take_bytes b (take n (select_events s sid lo hi))) \<in> set (events_of s sid)"
    if "take_bytes b (take n (select_events s sid lo hi)) \<noteq> []" for b n lo hi
    using that take_bytes_prefix [of b "take n (select_events s sid lo hi)"] set_select_events
    by (metis in_set_takeD last_in_set subsetD)
  ultimately have g: "\<exists>g. canonicalCursor (ev_cursor (last (take_bytes b (take n (select_events s sid lo hi))))) = Inr g"
    if "take_bytes b (take n (select_events s sid lo hi)) \<noteq> []" for b n lo hi
    using that by blast
  define acks where "acks = acknowledgements s sid at"
  define safe where "safe = fold (\<lambda>c m. if c < m then c else m) acks cur"
  have nsafe: "\<not> cur < safe" by (simp add: safe_def fold_min_le not_less)
  define sel where "sel = take_bytes (maxBytes - cp_bytes acc)
      (take (maxRows - cp_rows acc) (select_events s sid (dec fl) (Some (dec safe))))"
  show ?thesis
  proof (cases "acks = [] \<or> safe \<le> fl \<or> sel = []")
    case True
    then show ?thesis
      by (auto simp: compact_stream_def fl cur id Let_def acks_def [symmetric] safe_def [symmetric]
          nsafe sel_def [symmetric])
  next
    case False
    then obtain h where "canonicalCursor (ev_cursor (last sel)) = Inr h" using g unfolding sel_def by blast
    with False show ?thesis
      by (simp add: compact_stream_def fl cur id Let_def acks_def [symmetric] safe_def [symmetric]
          nsafe sel_def [symmetric])
  qed
qed

lemma drop_prefix_events_of:
  "events_of (drop_prefix sid fl k s) j =
     (if j = sid then filter (\<lambda>e. \<not> (sql_cursor_gt (ev_cursor e) (dec fl)
                                    \<and> sql_cursor_le (ev_cursor e) (dec (fl + k)))) (events_of s sid)
      else events_of s j)"
  by (auto simp: events_of_def drop_prefix_def intro!: filter_cong)

lemma drop_prefix_streams:
  "streams (drop_prefix sid fl k s) =
     map (\<lambda>r. if st_id r = sid then r\<lparr>st_floor := dec (fl + k)\<rparr> else r) (streams s)"
  by (simp add: drop_prefix_def set_floor_def)

lemma filter_upt_not: "filter (\<lambda>n. \<not> (a < n \<and> n \<le> a + k)) [a + 1..<h] = [a + k + 1..<h]"
  by (induction h) (auto simp: not_less le_Suc_eq)

lemma drop_prefix_journal_ok:
  assumes ok: "journal_ok s" and row: "stream_row_of s sid = Some st"
    and fl: "st_floor st = dec fl" and cur: "st_current st = dec cur" and le: "fl + k \<le> cur"
  shows "journal_ok (drop_prefix sid fl k s)"
proof -
  let ?t = "drop_prefix sid fl k s"
  have evs: "map ev_cursor (events_of s sid) = map dec [fl + 1..<cur + 1]"
    using journal_okD [OF ok row] fl cur by (metis dec_inject)
  have ids: "map st_id (streams ?t) = map st_id (streams s)" by (simp add: drop_prefix_streams)
  have sub: "set (events ?t) \<subseteq> set (events s)" by (auto simp: drop_prefix_def)
  have "stream_ok ?t r'" if "r' \<in> set (streams ?t)" for r'
  proof -
    from that obtain r where r: "r \<in> set (streams s)"
      and r': "r' = (if st_id r = sid then r\<lparr>st_floor := dec (fl + k)\<rparr> else r)"
      by (auto simp: drop_prefix_streams)
    show ?thesis
    proof (cases "st_id r = sid")
      case True
      with stream_row_of_unique [OF ok r] row have "r = st" by simp
      moreover have "map ev_cursor (events_of ?t sid) = map dec [fl + k + 1..<cur + 1]"
      proof -
        have "map ev_cursor (events_of ?t sid) =
            filter (\<lambda>c. \<not> (sql_cursor_gt c (dec fl) \<and> sql_cursor_le c (dec (fl + k))))
              (map ev_cursor (events_of s sid))"
          by (simp add: drop_prefix_events_of filter_map o_def)
        also have "\<dots> = map dec (filter (\<lambda>n. \<not> (fl < n \<and> n \<le> fl + k)) [fl + 1..<cur + 1])"
          by (simp add: evs filter_map o_def del: de_Morgan_conj upt_Suc)
        finally show ?thesis using filter_upt_not [of fl k "cur + 1"] by simp
      qed
      ultimately show ?thesis using True r' cur le by (auto simp: stream_ok_def)
    next
      case False
      with r r' ok show ?thesis
        by (auto simp: stream_ok_def drop_prefix_events_of journal_ok_def)
    qed
  qed
  moreover have "distinct (map ev_id (events ?t))"
    using ok by (simp add: drop_prefix_def journal_ok_def distinct_map_filter_sub)
  moreover have "\<exists>r \<in> set (streams ?t). st_id r = ev_stream e" if "e \<in> set (events ?t)" for e
  proof -
    have "ev_stream e \<in> set (map st_id (streams ?t))" unfolding ids
      using that sub ok by (force simp: journal_ok_def)
    then show ?thesis by auto
  qed
  ultimately show ?thesis using ok ids unfolding journal_ok_def by metis
qed

lemma acknowledgements_cong:
  "client_cursors s = client_cursors t \<Longrightarrow> credentials s = credentials t \<Longrightarrow>
   acknowledgements s = acknowledgements t"
  by (simp add: acknowledgements_def fun_eq_iff)

lemma acknowledgements_drop_prefix [simp]:
  "acknowledgements (drop_prefix sid fl k s) = acknowledgements s"
  by (rule acknowledgements_cong) (simp_all add: drop_prefix_def)

lemma stream_row_of_drop_prefix_other:
  "j \<noteq> sid \<Longrightarrow> stream_row_of (drop_prefix sid fl k s) j = stream_row_of s j"
  unfolding stream_row_of_def drop_prefix_streams by (rule find_map_other) auto

text \<open>What one pass of the loop does to the store: events go, only acknowledged ones.\<close>

definition acked_event :: "store \<Rightarrow> int \<Rightarrow> event_row \<Rightarrow> bool" where
  "acked_event s at e \<longleftrightarrow>
     acknowledgements s (ev_stream e) at \<noteq> []
     \<and> (\<forall>a \<in> set (acknowledgements s (ev_stream e) at). big_int (ev_cursor e) \<le> a)"

lemma drop_prefix_removed:
  assumes ok: "journal_ok s" and row: "stream_row_of s sid = Some st"
    and a: "\<forall>a \<in> set (acknowledgements s sid at). fl + k \<le> a" "acknowledgements s sid at \<noteq> []"
    and e: "e \<in> set (events s)" "e \<notin> set (events (drop_prefix sid fl k s))"
  shows "acked_event s at e"
proof -
  from e have st: "ev_stream e = sid" and le: "sql_cursor_le (ev_cursor e) (dec (fl + k))"
    by (auto simp: drop_prefix_def)
  obtain fl' hi where "map ev_cursor (events_of s sid) = map dec [fl' + 1..<hi + 1]"
    using journal_okD [OF ok row] by blast
  moreover have "ev_cursor e \<in> set (map ev_cursor (events_of s sid))"
    using e(1) st by (force simp: events_of_def)
  ultimately obtain n where "ev_cursor e = dec n" by auto
  with le a st show ?thesis by (force simp: acked_event_def)
qed

lemma drop_prefix_length:
  assumes ok: "journal_ok s" and row: "stream_row_of s sid = Some st"
    and fl: "st_floor st = dec fl" and cur: "st_current st = dec cur" and le: "fl + k \<le> cur"
  shows "length (events (drop_prefix sid fl k s)) + k = length (events s)"
proof -
  let ?P = "\<lambda>e. ev_stream e = sid \<and> sql_cursor_gt (ev_cursor e) (dec fl) \<and> sql_cursor_le (ev_cursor e) (dec (fl + k))"
  have evs: "map ev_cursor (events_of s sid) = map dec [fl + 1..<cur + 1]"
    using journal_okD [OF ok row] fl cur by (metis dec_inject)
  have "filter ?P (events s) = filter (\<lambda>e. sql_cursor_gt (ev_cursor e) (dec fl) \<and> sql_cursor_le (ev_cursor e) (dec (fl + k))) (events_of s sid)"
    by (simp add: events_of_def conj_commute cong: conj_cong)
  also have "length \<dots> = length (filter (\<lambda>c. sql_cursor_gt c (dec fl) \<and> sql_cursor_le c (dec (fl + k))) (map ev_cursor (events_of s sid)))"
    by (simp add: filter_map o_def)
  also have "\<dots> = length (filter (\<lambda>n. fl < n \<and> n \<le> fl + k) [fl + 1..<cur + 1])"
    by (simp add: evs filter_map o_def del: upt_Suc)
  also have "\<dots> = k" using le by (simp add: filter_upt del: upt_Suc)
  finally have "length (filter ?P (events s)) = k" .
  then show ?thesis
    using sum_length_filter_compl [of ?P "events s"] by (simp add: drop_prefix_def)
qed

lemma compact_streams_invariant:
  assumes "compact_streams maxRows maxBytes at sts acc s = Inr (acc', s')"
    and "journal_ok s" and "distinct (map st_id sts)"
    and "\<forall>st \<in> set sts. stream_row_of s (st_id st) = Some st"
    and "cp_rows acc \<le> maxRows" and "cp_bytes acc \<le> maxBytes"
  shows "journal_ok s' \<and> set (events s') \<subseteq> set (events s)
     \<and> (\<forall>e \<in> set (events s) - set (events s'). acked_event s at e)
     \<and> length (events s') + cp_rows acc' = length (events s) + cp_rows acc
     \<and> cp_rows acc' \<le> maxRows \<and> cp_bytes acc' \<le> maxBytes
     \<and> map (\<lambda>r. (st_id r, st_current r)) (streams s') = map (\<lambda>r. (st_id r, st_current r)) (streams s)"
  using assms
proof (induction sts arbitrary: acc s)
  case Nil
  then show ?case by simp
next
  case (Cons st sts)
  show ?case
  proof (cases "cp_rows acc \<ge> maxRows \<or> cp_bytes acc \<ge> maxBytes")
    case True
    with Cons.prems show ?thesis by auto
  next
    case False
    then obtain acc1 s1 where step: "compact_stream maxRows maxBytes at st acc s = Inr (acc1, s1)"
      and rest: "compact_streams maxRows maxBytes at sts acc1 s1 = Inr (acc', s')"
      using Cons.prems(1) by (auto split: sum.splits)
    have row: "stream_row_of s (st_id st) = Some st" using Cons.prems(4) by simp
    from Cons.prems(2) row step show ?thesis
    proof (cases rule: compact_stream_cases)
      case unchanged
      with Cons.IH [OF rest] Cons.prems show ?thesis by simp
    next
      case (deleted fl k cur)
      have ok1: "journal_ok s1"
        unfolding deleted(1) by (rule drop_prefix_journal_ok [OF Cons.prems(2) row deleted(4,5,3)])
      have rows1: "\<forall>r \<in> set sts. stream_row_of s1 (st_id r) = Some r"
        using Cons.prems(3,4) stream_row_of_drop_prefix_other by (auto simp: deleted(1) image_iff)
      have IH: "journal_ok s' \<and> set (events s') \<subseteq> set (events s1)
         \<and> (\<forall>e \<in> set (events s1) - set (events s'). acked_event s1 at e)
         \<and> length (events s') + cp_rows acc' = length (events s1) + cp_rows acc1
         \<and> cp_rows acc' \<le> maxRows \<and> cp_bytes acc' \<le> maxBytes
         \<and> map (\<lambda>r. (st_id r, st_current r)) (streams s') = map (\<lambda>r. (st_id r, st_current r)) (streams s1)"
        using Cons.IH [OF rest ok1 _ rows1] Cons.prems(3,5,6) deleted(8-10) by simp
      have sub: "set (events s1) \<subseteq> set (events s)" by (auto simp: deleted(1) drop_prefix_def)
      have gone: "acked_event s at e" if "e \<in> set (events s)" "e \<notin> set (events s1)" for e
        using drop_prefix_removed [OF Cons.prems(2) row deleted(6,7)] that by (simp add: deleted(1))
      have same: "acked_event s1 at e = acked_event s at e" for e
        by (simp add: acked_event_def deleted(1))
      have len: "length (events s1) + k = length (events s)"
        unfolding deleted(1) by (rule drop_prefix_length [OF Cons.prems(2) row deleted(4,5,3)])
      have cur: "map (\<lambda>r. (st_id r, st_current r)) (streams s1) = map (\<lambda>r. (st_id r, st_current r)) (streams s)"
        by (simp add: deleted(1) drop_prefix_streams)
      have "acked_event s at e" if "e \<in> set (events s) - set (events s')" for e
        using that IH gone same by (cases "e \<in> set (events s1)") auto
      then show ?thesis using IH sub len cur deleted(8) by auto
    qed
  qed
qed

lemma compact_streams_total:
  assumes "journal_ok s" and "distinct (map st_id sts)"
    and "\<forall>st \<in> set sts. stream_row_of s (st_id st) = Some st"
  shows "\<exists>acc' s'. compact_streams maxRows maxBytes at sts acc s = Inr (acc', s')"
  using assms
proof (induction sts arbitrary: acc s)
  case Nil
  then show ?case by simp
next
  case (Cons st sts)
  have row: "stream_row_of s (st_id st) = Some st" using Cons.prems(3) by simp
  obtain acc1 s1 where step: "compact_stream maxRows maxBytes at st acc s = Inr (acc1, s1)"
    using compact_stream_total [OF Cons.prems(1) row] by blast
  from Cons.prems(1) row step have "journal_ok s1 \<and> (\<forall>r \<in> set sts. stream_row_of s1 (st_id r) = Some r)"
  proof (cases rule: compact_stream_cases)
    case unchanged
    with Cons.prems show ?thesis by simp
  next
    case (deleted fl k cur)
    then show ?thesis
      using Cons.prems drop_prefix_journal_ok [OF Cons.prems(1) row deleted(4,5,3)]
        stream_row_of_drop_prefix_other by (auto simp: image_iff)
  qed
  with Cons.IH [of s1] Cons.prems(2) step show ?case by auto
qed

text \<open>
  C4 (compaction_safe). Compaction within its limits succeeds. It removes events only, never
  more than the row budget or 1000, counts them exactly, removes an event only when at least one valid client
  acknowledged its stream and every valid acknowledgement covers the event, and leaves the journal
  well-formed with every stream's current cursor as it was.
\<close>

theorem compaction_safe:
  assumes "journal_ok s" and "ready s" and "1 \<le> rows" "rows \<le> 1000" and "1 \<le> bytes" "bytes \<le> 4194304"
  shows "\<exists>c s'. compactLegacyEvents (Some rows) (Some bytes) (Some at) s = (Inr c, s')
     \<and> journal_ok s' \<and> set (events s') \<subseteq> set (events s)
     \<and> (\<forall>e \<in> set (events s) - set (events s'). acked_event s at e)
     \<and> length (events s') + cp_rows c = length (events s)
     \<and> int (cp_rows c) \<le> rows \<and> int (cp_bytes c) \<le> bytes
     \<and> map (\<lambda>r. (st_id r, st_current r)) (streams s') = map (\<lambda>r. (st_id r, st_current r)) (streams s)"
proof -
  let ?sts = "order_by (\<lambda>a b. str_less (st_id a) (st_id b)) (streams s)"
  let ?z = "\<lparr>cp_rows = 0, cp_bytes = 0, cp_blocked = []\<rparr>"
  have d: "distinct (map st_id ?sts)"
    using assms(1) by (simp add: journal_ok_def distinct_map)
  have rows: "\<forall>st \<in> set ?sts. stream_row_of s (st_id st) = Some st"
    using stream_row_of_unique [OF assms(1)] by simp
  obtain c s' where c: "compact_streams (nat rows) (nat bytes) at ?sts ?z s = Inr (c, s')"
    using compact_streams_total [OF assms(1) d rows] by blast
  have run: "compactLegacyEvents (Some rows) (Some bytes) (Some at) s = (Inr c, s')"
    using assms c by (simp add: compactLegacyEvents_def MAX_EVENT_COMPACTION_ROWS_def
        MAX_EVENT_COMPACTION_BYTES_def transaction_Inr)
  from compact_streams_invariant [OF c assms(1) d rows] assms(3,5)
  have "journal_ok s' \<and> set (events s') \<subseteq> set (events s)
     \<and> (\<forall>e \<in> set (events s) - set (events s'). acked_event s at e)
     \<and> length (events s') + cp_rows c = length (events s)
     \<and> cp_rows c \<le> nat rows \<and> cp_bytes c \<le> nat bytes
     \<and> map (\<lambda>r. (st_id r, st_current r)) (streams s') = map (\<lambda>r. (st_id r, st_current r)) (streams s)"
    by simp
  with run assms(3,5) show ?thesis by (intro exI [of _ c] exI [of _ s']) auto
qed

section \<open>Appending\<close>

lemma fresh_idsD: "fresh_ids s \<Longrightarrow> e \<in> set (events s) \<Longrightarrow> ev_id e \<noteq> uuids s (uuid_pos s)"
  by (simp add: fresh_ids_def)

lemma fresh_ids_step:
  assumes "fresh_ids s" and "events t = events s @ [e]" and "ev_id e = uuids s (uuid_pos s)"
    and "uuids t = uuids s" and "uuid_pos t = Suc (uuid_pos s)"
  shows "fresh_ids t"
  using assms by (auto simp: fresh_ids_def) (metis Suc_n_not_le_n)

lemma append_fresh_eq:
  assumes "journal_ok s" and "fresh_ids s" and "stream_row_of s i = Some st" and "st_current st = dec n"
  shows "append_fresh i ty p s =
     (let ev = new_event (uuids s (uuid_pos s)) i (dec (n + 1)) ty p (clock s) in
      Inr (ev, (set_current i (dec (n + 1)) s)
        \<lparr>uuid_pos := Suc (uuid_pos s), events := events s @ [ev], notified := notified s @ [ev]\<rparr>))"
proof -
  let ?t = "s\<lparr>uuid_pos := Suc (uuid_pos s)\<rparr>"
  have ok: "journal_ok ?t" using assms(1) by (simp add: journal_ok_def stream_ok_def events_of_def)
  have row: "stream_row_of ?t i = Some st" using assms(3) by (simp add: stream_row_of_def)
  have "append_fresh i ty p s = appendEventTx i ty p (uuids s (uuid_pos s)) ?t"
    by (simp add: append_fresh_def uuid_apply)
  also have "\<dots> = (let ev = new_event (uuids s (uuid_pos s)) i (dec (n + 1)) ty p (clock ?t) in
      Inr (ev, (set_current i (dec (n + 1)) ?t)\<lparr>events := events ?t @ [ev], notified := notified ?t @ [ev]\<rparr>))"
    using fresh_idsD [OF assms(2)] by (intro appendEventTx_eq [OF ok row assms(4)]) simp
  finally show ?thesis by (simp add: Let_def set_current_def)
qed

lemma journal_ok_uuid [simp]: "journal_ok (s\<lparr>uuid_pos := n\<rparr>) = journal_ok s"
  by (simp add: journal_ok_def stream_ok_def events_of_def)

lemma append_fresh_journal_ok [inv_intros]:
  "journal_ok s \<Longrightarrow> append_fresh i ty p s = Inr (ev, s') \<Longrightarrow> journal_ok s'"
  by (simp add: append_fresh_def uuid_apply) (erule appendEventTx_journal_ok [rotated], simp)

text \<open>The facts an appended event brings, in one place for the operations that append several.\<close>

lemma append_fresh_facts:
  assumes "journal_ok s" and "fresh_ids s" and "stream_row_of s i = Some st" and "st_current st = dec n"
  obtains ev s' where "append_fresh i ty p s = Inr (ev, s')" "ev_cursor ev = dec (n + 1)"
    "ev_stream ev = i" "ev_type ev = ty" "ev_payload ev = p"
    "s' = (set_current i (dec (n + 1)) s)
        \<lparr>uuid_pos := Suc (uuid_pos s), events := events s @ [ev], notified := notified s @ [ev]\<rparr>"
    "journal_ok s'" "fresh_ids s'" "events_of s' i = events_of s i @ [ev]"
    "\<And>j. j \<noteq> i \<Longrightarrow> events_of s' j = events_of s j" "notified s' = notified s @ [ev]"
proof -
  let ?ev = "new_event (uuids s (uuid_pos s)) i (dec (n + 1)) ty p (clock s)"
  let ?s' = "(set_current i (dec (n + 1)) s)
        \<lparr>uuid_pos := Suc (uuid_pos s), events := events s @ [?ev], notified := notified s @ [?ev]\<rparr>"
  have eq: "append_fresh i ty p s = Inr (?ev, ?s')"
    using append_fresh_eq [OF assms] by (simp add: Let_def)
  moreover have "journal_ok ?s'" by (rule append_fresh_journal_ok [OF assms(1) eq])
  moreover have "fresh_ids ?s'" by (rule fresh_ids_step [OF assms(2), of _ ?ev]) simp_all
  ultimately show thesis by (intro that [of ?ev ?s']) (simp_all add: events_of_def)
qed

text \<open>
  C1 (journal_append). Appending to a stream of a well-formed journal succeeds, gives the event
  the cursor after the stream's current one, adds it at the end of that stream and to no other,
  hands exactly that event to the commit listeners, and keeps the journal well-formed.
\<close>

theorem journal_append:
  assumes "journal_ok s" and "fresh_ids s" and "ready s"
    and "streamPosition s sid = Some (dec cur, fl)"
  shows "\<exists>ev s'. appendEvent sid ty p None s = (Inr ev, s')
     \<and> ev_cursor ev = dec (cur + 1) \<and> ev_type ev = ty \<and> ev_payload ev = p
     \<and> events_of s' sid = events_of s sid @ [ev]
     \<and> (\<forall>j. j \<noteq> sid \<longrightarrow> events_of s' j = events_of s j)
     \<and> notified s' = notified s @ [ev]
     \<and> streamPosition s' sid = Some (dec (cur + 1), fl)
     \<and> journal_ok s' \<and> fresh_ids s'"
proof -
  from assms(4) obtain st where st: "stream_row_of s sid = Some st" "st_current st = dec cur" "st_floor st = fl"
    by (auto simp: streamPosition_def)
  from append_fresh_facts [OF assms(1,2) st(1,2)] obtain ev s' where
    f: "append_fresh sid ty p s = Inr (ev, s')" "ev_cursor ev = dec (cur + 1)" "ev_type ev = ty" "ev_payload ev = p"
      "s' = (set_current sid (dec (cur + 1)) s)
        \<lparr>uuid_pos := Suc (uuid_pos s), events := events s @ [ev], notified := notified s @ [ev]\<rparr>"
      "journal_ok s'" "fresh_ids s'" "events_of s' sid = events_of s sid @ [ev]"
      "\<And>j. j \<noteq> sid \<Longrightarrow> events_of s' j = events_of s j" "notified s' = notified s @ [ev]"
    by blast
  have "streamPosition s' sid = Some (dec (cur + 1), fl)"
    using st f(5) stream_row_of_SomeD [OF st(1)]
    by (auto simp: streamPosition_def stream_row_of_def set_current_def find_map_key)
  with f assms(3) show ?thesis by (auto simp: appendEvent_def transaction_Inr)
qed

section \<open>Replay\<close>

lemma listEvents_eq:
  "listEvents s sid (dec a) (Some (dec b)) = Inr (select_events s sid (dec a) (Some (dec b)))"
  by (simp add: listEvents_def)

text \<open>
  C2 (replay_exact). A replay after cursor \<open>a\<close> returns, in order and without a hole, exactly the
  retained events numbered from \<open>max floor a + 1\<close> to the current cursor, and changes nothing.
\<close>

theorem replay_exact:
  assumes "journal_ok s" and "ready s" and "streamPosition s sid = Some (dec cur, dec fl)"
  shows "\<exists>r. readReplay sid (dec a) s = (Inr r, s) \<and> rp_current r = dec cur \<and> rp_floor r = dec fl
     \<and> map ev_cursor (rp_events r) = map dec [max fl a + 1..<cur + 1]
     \<and> set (rp_events r) \<subseteq> set (events_of s sid)"
proof -
  from assms(3) obtain st where st: "stream_row_of s sid = Some st" "st_current st = dec cur" "st_floor st = dec fl"
    by (auto simp: streamPosition_def)
  then have "map ev_cursor (events_of s sid) = map dec [fl + 1..<cur + 1]"
    using journal_okD [OF assms(1) st(1)] by (metis dec_inject)
  from select_events_cursors(1) [OF this, of a cur]
  have "map ev_cursor (select_events s sid (dec a) (Some (dec cur))) = map dec [max fl a + 1..<cur + 1]"
    by (simp add: max_def del: upt_Suc)
  then show ?thesis
    using assms(2,3) set_select_events
    by (auto simp: readReplay_def readReplay_tx_def listEvents_eq transaction_Inr_iff simp del: upt_Suc)
qed

text \<open>A small concrete journal, used where a hypothesis has to be shown satisfiable.\<close>

definition demo_store :: store where
  "demo_store = (empty_store demo_uuids 1000)
     \<lparr>ident := Some (''h'', ''1''),
      sessions := [\<lparr>sn_id = ''a'', sn_state = [], sn_created = 1, sn_updated = 1\<rparr>],
      streams :=
        [\<lparr>st_id = ''host:h'', st_scope = Host_scope, st_session = None, st_current = ''2'', st_floor = ''0''\<rparr>,
         \<lparr>st_id = ''session:a'', st_scope = Session_scope, st_session = Some ''a'', st_current = ''0'', st_floor = ''0''\<rparr>],
      events :=
        [new_event ''e1'' ''host:h'' ''1'' ''t'' [] 5, new_event ''e2'' ''host:h'' ''2'' ''t'' [] 6]\<rparr>"

lemma dec_digits_simps [simp]:
  "dec 0 = ''0''" "dec 1 = ''1''" "dec 2 = ''2''" "dec 3 = ''3''" "dec (Suc 0) = ''1''"
  "dec (Suc (Suc 0)) = ''2''"
  by code_simp+

lemma demo_store_sel [simp]:
  "streams demo_store =
     [\<lparr>st_id = ''host:h'', st_scope = Host_scope, st_session = None, st_current = ''2'', st_floor = ''0''\<rparr>,
      \<lparr>st_id = ''session:a'', st_scope = Session_scope, st_session = Some ''a'', st_current = ''0'', st_floor = ''0''\<rparr>]"
  "events demo_store =
     [new_event ''e1'' ''host:h'' ''1'' ''t'' [] 5, new_event ''e2'' ''host:h'' ''2'' ''t'' [] 6]"
  "uuids demo_store = demo_uuids" "uuid_pos demo_store = 0" "ready demo_store"
  "client_cursors demo_store = []" "credentials demo_store = []"
  "sessions demo_store = [\<lparr>sn_id = ''a'', sn_state = [], sn_created = 1, sn_updated = 1\<rparr>]"
  "ident demo_store = Some (''h'', ''1'')" "commands demo_store = []" "leases demo_store = []"
  "clock demo_store = 1000" "notified demo_store = []"
  by (simp_all add: demo_store_def empty_store_def ready_def)

lemma fresh_ids_demo_uuids:
  "uuids s = demo_uuids \<Longrightarrow> \<forall>e \<in> set (events s). length (ev_id e) < 40 \<Longrightarrow> fresh_ids s"
  by (auto simp: fresh_ids_def demo_uuids_inj) (auto simp: demo_uuids_def)

lemma stream_okI:
  "st_floor st = dec fl \<Longrightarrow> st_current st = dec hi \<Longrightarrow> fl \<le> hi \<Longrightarrow>
   map ev_cursor (events_of s (st_id st)) = map dec [fl + 1..<hi + 1] \<Longrightarrow> stream_ok s st"
  by (auto simp: stream_ok_def)

lemma demo_store_ok: "journal_ok demo_store" "fresh_ids demo_store"
proof -
  have "stream_ok demo_store
     \<lparr>st_id = ''host:h'', st_scope = Host_scope, st_session = None, st_current = ''2'', st_floor = ''0''\<rparr>"
    by (rule stream_okI [of _ 0 2]) (simp_all add: events_of_def upt_rec)
  moreover have "stream_ok demo_store
     \<lparr>st_id = ''session:a'', st_scope = Session_scope, st_session = Some ''a'', st_current = ''0'', st_floor = ''0''\<rparr>"
    by (rule stream_okI [of _ 0 0]) (simp_all add: events_of_def)
  ultimately show "journal_ok demo_store" by (simp add: journal_ok_def)
  show "fresh_ids demo_store" by (rule fresh_ids_demo_uuids) simp_all
qed

lemma demo_store_position:
  "streamPosition demo_store ''host:h'' = Some (dec 2, dec 0)"
  "streamPosition demo_store ''session:a'' = Some (dec 0, dec 0)"
  by (simp_all add: streamPosition_def stream_row_of_def)

theorem journal_append_witness:
  "\<exists>ev s'. appendEvent ''host:h'' ''x'' [] None demo_store = (Inr ev, s') \<and> ev_cursor ev = dec (2 + 1)"
  using journal_append [OF demo_store_ok demo_store_sel(5) demo_store_position(1), of "''x''" "[]"] by blast

theorem replay_exact_witness:
  "\<exists>r. readReplay ''host:h'' (dec 1) demo_store = (Inr r, demo_store)
     \<and> map ev_cursor (rp_events r) = map dec [max 0 1 + 1..<2 + 1]"
  using replay_exact [OF demo_store_ok(1) demo_store_sel(5) demo_store_position(1), of 1] by blast

section \<open>Paging\<close>

lemma cursor_inj_on:
  "map ev_cursor xs = map dec [l..<h] \<Longrightarrow> inj_on ev_cursor (set xs)"
  by (metis distinct_map distinct_upt dec_inject inj_onI)

lemma select_events_drop:
  assumes evs: "map ev_cursor (events_of s i) = map dec [l..<h]"
    and n: "m = max l (a + 1) + n" "0 < m"
  shows "select_events s i (dec (m - 1)) (Some (dec b)) = drop n (select_events s i (dec a) (Some (dec b)))"
proof (rule map_inj_on)
  show "map ev_cursor (select_events s i (dec (m - 1)) (Some (dec b))) =
      map ev_cursor (drop n (select_events s i (dec a) (Some (dec b))))"
    using n unfolding drop_map [symmetric] select_events_cursors(1) [OF evs]
    by (simp add: drop_map drop_upt del: upt_Suc)
  have "set (select_events s i (dec (m - 1)) (Some (dec b))) \<union> set (drop n (select_events s i (dec a) (Some (dec b))))
      \<subseteq> set (events_of s i)"
    using set_select_events set_drop_subset by fast
  then show "inj_on ev_cursor (set (select_events s i (dec (m - 1)) (Some (dec b))) \<union>
      set (drop n (select_events s i (dec a) (Some (dec b)))))"
    using cursor_inj_on [OF evs] inj_on_subset by blast
qed

text \<open>The client's traversal: ask for the page after the returned cursor until there is none.\<close>

fun page_all :: "nat \<Rightarrow> store \<Rightarrow> string \<Rightarrow> int \<Rightarrow> string \<Rightarrow> string \<Rightarrow> event_row list option" where
  "page_all 0 s sid n lo hi = None"
| "page_all (Suc fuel) s sid n lo hi =
     (case pageEvents sid n lo (Some hi) s of
        (Inl _, _) \<Rightarrow> None
      | (Inr p, _) \<Rightarrow>
          (case pg_next p of
             None \<Rightarrow> Some (pg_items p)
           | Some c \<Rightarrow> map_option (\<lambda>es. pg_items p @ es) (page_all fuel s sid n c hi)))"

lemma pageEvents_eq:
  assumes "ready s" and "streamPosition s sid = Some (cur, fl)" and "1 \<le> n" "n \<le> 100"
  shows "pageEvents sid n (dec a) (Some (dec b)) s =
     (let rows = select_events s sid (dec a) (Some (dec b)) in
      (Inr \<lparr>pg_items = take (nat n) rows, pg_revision = dec b,
            pg_next = (if nat n < length rows then Some (ev_cursor (rows ! (nat n - 1))) else None)\<rparr>, s))"
proof -
  let ?rows = "select_events s sid (dec a) (Some (dec b))"
  have n: "0 < nat n" using assms(3) by simp
  have "(nat n < length (take (nat n + 1) ?rows)) = (nat n < length ?rows)" by auto
  moreover have "take (nat n) (take (nat n + 1) ?rows) = take (nat n) ?rows" by (simp add: min_def)
  moreover have "nat n < length ?rows \<Longrightarrow> take (nat n) ?rows \<noteq> [] \<and>
      ev_cursor (last (take (nat n) ?rows)) = ev_cursor (?rows ! (nat n - 1))"
    using n by (subst last_conv_nth) (auto simp: min_def)
  ultimately show ?thesis
    using assms by (auto simp: pageEvents_def MAX_EVENT_PAGE_SIZE_def transaction_Inr_iff Let_def)
qed

text \<open>
  C3 (paging_complete). With any page size from 1 to 100, following the returned cursors ends
  after at most one request per event and yields exactly the events of the range, each once and
  in order.
\<close>

theorem paging_complete:
  assumes "journal_ok s" and "ready s" and "streamPosition s sid = Some (dec cur, dec fl)"
    and "1 \<le> n" "n \<le> 100"
  shows "page_all (Suc (cur - a)) s sid n (dec a) (dec b)
           = Some (select_events s sid (dec a) (Some (dec b)))"
proof -
  from assms(3) obtain st where st: "stream_row_of s sid = Some st" "st_current st = dec cur" "st_floor st = dec fl"
    by (auto simp: streamPosition_def)
  then have evs: "map ev_cursor (events_of s sid) = map dec [fl + 1..<cur + 1]"
    using journal_okD [OF assms(1) st(1)] by (metis dec_inject)
  have "cur - a \<le> k \<Longrightarrow> page_all (Suc k) s sid n (dec a) (dec b) = Some (select_events s sid (dec a) (Some (dec b)))" for k a
  proof (induction k arbitrary: a)
    case 0
    let ?rows = "select_events s sid (dec a) (Some (dec b))"
    have "length ?rows = 0"
      using arg_cong [OF select_events_cursors(1) [OF evs, of a b], of length] 0 by (simp del: upt_Suc)
    then show ?case using pageEvents_eq [OF assms(2,3,4,5), of a b] by simp
  next
    case (Suc k)
    let ?rows = "select_events s sid (dec a) (Some (dec b))"
    let ?m = "max (fl + 1) (a + 1) + nat n"
    note cursors = select_events_cursors(1) [OF evs, of a b]
    show ?case
    proof (cases "nat n < length ?rows")
      case False
      then show ?thesis using pageEvents_eq [OF assms(2,3,4,5), of a b] by (simp add: Let_def)
    next
      case True
      have len: "length ?rows = min (cur + 1) (b + 1) - max (fl + 1) (a + 1)"
        using arg_cong [OF cursors, of length] by (simp del: upt_Suc)
      have "ev_cursor (?rows ! (nat n - 1)) = map ev_cursor ?rows ! (nat n - 1)" using True by simp
      also have "\<dots> = dec ([max (fl + 1) (a + 1)..<min (cur + 1) (b + 1)] ! (nat n - 1))"
        unfolding cursors using True len by (intro nth_map) (simp add: less_imp_diff_less del: upt_Suc)
      also have "\<dots> = dec (?m - 1)"
      proof -
        have "max (fl + 1) (a + 1) + (nat n - 1) < min (cur + 1) (b + 1)" using True len by arith
        then show ?thesis using assms(4) by (simp add: nth_upt del: upt_Suc)
      qed
      finally have c: "ev_cursor (?rows ! (nat n - 1)) = dec (?m - 1)" .
      have "cur - (?m - 1) \<le> k" using Suc.prems assms(4) by arith
      from Suc.IH [OF this] have "page_all (Suc k) s sid n (dec (?m - 1)) (dec b) = Some (drop (nat n) ?rows)"
        using select_events_drop [OF evs, of ?m a "nat n" b] by simp
      then show ?thesis using pageEvents_eq [OF assms(2,3,4,5), of a b] True c
        by (simp add: Let_def del: One_nat_def)
    qed
  qed
  then show ?thesis by simp
qed

theorem paging_complete_witness:
  "page_all (Suc (2 - 0)) demo_store ''host:h'' 1 (dec 0) (dec 2)
     = Some (select_events demo_store ''host:h'' (dec 0) (Some (dec 2)))"
  using paging_complete [OF demo_store_ok(1) demo_store_sel(5) demo_store_position(1), of 1 0 2] by simp

theorem compaction_safe_witness:
  "\<exists>c s'. compactLegacyEvents (Some 10) (Some 1000) (Some 5) demo_store = (Inr c, s') \<and> journal_ok s'
     \<and> set (events s') \<subseteq> set (events demo_store)"
  using compaction_safe [OF demo_store_ok(1) demo_store_sel(5), of 10 1000 5] by auto

section \<open>Idempotent append\<close>

text \<open>
  An append under a caller-chosen event id happens once: repeating
  the same call on the store it left returns the same row and changes nothing, and reusing the id with
  another stream, type or payload is refused without a change.
\<close>

theorem idempotent_append:
  assumes "journal_ok s" and "appendEventIdempotent sid ty p eid s = (Inr ev, s')"
  shows "appendEventIdempotent sid ty p eid s' = (Inr ev, s')
    \<and> (sid' \<noteq> sid \<or> ty' \<noteq> ty \<or> json_text (JObj p') \<noteq> json_text (JObj p) \<longrightarrow>
        appendEventIdempotent sid' ty' p' eid s'
          = (Inl (Store_error Conflict (''event identity already exists with different content: '' @ eid)), s'))
    \<and> journal_ok s' \<and> filter (\<lambda>e. ev_id e = eid) (events s') = [ev]"
proof -
  from assms(2) have eid: "eid \<noteq> []" and r: "ready s" and
    body: "(case find (\<lambda>e. ev_id e = eid) (events s) of
          Some row \<Rightarrow>
            if ev_stream row \<noteq> sid \<or> ev_type row \<noteq> ty
               \<or> json_text (JObj (ev_payload row)) \<noteq> json_text (JObj p)
            then Inl (Store_error Conflict (''event identity already exists with different content: '' @ eid))
            else Inr (row, s)
        | None \<Rightarrow> appendEventTx sid ty p eid s) = Inr (ev, s')"
    by (auto simp: appendEventIdempotent_def transaction_Inr_iff split: if_splits)
  have key: "journal_ok s' \<and> ready s' \<and> find (\<lambda>e. ev_id e = eid) (events s') = Some ev
      \<and> ev_stream ev = sid \<and> ev_type ev = ty \<and> json_text (JObj (ev_payload ev)) = json_text (JObj p)"
  proof (cases "find (\<lambda>e. ev_id e = eid) (events s)")
    case (Some row)
    with body assms(1) r show ?thesis by (simp split: if_splits)
  next
    case None
    with body have a: "appendEventTx sid ty p eid s = Inr (ev, s')" by simp
    then obtain st n where "ev = new_event eid sid (dec (n + 1)) ty p (clock s)"
      "s' = (set_current sid (dec (n + 1)) s)\<lparr>events := events s @ [ev], notified := notified s @ [ev]\<rparr>"
      by (rule appendEventTx_InrD)
    with None r appendEventTx_journal_ok [OF assms(1) a] show ?thesis
      by (simp add: find_append ready_def set_current_def)
  qed
  moreover have "filter (\<lambda>e. ev_id e = eid) (events s') = [ev]"
  proof -
    have "distinct (map ev_id (events s'))" using key by (simp add: journal_ok_def)
    moreover have ev: "ev \<in> set (events s')" "ev_id ev = eid" using key find_SomeD by fast+
    ultimately have "filter (\<lambda>e. ev_id e = ev_id ev) (events s') = [ev]" by (intro filter_key_unique)
    then show ?thesis unfolding ev(2) .
  qed
  ultimately show ?thesis
    using eid by (auto simp: appendEventIdempotent_def transaction_eq mapError_def)
qed

end
