(* ===== verification/Store_Leases.thy ===== *)
theory Store_Leases
  imports Store_Base
begin

text \<open>
  Controller leases (\<open>controller_leases\<close> of core/store.ts): who may control a scope. A scope has at
  most one lease that is not revoked (a partial unique index); acquiring revokes an expired or
  reclaimable one, a takeover revokes any.
\<close>

section \<open>Operations\<close>

text \<open>\<open>ORDER BY updated_at DESC LIMIT 1\<close> among the scope's leases that are not revoked.\<close>

definition lease :: "store \<Rightarrow> string \<Rightarrow> lease_row option" where
  "lease s sc =
     (case order_by (\<lambda>a b. ls_updated b < ls_updated a)
             (filter (\<lambda>l. ls_scope l = sc \<and> ls_revoked l = None) (leases s)) of
        [] \<Rightarrow> None
      | l # _ \<Rightarrow> Some l)"

definition leaseById :: "store \<Rightarrow> string \<Rightarrow> lease_row option" where
  "leaseById s i = find (\<lambda>l. ls_id l = i) (leases s)"

definition leaseHistory :: "store \<Rightarrow> string \<Rightarrow> lease_row list" where
  "leaseHistory s sc =
     order_by (\<lambda>a b. ls_acquired a < ls_acquired b) (filter (\<lambda>l. ls_scope l = sc) (leases s))"

datatype lease_action = Acquire | Takeover | Release

record lease_mutation =
  lm_action :: lease_action
  lm_scope :: string
  lm_install :: string
  lm_conn :: string
  lm_now :: "int option"

definition update_leases :: "(lease_row \<Rightarrow> bool) \<Rightarrow> (lease_row \<Rightarrow> lease_row) \<Rightarrow> store \<Rightarrow> store" where
  "update_leases P f s = s\<lparr>leases := map (\<lambda>l. if P l then f l else l) (leases s)\<rparr>"

text \<open>\<open>INSERT INTO controller_leases\<close> under its primary key and its partial unique index.\<close>

definition insert_lease :: "lease_row \<Rightarrow> unit tx" where
  "insert_lease l s =
     (if \<exists>k \<in> set (leases s). ls_id k = ls_id l
      then Inl (Sqlite_error ''UNIQUE constraint failed: controller_leases.lease_id'')
      else if ls_revoked l = None
           \<and> (\<exists>k \<in> set (leases s). ls_scope k = ls_scope l \<and> ls_revoked k = None)
      then Inl (Sqlite_error ''UNIQUE constraint failed: controller_leases.scope_key'')
      else Inr ((), s\<lparr>leases := leases s @ [l]\<rparr>))"

text \<open>The last statements of \<open>applyLeaseMutationTx\<close>: the new row, and its lookup.\<close>

definition new_lease :: "lease_mutation \<Rightarrow> int \<Rightarrow> string \<Rightarrow> lease_row" where
  "new_lease m now i =
     \<lparr>ls_id = i, ls_scope = lm_scope m, ls_install = lm_install m, ls_conn = lm_conn m,
      ls_acquired = now, ls_renewed = now, ls_expires = now + 45000, ls_reclaim = None,
      ls_disconnected = None,
      ls_takeover = (if lm_action m = Takeover then Some ''explicit_takeover'' else None),
      ls_revoked = None, ls_updated = now\<rparr>"

definition issue_lease :: "lease_mutation \<Rightarrow> int \<Rightarrow> lease_row option tx" where
  "issue_lease m now =
     tx_bind uuid (\<lambda>i.
     tx_bind (insert_lease (new_lease m now i)) (\<lambda>_.
     tx_read (\<lambda>t. lease t (lm_scope m))))"

definition applyLeaseMutationTx :: "lease_mutation \<Rightarrow> lease_row option tx" where
  "applyLeaseMutationTx m s =
     (let now = (case lm_now m of None \<Rightarrow> clock s | Some t \<Rightarrow> t);
          current = lease s (lm_scope m) in
      if lm_action m = Release then
        (case current of
           None \<Rightarrow> Inl (Store_error Conflict ''controller release is not authorized'')
         | Some l \<Rightarrow>
             if ls_revoked l \<noteq> None \<or> ls_install l \<noteq> lm_install m \<or> ls_conn l \<noteq> lm_conn m
             then Inl (Store_error Conflict ''controller release is not authorized'')
             else Inr (None, update_leases (\<lambda>k. ls_id k = ls_id l)
                    (\<lambda>k. k\<lparr>ls_revoked := Some now, ls_updated := now\<rparr>) s))
      else
        (let active = (case current of None \<Rightarrow> False
                       | Some l \<Rightarrow> ls_revoked l = None \<and> ls_expires l > now);
             reclaim = (case current of None \<Rightarrow> False
                       | Some l \<Rightarrow> ls_install l = lm_install m
                           \<and> (case ls_reclaim l of None \<Rightarrow> False | Some u \<Rightarrow> u \<ge> now)) in
         if active \<and> lm_action m \<noteq> Takeover \<and> \<not> reclaim
         then Inl (Store_error Conflict ''controller already active'')
         else
           (let s1 = (case current of None \<Rightarrow> s
                      | Some l \<Rightarrow> update_leases (\<lambda>k. ls_id k = ls_id l)
                          (\<lambda>k. k\<lparr>ls_revoked := Some now,
                                 ls_takeover := Some (if lm_action m = Takeover then ''explicit_takeover''
                                    else if reclaim then ''same_installation_reclaim'' else ''expired''),
                                 ls_updated := now\<rparr>) s) in
            issue_lease m now s1)))"

definition acquireLease :: "string \<Rightarrow> string \<Rightarrow> string \<Rightarrow> int option \<Rightarrow> bool \<Rightarrow> store \<Rightarrow> (exn + lease_row option) \<times> store" where
  "acquireLease sc inst conn now takeover s =
     transaction (applyLeaseMutationTx
       \<lparr>lm_action = (if takeover then Takeover else Acquire), lm_scope = sc, lm_install = inst,
        lm_conn = conn, lm_now = Some (case now of None \<Rightarrow> clock s | Some t \<Rightarrow> t)\<rparr>) s"

definition renewLease :: "string \<Rightarrow> string \<Rightarrow> string \<Rightarrow> int option \<Rightarrow> store \<Rightarrow> (exn + lease_row option) \<times> store" where
  "renewLease sc lid conn now_opt s =
     (let now = (case now_opt of None \<Rightarrow> clock s | Some t \<Rightarrow> t) in
      transaction (\<lambda>t.
        case lease t sc of
          None \<Rightarrow> Inl (Store_error Conflict ''stale controller'')
        | Some l \<Rightarrow>
            if ls_id l \<noteq> lid \<or> ls_conn l \<noteq> conn \<or> ls_revoked l \<noteq> None \<or> ls_expires l \<le> now
            then Inl (Store_error Conflict ''stale controller'')
            else (let t' = update_leases (\<lambda>k. ls_id k = lid)
                     (\<lambda>k. k\<lparr>ls_expires := now + 45000, ls_renewed := now, ls_updated := now\<rparr>) t in
                  Inr (lease t' sc, t'))) s)"

definition disconnectLease :: "string \<Rightarrow> string \<Rightarrow> int option \<Rightarrow> store \<Rightarrow> (exn + unit) \<times> store" where
  "disconnectLease sc conn now_opt s =
     (let now = (case now_opt of None \<Rightarrow> clock s | Some t \<Rightarrow> t) in
      transaction (tx_write (update_leases (\<lambda>k. ls_scope k = sc \<and> ls_conn k = conn \<and> ls_revoked k = None)
        (\<lambda>k. k\<lparr>ls_disconnected := Some now, ls_reclaim := Some (now + 60000), ls_updated := now\<rparr>))) s)"

definition disconnectConnection :: "string \<Rightarrow> int option \<Rightarrow> store \<Rightarrow> (exn + unit) \<times> store" where
  "disconnectConnection conn now_opt s =
     (let now = (case now_opt of None \<Rightarrow> clock s | Some t \<Rightarrow> t) in
      transaction (tx_write (update_leases (\<lambda>k. ls_conn k = conn \<and> ls_revoked k = None)
        (\<lambda>k. k\<lparr>ls_disconnected := Some now, ls_reclaim := Some (now + 60000), ls_updated := now\<rparr>))) s)"

definition releaseLease :: "string \<Rightarrow> string \<Rightarrow> string \<Rightarrow> string \<Rightarrow> int option \<Rightarrow> store \<Rightarrow> (exn + unit) \<times> store" where
  "releaseLease sc lid inst conn now_opt s =
     (let now = (case now_opt of None \<Rightarrow> clock s | Some t \<Rightarrow> t) in
      transaction (\<lambda>t.
        case lease t sc of
          None \<Rightarrow> Inl (Store_error Conflict ''controller release is not authorized'')
        | Some l \<Rightarrow>
            if ls_id l \<noteq> lid \<or> ls_install l \<noteq> inst \<or> ls_conn l \<noteq> conn
            then Inl (Store_error Conflict ''controller release is not authorized'')
            else tx_bind (applyLeaseMutationTx
                   \<lparr>lm_action = Release, lm_scope = sc, lm_install = inst, lm_conn = conn,
                    lm_now = Some now\<rparr>) (\<lambda>_. tx_return ()) t) s)"

text \<open>\<open>ControllerLeaseService.assertController\<close> of core/domain.ts.\<close>

definition assertController :: "string \<Rightarrow> string \<Rightarrow> string \<Rightarrow> int \<Rightarrow> store \<Rightarrow> exn + unit" where
  "assertController sc lid conn now s =
     (case lease s sc of
        None \<Rightarrow> Inl (Store_error Conflict ''stale controller'')
      | Some l \<Rightarrow>
          if ls_id l \<noteq> lid \<or> ls_conn l \<noteq> conn \<or> ls_revoked l \<noteq> None \<or> ls_expires l \<le> now
          then Inl (Store_error Conflict ''stale controller'') else Inr ())"

section \<open>The lease invariant\<close>

definition open_leases :: "store \<Rightarrow> lease_row list" where
  "open_leases s = filter (\<lambda>l. ls_revoked l = None) (leases s)"

definition leases_ok :: "store \<Rightarrow> bool" where
  "leases_ok s \<longleftrightarrow> distinct (map ls_id (leases s)) \<and> distinct (map ls_scope (open_leases s))"

lemma leases_ok_empty: "leases_ok (empty_store us t)"
  by (simp add: leases_ok_def open_leases_def empty_store_def)

lemma leases_ok_cong: "leases t = leases s \<Longrightarrow> leases_ok t = leases_ok s"
  by (simp add: leases_ok_def open_leases_def)

lemma db_of_leases: "db_of t = db_of s \<Longrightarrow> leases t = leases s"
  by (metis db_of_sel(7))

text \<open>With the invariant the lookup does not depend on the order of the rows.\<close>

lemma open_scope:
  assumes "leases_ok s"
  shows "filter (\<lambda>l. ls_scope l = sc \<and> ls_revoked l = None) (leases s) =
    (case find (\<lambda>l. ls_scope l = sc) (open_leases s) of None \<Rightarrow> [] | Some l \<Rightarrow> [l])"
proof -
  have eq: "filter (\<lambda>l. ls_scope l = sc \<and> ls_revoked l = None) (leases s)
      = filter (\<lambda>l. ls_scope l = sc) (open_leases s)"
    by (simp add: open_leases_def conj_commute)
  show ?thesis
  proof (cases "find (\<lambda>l. ls_scope l = sc) (open_leases s)")
    case None
    then have "filter (\<lambda>l. ls_scope l = sc) (open_leases s) = []" by (simp only: find_None_filter)
    with None show ?thesis by (simp add: eq)
  next
    case (Some l)
    then have "l \<in> set (open_leases s)" "ls_scope l = sc" using find_SomeD by fast+
    then show ?thesis
      using filter_key_unique [of ls_scope "open_leases s" l] assms Some by (simp add: eq leases_ok_def)
  qed
qed

lemma lease_find: "leases_ok s \<Longrightarrow> lease s sc = find (\<lambda>l. ls_scope l = sc) (open_leases s)"
  by (simp add: lease_def open_scope split: option.split)

lemma lease_SomeD:
  "lease s sc = Some l \<Longrightarrow> l \<in> set (leases s) \<and> ls_scope l = sc \<and> ls_revoked l = None"
proof -
  assume "lease s sc = Some l"
  then obtain ls where "order_by (\<lambda>a b. ls_updated b < ls_updated a)
      (filter (\<lambda>l. ls_scope l = sc \<and> ls_revoked l = None) (leases s)) = l # ls"
    by (auto simp: lease_def split: list.splits)
  then have "l \<in> set (order_by (\<lambda>a b. ls_updated b < ls_updated a)
      (filter (\<lambda>l. ls_scope l = sc \<and> ls_revoked l = None) (leases s)))" by simp
  then show ?thesis by simp
qed

lemma lease_Some_iff:
  "leases_ok s \<Longrightarrow> lease s sc = Some l \<longleftrightarrow> l \<in> set (leases s) \<and> ls_scope l = sc \<and> ls_revoked l = None"
  by (auto simp: lease_find leases_ok_def find_key_Some_iff open_leases_def)

lemma lease_None_iff:
  "lease s sc = None \<longleftrightarrow> (\<forall>l \<in> set (leases s). ls_scope l = sc \<longrightarrow> ls_revoked l \<noteq> None)"
proof -
  have "lease s sc = None \<longleftrightarrow> set (order_by (\<lambda>a b. ls_updated b < ls_updated a)
      (filter (\<lambda>l. ls_scope l = sc \<and> ls_revoked l = None) (leases s))) = {}"
    unfolding set_empty by (simp add: lease_def split: list.splits)
  then show ?thesis by auto
qed

text \<open>An update that keeps ids and scopes and never un-revokes keeps the invariant.\<close>

lemma distinct_sub:
  "(\<And>l. P' (f l) \<Longrightarrow> P l) \<Longrightarrow> (\<And>l. k (f l) = k l) \<Longrightarrow> distinct (map k (filter P xs)) \<Longrightarrow>
   distinct (map k (filter P' (map f xs)))"
proof (induction xs)
  case (Cons x xs)
  then show ?case by (cases "P' (f x)"; cases "P x") (force simp: image_iff)+
qed simp

lemma update_leases_ids: "(\<And>l. ls_id (f l) = ls_id l) \<Longrightarrow> map ls_id (leases (update_leases P f s)) = map ls_id (leases s)"
  by (simp add: update_leases_def)

lemma update_leases_ok [inv_intros]:
  assumes "leases_ok s" and "\<And>l. ls_id (f l) = ls_id l" and "\<And>l. ls_scope (f l) = ls_scope l"
    and "\<And>l. ls_revoked (f l) = None \<Longrightarrow> ls_revoked l = None"
  shows "leases_ok (update_leases P f s)"
proof -
  let ?f = "\<lambda>l. if P l then f l else l"
  have L: "leases (update_leases P f s) = map ?f (leases s)" by (simp add: update_leases_def)
  have "map ls_id (map ?f (leases s)) = map ls_id (leases s)" using assms(2) by simp
  moreover have "distinct (map ls_scope (filter (\<lambda>l. ls_revoked l = None) (map ?f (leases s))))"
  proof (rule distinct_sub [where P = "\<lambda>l. ls_revoked l = None"])
    show "ls_revoked (?f l) = None \<Longrightarrow> ls_revoked l = None" for l using assms(4) by (simp split: if_splits)
    show "ls_scope (?f l) = ls_scope l" for l using assms(3) by simp
    show "distinct (map ls_scope (filter (\<lambda>l. ls_revoked l = None) (leases s)))"
      using assms(1) by (simp add: leases_ok_def open_leases_def)
  qed
  ultimately show ?thesis using assms(1) unfolding leases_ok_def open_leases_def L by metis
qed

lemma insert_lease_ok [inv_intros]:
  "leases_ok s \<Longrightarrow> insert_lease l s = Inr ((), s') \<Longrightarrow> leases_ok s'"
  by (auto simp: insert_lease_def leases_ok_def open_leases_def split: if_splits; metis option.distinct(1))

text \<open>A successful lease mutation is an update or an update and an insert; nothing else changes.\<close>

lemma applyLeaseMutationTx_cases:
  assumes "applyLeaseMutationTx m s = Inr (x, s')"
  obtains (release) now i where "s' = update_leases (\<lambda>k. ls_id k = i) (\<lambda>k. k\<lparr>ls_revoked := Some now, ls_updated := now\<rparr>) s"
  | (grant) f P l where "\<And>k. ls_id (f k) = ls_id k" "\<And>k. ls_scope (f k) = ls_scope k" "\<And>k. ls_revoked (f k) \<noteq> None"
      "insert_lease l ((update_leases P f s)\<lparr>uuid_pos := Suc (uuid_pos s)\<rparr>) = Inr ((), s')"
proof (cases "lm_action m = Release")
  case True
  with assms show thesis
    by (cases "lease s (lm_scope m)") (auto simp: applyLeaseMutationTx_def Let_def split: if_splits intro: release)
next
  case False
  have issue: thesis if "issue_lease m now (update_leases P f s) = Inr (x, s')"
    "\<And>k. ls_id (f k) = ls_id k" "\<And>k. ls_scope (f k) = ls_scope k" "\<And>k. ls_revoked (f k) \<noteq> None" for now P f
  proof (rule grant [OF that(2-4)])
    show "insert_lease (new_lease m now (uuids s (uuid_pos s)))
        ((update_leases P f s)\<lparr>uuid_pos := Suc (uuid_pos s)\<rparr>) = Inr ((), s')"
      using that(1) by (simp add: issue_lease_def uuid_apply tx_bind_Inr_iff update_leases_def)
  qed
  show thesis
  proof (cases "lease s (lm_scope m)")
    case None
    have "update_leases (\<lambda>_. False) f s = s" for f by (simp add: update_leases_def)
    moreover have "issue_lease m (case lm_now m of None \<Rightarrow> clock s | Some t \<Rightarrow> t) s = Inr (x, s')"
      using assms False None by (simp add: applyLeaseMutationTx_def Let_def)
    ultimately show thesis
      by (intro issue [of _ "\<lambda>_. False" "\<lambda>k. k\<lparr>ls_revoked := Some 0\<rparr>"]) simp_all
  next
    case (Some l)
    then obtain r now where "issue_lease m now (update_leases (\<lambda>k. ls_id k = ls_id l)
        (\<lambda>k. k\<lparr>ls_revoked := Some now, ls_takeover := Some r, ls_updated := now\<rparr>) s) = Inr (x, s')"
      using assms False unfolding applyLeaseMutationTx_def Let_def
      by (simp only: option.case if_False split: if_splits) blast+
    then show thesis by (rule issue) simp_all
  qed
qed

lemma insert_lease_Inr: "insert_lease l s = Inr ((), s') \<Longrightarrow> s' = s\<lparr>leases := leases s @ [l]\<rparr>"
  by (simp add: insert_lease_def split: if_splits)

lemma applyLeaseMutationTx_shape:
  assumes "applyLeaseMutationTx m s = Inr (x, s')"
  obtains ls n where "s' = s\<lparr>uuid_pos := n, leases := ls\<rparr>" "uuid_pos s \<le> n"
  using assms
proof (cases rule: applyLeaseMutationTx_cases)
  case (release now i)
  then show thesis by (intro that [where n = "uuid_pos s"]) (simp_all add: update_leases_def)
next
  case (grant f P l)
  from insert_lease_Inr [OF grant(4)] show thesis
    by (intro that [where n = "Suc (uuid_pos s)"]) (simp_all add: update_leases_def)
qed

lemma applyLeaseMutationTx_frame:
  assumes "applyLeaseMutationTx m s = Inr (x, s')"
  shows "commands s' = commands s" "streams s' = streams s" "events s' = events s"
    "notified s' = notified s" "clock s' = clock s" "uuids s' = uuids s"
    "uuid_pos s \<le> uuid_pos s'" "ready s' = ready s"
proof -
  from assms obtain ls n where "s' = s\<lparr>uuid_pos := n, leases := ls\<rparr>" "uuid_pos s \<le> n"
    by (rule applyLeaseMutationTx_shape)
  then show "commands s' = commands s" "streams s' = streams s" "events s' = events s"
    "notified s' = notified s" "clock s' = clock s" "uuids s' = uuids s"
    "uuid_pos s \<le> uuid_pos s'" "ready s' = ready s"
    by (simp_all add: ready_def)
qed

lemma applyLeaseMutationTx_ok [inv_intros]:
  assumes ok: "leases_ok s" and r: "applyLeaseMutationTx m s = Inr (x, s')"
  shows "leases_ok s'"
  using r
proof (cases rule: applyLeaseMutationTx_cases)
  case (release now i)
  with ok show ?thesis by (auto intro!: update_leases_ok)
next
  case (grant f P l)
  have "leases_ok (update_leases P f s)"
    by (rule update_leases_ok [OF ok]) (simp_all add: grant(1-3))
  then have "leases_ok ((update_leases P f s)\<lparr>uuid_pos := Suc (uuid_pos s)\<rparr>)"
    by (rule leases_ok_cong [THEN iffD2, rotated]) simp
  then show ?thesis using grant(4) by (rule insert_lease_ok)
qed

section \<open>Runs\<close>

text \<open>What the lease operations, called in any order by any clients at any time, do to the store.\<close>

inductive lease_step :: "store \<Rightarrow> store \<Rightarrow> bool" where
  acquire: "lease_step s (snd (acquireLease sc inst conn now takeover s))"
| renew: "lease_step s (snd (renewLease sc lid conn now s))"
| disconnect: "lease_step s (snd (disconnectLease sc conn now s))"
| disconnect_all: "lease_step s (snd (disconnectConnection conn now s))"
| release: "lease_step s (snd (releaseLease sc lid inst conn now s))"
| time: "clock s \<le> t \<Longrightarrow> lease_step s (s\<lparr>clock := t\<rparr>)"

lemma leases_ok_db: "leases_ok s \<Longrightarrow> db_of t = db_of s \<Longrightarrow> leases_ok t"
  using leases_ok_cong db_of_leases by blast

lemma acquireLease_ok [inv_intros]: "leases_ok s \<Longrightarrow> leases_ok (snd (acquireLease sc inst conn now tk s))"
  unfolding acquireLease_def by (rule transaction_preserves) (auto intro: applyLeaseMutationTx_ok leases_ok_db)

lemma renewLease_ok [inv_intros]: "leases_ok s \<Longrightarrow> leases_ok (snd (renewLease sc lid conn now s))"
  unfolding renewLease_def Let_def
  by (rule transaction_preserves)
    (auto intro: leases_ok_db intro!: update_leases_ok split: option.splits if_splits)

lemma disconnectLease_ok [inv_intros]: "leases_ok s \<Longrightarrow> leases_ok (snd (disconnectLease sc conn now s))"
  unfolding disconnectLease_def Let_def
  by (rule transaction_preserves) (auto intro: leases_ok_db intro!: update_leases_ok)

lemma disconnectConnection_ok [inv_intros]: "leases_ok s \<Longrightarrow> leases_ok (snd (disconnectConnection conn now s))"
  unfolding disconnectConnection_def Let_def
  by (rule transaction_preserves) (auto intro: leases_ok_db intro!: update_leases_ok)

lemma releaseLease_ok [inv_intros]: "leases_ok s \<Longrightarrow> leases_ok (snd (releaseLease sc lid inst conn now s))"
  unfolding releaseLease_def Let_def
  by (rule transaction_preserves)
    (auto simp: tx_bind_Inr_iff intro: leases_ok_db applyLeaseMutationTx_ok split: option.splits if_splits)

lemma lease_step_ok: "lease_step s t \<Longrightarrow> leases_ok s \<Longrightarrow> leases_ok t"
  by (induction rule: lease_step.induct) (auto intro: inv_intros leases_ok_cong [THEN iffD2, rotated])

interpretation lease_run: kept_along lease_step leases_ok
  by unfold_locales (rule lease_step_ok)

text \<open>
  C5 (lease_exclusive). Whatever the clients do and in whatever order, starting from an empty
  store no scope ever has two leases that are not revoked.
\<close>

theorem lease_exclusive:
  assumes "lease_step\<^sup>*\<^sup>* (empty_store us t) s"
    and "k \<in> set (leases s)" "l \<in> set (leases s)"
    and "ls_scope k = ls_scope l" "ls_revoked k = None" "ls_revoked l = None"
  shows "k = l \<and> lease s (ls_scope l) = Some l"
proof -
  have ok: "leases_ok s" by (rule lease_run.run_kept [OF assms(1) leases_ok_empty])
  with assms(2-) have "lease s (ls_scope l) = Some k" "lease s (ls_scope l) = Some l"
    by (simp_all add: lease_Some_iff)
  then show ?thesis by simp
qed

section \<open>Acquiring\<close>

definition fresh_lease :: "store \<Rightarrow> bool" where
  "fresh_lease s \<longleftrightarrow> (\<forall>l \<in> set (leases s). ls_id l \<noteq> uuids s (uuid_pos s))"

text \<open>Whether the scope may be taken: it is free, its lease expired, or the same installation reclaims it in time.\<close>

definition may_acquire :: "store \<Rightarrow> string \<Rightarrow> string \<Rightarrow> int \<Rightarrow> bool" where
  "may_acquire s sc inst now \<longleftrightarrow>
     (case lease s sc of None \<Rightarrow> True
      | Some l \<Rightarrow> ls_expires l \<le> now
          \<or> (ls_install l = inst \<and> (case ls_reclaim l of None \<Rightarrow> False | Some u \<Rightarrow> now \<le> u)))"

lemma lease_after_revoke:
  assumes "leases_ok s" and "lease s sc = Some l"
    and "\<And>k. ls_id (f k) = ls_id k" "\<And>k. ls_scope (f k) = ls_scope k" "\<And>k. ls_revoked (f k) \<noteq> None"
  shows "lease (update_leases (\<lambda>k. ls_id k = ls_id l) f s) sc = None"
proof -
  have "k = l" if "k \<in> set (leases s)" "ls_scope k = sc" "ls_revoked k = None" for k
    using assms(1,2) that lease_Some_iff [OF assms(1), of sc k] by simp
  then show ?thesis using assms(4,5) by (auto simp: lease_None_iff update_leases_def)
qed

lemma applyLeaseMutationTx_acquire:
  assumes ok: "leases_ok s" and fr: "fresh_lease s" and act: "lm_action m \<noteq> Release" and now: "lm_now m = Some now"
    and may: "lm_action m = Takeover \<or> may_acquire s (lm_scope m) (lm_install m) now"
  shows "\<exists>l s'. applyLeaseMutationTx m s = Inr (Some l, s') \<and> lease s' (lm_scope m) = Some l
      \<and> ls_id l = uuids s (uuid_pos s) \<and> ls_install l = lm_install m \<and> ls_conn l = lm_conn m
      \<and> ls_expires l = now + 45000 \<and> ready s' = ready s
      \<and> uuids s' = uuids s \<and> uuid_pos s' = Suc (uuid_pos s)
      \<and> ls_id ` set (leases s') = insert (ls_id l) (ls_id ` set (leases s))"
proof -
  define new where "new = new_lease m now (uuids s (uuid_pos s))"
  define f :: "string \<Rightarrow> lease_row \<Rightarrow> lease_row" where "f r = (\<lambda>k. k\<lparr>ls_revoked := Some now, ls_takeover := Some r, ls_updated := now\<rparr>)" for r
  define up where "up r = (case lease s (lm_scope m) of None \<Rightarrow> s
      | Some l \<Rightarrow> update_leases (\<lambda>k. ls_id k = ls_id l) (f r) s)" for r
  define t where "t r = (up r)\<lparr>uuid_pos := Suc (uuid_pos s), leases := leases (up r) @ [new]\<rparr>" for r
  have same: "uuids (up r) = uuids s" "uuid_pos (up r) = uuid_pos s" for r
    by (simp_all add: up_def update_leases_def split: option.split)
  have ids: "ls_id k \<noteq> uuids s (uuid_pos s)" if "k \<in> set (leases (up r))" for k r
    using fr that by (auto simp: fresh_lease_def up_def update_leases_def f_def split: option.splits if_splits)
  have none: "lease (up r) (lm_scope m) = None" for r
    using ok by (auto simp: up_def f_def split: option.split intro: lease_after_revoke)
  have ins: "insert_lease new ((up r)\<lparr>uuid_pos := Suc (uuid_pos s)\<rparr>) = Inr ((), t r)" for r
    using none [of r] ids by (auto simp: insert_lease_def new_def new_lease_def t_def lease_None_iff)
  have okt: "leases_ok (t r)" for r
  proof (rule insert_lease_ok [OF _ ins])
    show "leases_ok ((up r)\<lparr>uuid_pos := Suc (uuid_pos s)\<rparr>)"
      using ok by (auto simp: up_def f_def leases_ok_cong [of "_\<lparr>uuid_pos := _\<rparr>"] split: option.split intro!: update_leases_ok)
  qed
  have got: "lease (t r) (lm_scope m) = Some new" for r
    by (simp add: lease_Some_iff [OF okt]) (simp add: t_def new_def new_lease_def)
  have "\<exists>r. applyLeaseMutationTx m s = Inr (lease (t r) (lm_scope m), t r)"
  proof -
    have "\<exists>r. applyLeaseMutationTx m s = issue_lease m now (up r)"
    proof (cases "lease s (lm_scope m)")
      case None
      then show ?thesis using act now
        by (simp add: applyLeaseMutationTx_def Let_def up_def)
    next
      case (Some l)
      then have "\<not> (ls_revoked l = None \<and> ls_expires l > now \<and> lm_action m \<noteq> Takeover
          \<and> \<not> (ls_install l = lm_install m \<and> (case ls_reclaim l of None \<Rightarrow> False | Some u \<Rightarrow> u \<ge> now)))"
        using may by (auto simp: may_acquire_def)
      then show ?thesis using act now Some
        by (intro exI [of _ "if lm_action m = Takeover then ''explicit_takeover''
              else if ls_install l = lm_install m \<and> (case ls_reclaim l of None \<Rightarrow> False | Some u \<Rightarrow> u \<ge> now)
              then ''same_installation_reclaim'' else ''expired''"])
          (simp add: applyLeaseMutationTx_def Let_def up_def f_def, auto)
    qed
    then obtain r where "applyLeaseMutationTx m s = issue_lease m now (up r)" by blast
    moreover have "tx_bind (insert_lease new) (\<lambda>_. tx_read (\<lambda>t. lease t (lm_scope m)))
        ((up r)\<lparr>uuid_pos := Suc (uuid_pos s)\<rparr>) = Inr (lease (t r) (lm_scope m), t r)"
      by (simp add: tx_bind_Inr [of "insert_lease new", OF ins])
    ultimately show ?thesis using same by (auto simp: issue_lease_def uuid_apply new_def intro!: exI [of _ r])
  qed
  moreover have "ready (t r) = ready s" for r
    by (simp add: t_def up_def update_leases_def ready_def split: option.split)
  moreover have "uuids (t r) = uuids s" "uuid_pos (t r) = Suc (uuid_pos s)" for r
    using same by (simp_all add: t_def)
  moreover have "ls_id ` set (leases (up r)) = ls_id ` set (leases s)" for r
    by (simp add: up_def f_def set_map [symmetric] update_leases_ids del: set_map split: option.split)
  then have "ls_id ` set (leases (t r)) = insert (ls_id new) (ls_id ` set (leases s))" for r
    by (simp add: t_def)
  ultimately show ?thesis using got by (auto simp: new_def new_lease_def)
qed


lemma acquire_refused_tx:
  assumes "\<not> (lm_action m = Takeover \<or> may_acquire s (lm_scope m) (lm_install m) now)"
    and "lm_action m \<noteq> Release" and "lm_now m = Some now"
  shows "applyLeaseMutationTx m s = Inl (Store_error Conflict ''controller already active'')"
proof -
  from assms(1) obtain l where l: "lease s (lm_scope m) = Some l" "\<not> ls_expires l \<le> now"
    "\<not> (ls_install l = lm_install m \<and> (case ls_reclaim l of None \<Rightarrow> False | Some u \<Rightarrow> now \<le> u))"
    by (auto simp: may_acquire_def split: option.splits)
  with lease_SomeD [OF l(1)] assms show ?thesis
    by (simp add: applyLeaseMutationTx_def Let_def)
qed

lemma acquireLease_refused:
  assumes "ready s" and "\<not> may_acquire s sc inst now"
  shows "acquireLease sc inst conn (Some now) False s = (Inl (Store_error Conflict ''controller already active''), s)"
  using acquire_refused_tx [of "\<lparr>lm_action = Acquire, lm_scope = sc, lm_install = inst, lm_conn = conn, lm_now = Some now\<rparr>" s now] assms
  by (simp add: acquireLease_def transaction_eq mapError_def)

text \<open>
  C6 (acquire_decides). A plain acquire succeeds exactly when the scope is free, its lease has expired, or the
  same installation reclaims it within its window; it then holds the scope for 45 seconds. Otherwise it is
  refused and nothing changes. A takeover always succeeds.
\<close>

theorem acquire_decides:
  assumes "leases_ok s" and "fresh_lease s" and "ready s"
  shows "if takeover \<or> may_acquire s sc inst now
    then \<exists>l s'. acquireLease sc inst conn (Some now) takeover s = (Inr (Some l), s') \<and> lease s' sc = Some l
        \<and> ls_install l = inst \<and> ls_conn l = conn \<and> ls_expires l = now + 45000
        \<and> (\<forall>t < now + 45000. assertController sc (ls_id l) conn t s' = Inr ())
    else acquireLease sc inst conn (Some now) takeover s
        = (Inl (Store_error Conflict ''controller already active''), s)"
proof (cases "takeover \<or> may_acquire s sc inst now")
  case True
  let ?m = "\<lparr>lm_action = (if takeover then Takeover else Acquire), lm_scope = sc, lm_install = inst,
        lm_conn = conn, lm_now = Some now\<rparr>"
  obtain l s' where l: "applyLeaseMutationTx ?m s = Inr (Some l, s')" "lease s' sc = Some l"
      "ls_install l = inst" "ls_conn l = conn" "ls_expires l = now + 45000"
    using applyLeaseMutationTx_acquire [OF assms(1,2), of ?m now] True by (cases takeover) auto
  have "acquireLease sc inst conn (Some now) takeover s = (Inr (Some l), s')"
    using l(1) assms(3) by (simp add: acquireLease_def transaction_Inr)
  with True l lease_SomeD [OF l(2)] show ?thesis by (auto simp: assertController_def)
next
  case False
  then show ?thesis using acquireLease_refused [OF assms(3)] by auto
qed

text \<open>
  C7 (takeover_fences). Once another connection has taken the scope over, the former holder can neither
  renew nor release, nor pass the controller check, at any time; its attempts change nothing.
\<close>

theorem takeover_fences:
  assumes "leases_ok s" and "fresh_lease s" and "ready s" and "lease s sc = Some old"
    and "acquireLease sc inst conn (Some now) True s = (Inr (Some l), s')"
  shows "renewLease sc (ls_id old) c t s' = (Inl (Store_error Conflict ''stale controller''), s')
     \<and> releaseLease sc (ls_id old) i c t s'
         = (Inl (Store_error Conflict ''controller release is not authorized''), s')
     \<and> assertController sc (ls_id old) c t' s' = Inl (Store_error Conflict ''stale controller'')"
proof -
  let ?m = "\<lparr>lm_action = Takeover, lm_scope = sc, lm_install = inst, lm_conn = conn, lm_now = Some now\<rparr>"
  have "applyLeaseMutationTx ?m s = Inr (Some l, s')"
    using assms(5) by (simp add: acquireLease_def transaction_Inr_iff)
  with applyLeaseMutationTx_acquire [OF assms(1,2), of ?m now] assms(3)
  have l: "lease s' sc = Some l" "ls_id l = uuids s (uuid_pos s)" and r: "ready s'" by auto
  have "ls_id old \<noteq> ls_id l" using assms(2) lease_SomeD [OF assms(4)] l(2) by (auto simp: fresh_lease_def)
  with l r show ?thesis
    by (auto simp: renewLease_def releaseLease_def assertController_def transaction_eq mapError_def Let_def)
qed

section \<open>Instances\<close>

lemma free_store:
  "leases_ok (empty_store us t)" "fresh_lease (empty_store us t)" "ready (empty_store us t)"
  by (simp_all add: leases_ok_empty fresh_lease_def ready_def) (simp_all add: empty_store_def)

lemma free_may_acquire: "may_acquire (empty_store us t) sc inst now"
  by (simp add: may_acquire_def lease_def empty_store_def)

lemma first_acquire:
  obtains l s where "acquireLease ''host'' ''i'' ''c'' (Some 0) False (empty_store demo_uuids 0) = (Inr (Some l), s)"
    "lease s ''host'' = Some l" "leases_ok s" "ready s" "fresh_lease s" "ls_expires l = 45000"
proof -
  let ?s = "empty_store demo_uuids 0"
  let ?m = "\<lparr>lm_action = Acquire, lm_scope = ''host'', lm_install = ''i'', lm_conn = ''c'', lm_now = Some 0\<rparr>"
  obtain l s where l: "applyLeaseMutationTx ?m ?s = Inr (Some l, s)" "lease s ''host'' = Some l"
    "ls_id l = uuids ?s (uuid_pos ?s)" "ls_expires l = 45000" "ready s = ready ?s"
    "uuids s = uuids ?s" "uuid_pos s = Suc (uuid_pos ?s)"
    "ls_id ` set (leases s) = insert (ls_id l) (ls_id ` set (leases ?s))"
    using applyLeaseMutationTx_acquire [OF free_store(1,2), of ?m 0 demo_uuids 0] free_may_acquire by auto
  have "ls_id ` set (leases s) = {demo_uuids 0}" using l(3,8) by (simp add: empty_store_def)
  then have "ls_id k = demo_uuids 0" if "k \<in> set (leases s)" for k
    using imageI [OF that, of ls_id] by simp
  then have "ls_id k \<noteq> uuids s (uuid_pos s)" if "k \<in> set (leases s)" for k
    using that l(6,7) by (simp add: empty_store_def demo_uuids_inj)
  then have "fresh_lease s" by (simp add: fresh_lease_def)
  moreover have "acquireLease ''host'' ''i'' ''c'' (Some 0) False ?s = (Inr (Some l), s)"
    using l(1) free_store(3) by (simp add: acquireLease_def transaction_Inr)
  moreover have "leases_ok s" by (rule applyLeaseMutationTx_ok [OF free_store(1) l(1)])
  moreover have "ready s" using l(5) free_store(3) by simp
  ultimately show thesis using that l(2,4) by blast
qed

theorem lease_exclusive_witness:
  "\<exists>s l. lease_step\<^sup>*\<^sup>* (empty_store demo_uuids 0) s \<and> l \<in> set (leases s) \<and> ls_revoked l = None
     \<and> lease s (ls_scope l) = Some l"
proof -
  obtain l s where a: "acquireLease ''host'' ''i'' ''c'' (Some 0) False (empty_store demo_uuids 0) = (Inr (Some l), s)"
    and l: "lease s ''host'' = Some l" by (rule first_acquire)
  have "lease_step (empty_store demo_uuids 0) s"
    using lease_step.acquire [of "empty_store demo_uuids 0" "''host''" "''i''" "''c''" "Some 0" False] a by simp
  then have "lease_step\<^sup>*\<^sup>* (empty_store demo_uuids 0) s" by (rule r_into_rtranclp)
  moreover have "l \<in> set (leases s)" "ls_revoked l = None" using lease_SomeD [OF l] by simp_all
  moreover have "lease s (ls_scope l) = Some l"
    using lease_exclusive [OF calculation(1,2,2)] calculation(3) by simp
  ultimately show ?thesis by (intro exI conjI)
qed

theorem acquire_decides_witness:
  "\<exists>l s'. acquireLease ''host'' ''i'' ''c'' (Some 0) False (empty_store demo_uuids 0) = (Inr (Some l), s')
     \<and> assertController ''host'' (ls_id l) ''c'' 44999 s' = Inr ()"
  using acquire_decides [OF free_store, of False demo_uuids 0 "''host''" "''i''" 0 "''c''"]
  by (auto simp: free_may_acquire)

theorem takeover_fences_witness:
  "\<exists>s old l s'. lease s ''host'' = Some old
     \<and> acquireLease ''host'' ''j'' ''d'' (Some 5) True s = (Inr (Some l), s')
     \<and> assertController ''host'' (ls_id old) ''c'' 6 s' = Inl (Store_error Conflict ''stale controller'')"
proof -
  obtain old s where old: "lease s ''host'' = Some old" and s: "leases_ok s" "ready s" "fresh_lease s"
    by (rule first_acquire)
  let ?m = "\<lparr>lm_action = Takeover, lm_scope = ''host'', lm_install = ''j'', lm_conn = ''d'', lm_now = Some 5\<rparr>"
  obtain l s' where "applyLeaseMutationTx ?m s = Inr (Some l, s')"
    using applyLeaseMutationTx_acquire [OF s(1,3), of ?m 5] by auto
  then have a: "acquireLease ''host'' ''j'' ''d'' (Some 5) True s = (Inr (Some l), s')"
    using s(2) by (simp add: acquireLease_def transaction_Inr)
  from takeover_fences [OF s(1,3,2) old a] old a show ?thesis by blast
qed

end
