(* ===== verification/Store_Commands.thy ===== *)
theory Store_Commands
  imports Journal Store_Leases Dates
begin

text \<open>
  The command log of the store (\<open>commands\<close> in core/store.ts): a command is accepted once, moves
  through its states under a compare-and-set, and each move is journalled on the command's stream.
\<close>

section \<open>Operations\<close>

definition command :: "store \<Rightarrow> string \<Rightarrow> command_row option" where
  "command s i = find (\<lambda>c. cm_id c = i) (commands s)"

record command_input =
  ci_id :: string
  ci_type :: string
  ci_scope :: string
  ci_stream :: string
  ci_hash :: string
  ci_payload :: obj
  ci_lease :: "lease_mutation option"

datatype accept_result =
    Accepted command_row event_row
  | Duplicate command_row
  | Conflicting

definition insert_command :: "command_row \<Rightarrow> unit tx" where
  "insert_command c s =
     (if \<exists>d \<in> set (commands s). cm_id d = cm_id c
      then Inl (Sqlite_error ''UNIQUE constraint failed: commands.command_id'')
      else if stream_row_of s (cm_stream c) = None
      then Inl (Sqlite_error ''FOREIGN KEY constraint failed'')
      else Inr ((), s\<lparr>commands := commands s @ [c]\<rparr>))"

text \<open>The \<open>controller.state\<close> payload of an accepted lease command.\<close>

definition scope_fields :: "string \<Rightarrow> obj" where
  "scope_fields sc =
     (if starts_with ''session:'' sc
      then [(''scope'', JStr ''session''), (''sessionId'', JStr (drop (length ''session:'') sc))]
      else [(''scope'', JStr ''host'')])"

definition controller_payload :: "string \<Rightarrow> lease_action \<Rightarrow> lease_row option \<Rightarrow> exn + obj" where
  "controller_payload sc act l =
     (if act = Release then Inr (scope_fields sc @ [(''mode'', JStr ''observer'')])
      else case l of
             None \<Rightarrow> Inl (Type_error ''null is not an object'')
           | Some r \<Rightarrow> Inr (scope_fields sc @
               [(''mode'', JStr ''controller''), (''leaseId'', JStr (ls_id r)),
                (''installationId'', JStr (ls_install r)), (''expiresAt'', JStr (isoTime (ls_expires r)))]))"

definition acceptCommand_tx :: "command_input \<Rightarrow> accept_result tx" where
  "acceptCommand_tx i s =
     (case command s (ci_id i) of
        Some c \<Rightarrow> Inr (if cm_hash c = ci_hash i then Duplicate c else Conflicting, s)
      | None \<Rightarrow>
          tx_bind (case ci_lease i of None \<Rightarrow> tx_return None | Some m \<Rightarrow> applyLeaseMutationTx m) (\<lambda>l.
          tx_bind (\<lambda>t. insert_command
            \<lparr>cm_id = ci_id i, cm_type = ci_type i, cm_scope = ci_scope i, cm_stream = ci_stream i,
             cm_hash = ci_hash i, cm_payload = ci_payload i, cm_state = ''accepted'', cm_dispatches = 0,
             cm_created = clock t, cm_updated = clock t\<rparr> t) (\<lambda>_.
          tx_bind (append_fresh (ci_stream i) ''command.state''
            [(''commandId'', JStr (ci_id i)), (''commandType'', JStr (ci_type i)),
             (''state'', JStr ''accepted''), (''errorCode'', JNull)]) (\<lambda>ev.
          tx_bind (case ci_lease i of
                None \<Rightarrow> tx_return ()
              | Some m \<Rightarrow>
                  (case controller_payload (ci_scope i) (lm_action m) l of
                     Inl e \<Rightarrow> tx_throw e
                   | Inr p \<Rightarrow> tx_bind (append_fresh (ci_stream i) ''controller.state'' p) (\<lambda>_. tx_return ())))
            (\<lambda>_ t. case command t (ci_id i) of
                None \<Rightarrow> Inl (Type_error ''null is not an object'')
              | Some c \<Rightarrow> Inr (Accepted c ev, t))))) s)"

definition acceptCommand :: "command_input \<Rightarrow> store \<Rightarrow> (exn + accept_result) \<times> store" where
  "acceptCommand i = transaction (acceptCommand_tx i)"

definition set_command_state :: "string \<Rightarrow> string \<Rightarrow> store \<Rightarrow> store" where
  "set_command_state i st s =
     s\<lparr>commands := map (\<lambda>c. if cm_id c = i
         then c\<lparr>cm_state := st, cm_dispatches := cm_dispatches c + (if st = ''dispatched'' then 1 else 0),
                cm_updated := clock s\<rparr> else c) (commands s)\<rparr>"

definition transitionCommand_tx :: "string \<Rightarrow> string list \<Rightarrow> string \<Rightarrow> (command_row \<times> event_row) option tx" where
  "transitionCommand_tx i expected to s =
     (case command s i of
        None \<Rightarrow> Inr (None, s)
      | Some c \<Rightarrow>
          if cm_state c \<notin> set expected then Inr (None, s)
          else tx_bind (append_fresh (cm_stream c) ''command.state''
                 [(''commandId'', JStr i), (''commandType'', JStr (cm_type c)), (''state'', JStr to)])
               (\<lambda>ev t. case command t i of
                   None \<Rightarrow> Inl (Type_error ''null is not an object'')
                 | Some c' \<Rightarrow> Inr (Some (c', ev), t))
               (set_command_state i to s))"

definition transitionCommand :: "string \<Rightarrow> string list \<Rightarrow> string \<Rightarrow> store \<Rightarrow> (exn + (command_row \<times> event_row) option) \<times> store" where
  "transitionCommand i expected to = transaction (transitionCommand_tx i expected to)"

definition recoveryCandidates :: "store \<Rightarrow> command_row list" where
  "recoveryCandidates s =
     order_by (\<lambda>a b. cm_created a < cm_created b)
       (filter (\<lambda>c. cm_state c \<in> {''accepted'', ''dispatched'', ''running''}) (commands s))"

text \<open>A loop of separate transactions: an error ends it and keeps what was done before.\<close>

fun mark_loop :: "command_row list \<Rightarrow> command_row list \<Rightarrow> store \<Rightarrow> (exn + command_row list) \<times> store" where
  "mark_loop [] changed s = (Inr changed, s)"
| "mark_loop (c # cs) changed s =
     (case transitionCommand (cm_id c) [cm_state c] ''indeterminate'' s of
        (Inl e, s') \<Rightarrow> (Inl e, s')
      | (Inr None, s') \<Rightarrow> mark_loop cs changed s'
      | (Inr (Some (c', _)), s') \<Rightarrow> mark_loop cs (changed @ [c']) s')"

definition markUncertainIndeterminate :: "store \<Rightarrow> (exn + command_row list) \<times> store" where
  "markUncertainIndeterminate s =
     mark_loop (filter (\<lambda>c. cm_state c = ''dispatched'' \<or> cm_state c = ''running'') (recoveryCandidates s)) [] s"

section \<open>The command invariant\<close>

text \<open>Command ids are unique and every command's stream exists.\<close>

definition commands_ok :: "store \<Rightarrow> bool" where
  "commands_ok s \<longleftrightarrow> distinct (map cm_id (commands s))
     \<and> (\<forall>c \<in> set (commands s). stream_row_of s (cm_stream c) \<noteq> None)"

lemma command_SomeD: "command s i = Some c \<Longrightarrow> c \<in> set (commands s) \<and> cm_id c = i"
  unfolding command_def using find_SomeD by fast

lemma command_unique: "commands_ok s \<Longrightarrow> c \<in> set (commands s) \<Longrightarrow> command s (cm_id c) = Some c"
  by (simp add: commands_ok_def command_def find_unique)

lemma stream_row_of_set_current:
  "stream_row_of (set_current i c s) j =
     map_option (\<lambda>r. if st_id r = i then r\<lparr>st_current := c\<rparr> else r) (stream_row_of s j)"
  unfolding stream_row_of_def set_current_def by (simp add: find_map_key)

lemma stream_row_of_cong: "streams s = streams t \<Longrightarrow> stream_row_of s = stream_row_of t"
  by (simp add: stream_row_of_def fun_eq_iff)

text \<open>What an append leaves alone, in the form the operations on other tables need.\<close>

lemma append_fresh_frame:
  assumes "append_fresh i ty p s = Inr (ev, s')"
  shows "commands s' = commands s" "sessions s' = sessions s" "leases s' = leases s"
    "follow_ups s' = follow_ups s" "dialogs s' = dialogs s" "backend_refs s' = backend_refs s"
    "migrations s' = migrations s" "ident s' = ident s" "clock s' = clock s" "writable s' = writable s"
    "maintenance s' = maintenance s" "uuids s' = uuids s" "credentials s' = credentials s"
    "uuid_pos s' = Suc (uuid_pos s)" "client_cursors s' = client_cursors s"
    "map st_id (streams s') = map st_id (streams s)"
    "stream_row_of s' j = None \<longleftrightarrow> stream_row_of s j = None"
    "events s' = events s @ [ev]" "notified s' = notified s @ [ev]" "ev_stream ev = i" "ev_type ev = ty"
    "ev_payload ev = p"
proof -
  from assms have "appendEventTx i ty p (uuids s (uuid_pos s)) (s\<lparr>uuid_pos := Suc (uuid_pos s)\<rparr>) = Inr (ev, s')"
    by (simp add: append_fresh_def uuid_apply)
  then obtain st n where ev: "ev = new_event (uuids s (uuid_pos s)) i (dec (n + 1)) ty p (clock s)" and
    s': "s' = (set_current i (dec (n + 1)) (s\<lparr>uuid_pos := Suc (uuid_pos s)\<rparr>))
      \<lparr>events := events s @ [ev], notified := notified s @ [ev]\<rparr>"
    by (rule appendEventTx_InrD) auto
  show "commands s' = commands s" "sessions s' = sessions s" "leases s' = leases s"
    "follow_ups s' = follow_ups s" "dialogs s' = dialogs s" "backend_refs s' = backend_refs s"
    "migrations s' = migrations s" "ident s' = ident s" "clock s' = clock s" "writable s' = writable s"
    "maintenance s' = maintenance s" "uuids s' = uuids s" "credentials s' = credentials s"
    "uuid_pos s' = Suc (uuid_pos s)" "client_cursors s' = client_cursors s"
    "events s' = events s @ [ev]" "notified s' = notified s @ [ev]" "ev_stream ev = i" "ev_type ev = ty"
    "ev_payload ev = p"
    by (simp_all add: s' ev set_current_def)
  show "map st_id (streams s') = map st_id (streams s)"
    by (simp add: s' set_current_def o_def if_distrib [of st_id] cong: map_cong)
  have "stream_row_of s' j = stream_row_of (set_current i (dec (n + 1)) s) j"
    by (rule stream_row_of_cong [THEN fun_cong]) (simp add: s' set_current_def)
  then show "stream_row_of s' j = None \<longleftrightarrow> stream_row_of s j = None"
    by (simp add: stream_row_of_set_current)
qed

text \<open>
  The condition under which the store's operations are expected to work: it accepts writes, its
  journal is well-formed, identifiers are fresh and every command's stream exists.
\<close>

definition store_wf :: "store \<Rightarrow> bool" where
  "store_wf s \<longleftrightarrow> ready s \<and> journal_ok s \<and> fresh_ids s \<and> commands_ok s"

lemma store_wfD: "store_wf s \<Longrightarrow> ready s" "store_wf s \<Longrightarrow> journal_ok s" "store_wf s \<Longrightarrow> fresh_ids s"
  "store_wf s \<Longrightarrow> commands_ok s"
  by (simp_all add: store_wf_def)

lemma ready_append_fresh: "append_fresh i ty p s = Inr (ev, s') \<Longrightarrow> ready s' = ready s"
  by (simp add: ready_def append_fresh_frame)

lemma commands_ok_append_fresh:
  "commands_ok s \<Longrightarrow> append_fresh i ty p s = Inr (ev, s') \<Longrightarrow> commands_ok s'"
  unfolding commands_ok_def by (auto simp: append_fresh_frame(1,17))

lemma append_fresh_wf:
  assumes "store_wf s" and "stream_row_of s i \<noteq> None"
  obtains ev s' where "append_fresh i ty p s = Inr (ev, s')" "store_wf s'"
proof -
  from assms(2) obtain st where st: "stream_row_of s i = Some st" by blast
  obtain n where n: "st_current st = dec n" using journal_okD [OF store_wfD(2) [OF assms(1)] st] by blast
  obtain ev s' where r: "append_fresh i ty p s = Inr (ev, s')" "journal_ok s'" "fresh_ids s'"
    using append_fresh_facts [OF store_wfD(2,3) [OF assms(1)] st n] by metis
  then show thesis
    using that assms(1) ready_append_fresh [OF r(1)] commands_ok_append_fresh [OF _ r(1)]
    by (simp add: store_wf_def)
qed

lemma set_command_state_sel [simp]:
  "streams (set_command_state i st s) = streams s" "events (set_command_state i st s) = events s"
  "notified (set_command_state i st s) = notified s" "uuids (set_command_state i st s) = uuids s"
  "uuid_pos (set_command_state i st s) = uuid_pos s" "clock (set_command_state i st s) = clock s"
  "ready (set_command_state i st s) = ready s"
  by (simp_all add: set_command_state_def ready_def)

lemma command_set_command_state:
  "command (set_command_state i st s) j =
     map_option (\<lambda>c. if cm_id c = i
         then c\<lparr>cm_state := st, cm_dispatches := cm_dispatches c + (if st = ''dispatched'' then 1 else 0),
                cm_updated := clock s\<rparr> else c) (command s j)"
  unfolding command_def set_command_state_def by (simp add: find_map_key)

lemma store_wf_tables:
  "streams t = streams s \<Longrightarrow> events t = events s \<Longrightarrow> uuids t = uuids s \<Longrightarrow> uuid_pos s \<le> uuid_pos t \<Longrightarrow>
   ready t = ready s \<Longrightarrow> commands_ok t \<Longrightarrow> store_wf s \<Longrightarrow> store_wf t"
  by (auto simp: store_wf_def journal_ok_def stream_ok_def events_of_def fresh_ids_def)

lemma set_command_state_wf: "store_wf s \<Longrightarrow> store_wf (set_command_state i st s)"
proof (rule store_wf_tables)
  assume "store_wf s"
  moreover have "map cm_id (commands (set_command_state i st s)) = map cm_id (commands s)"
    by (simp add: set_command_state_def)
  moreover have "stream_row_of (set_command_state i st s) = stream_row_of s"
    by (rule stream_row_of_cong) simp
  ultimately show "commands_ok (set_command_state i st s)"
    by (auto simp: store_wf_def commands_ok_def) (auto simp: set_command_state_def)
qed simp_all

lemma command_cong: "commands t = commands s \<Longrightarrow> command t = command s"
  by (simp add: command_def fun_eq_iff)

lemma transitionCommand_eq:
  assumes wf: "store_wf s" and c: "command s i = Some c" and fr: "cm_state c \<in> set expected"
  obtains ev s' where
    "transitionCommand i expected to s =
       (Inr (Some (c\<lparr>cm_state := to, cm_dispatches := cm_dispatches c + (if to = ''dispatched'' then 1 else 0),
                     cm_updated := clock s\<rparr>, ev)), s')"
    "store_wf s'" "commands s' = commands (set_command_state i to s)" "events s' = events s @ [ev]"
    "notified s' = notified s @ [ev]" "clock s' = clock s" "uuids s' = uuids s"
    "ev_stream ev = cm_stream c" "ev_type ev = ''command.state''"
    "ev_payload ev = [(''commandId'', JStr i), (''commandType'', JStr (cm_type c)), (''state'', JStr to)]"
proof -
  let ?t = "set_command_state i to s"
  have wft: "store_wf ?t" by (rule set_command_state_wf [OF wf])
  have "stream_row_of ?t (cm_stream c) = stream_row_of s (cm_stream c)"
    by (rule stream_row_of_cong [THEN fun_cong]) simp
  then have "stream_row_of ?t (cm_stream c) \<noteq> None"
    using store_wfD(4) [OF wf] command_SomeD [OF c] by (simp add: commands_ok_def)
  from append_fresh_wf [OF wft this] obtain ev s' where
    a: "append_fresh (cm_stream c) ''command.state''
      [(''commandId'', JStr i), (''commandType'', JStr (cm_type c)), (''state'', JStr to)] ?t = Inr (ev, s')"
    and wf': "store_wf s'" by blast
  note frame = append_fresh_frame [OF a]
  have "command s' i = command ?t i" by (rule command_cong [THEN fun_cong]) (rule frame(1))
  then have c': "command s' i = Some (c\<lparr>cm_state := to, cm_dispatches := cm_dispatches c + (if to = ''dispatched'' then 1 else 0),
      cm_updated := clock s\<rparr>)"
    using c command_SomeD [OF c] by (simp add: command_set_command_state)
  have "transitionCommand_tx i expected to s = Inr (Some (c\<lparr>cm_state := to,
      cm_dispatches := cm_dispatches c + (if to = ''dispatched'' then 1 else 0), cm_updated := clock s\<rparr>, ev), s')"
    using c fr a c' by (simp add: transitionCommand_tx_def tx_bind_def)
  with store_wfD(1) [OF wf] have "transitionCommand i expected to s = (Inr (Some (c\<lparr>cm_state := to,
      cm_dispatches := cm_dispatches c + (if to = ''dispatched'' then 1 else 0), cm_updated := clock s\<rparr>, ev)), s')"
    by (simp add: transitionCommand_def transaction_Inr)
  then show thesis by (rule that) (use wf' frame in simp_all)
qed

lemma transitionCommand_none:
  "ready s \<Longrightarrow> (\<forall>c. command s i = Some c \<longrightarrow> cm_state c \<notin> set expected) \<Longrightarrow>
   transitionCommand i expected to s = (Inr None, s)"
  by (simp add: transitionCommand_def transitionCommand_tx_def transaction_eq split: option.split)

text \<open>
  C8 (transition_cas). A state change is a compare-and-set: a command found in one of the expected states
  moves to the new state, counts a dispatch when that is \<open>dispatched\<close>, and journals exactly one event on its
  own stream; any other command, or none, leaves the store as it was.
\<close>

theorem transition_cas:
  assumes "store_wf s"
  shows "case command s i of
      Some c \<Rightarrow> if cm_state c \<in> set expected
        then \<exists>c' ev s'. transitionCommand i expected to s = (Inr (Some (c', ev)), s') \<and> command s' i = Some c'
          \<and> cm_state c' = to \<and> cm_dispatches c' = cm_dispatches c + (if to = ''dispatched'' then 1 else 0)
          \<and> cm_hash c' = cm_hash c \<and> cm_payload c' = cm_payload c
          \<and> (\<forall>j. j \<noteq> i \<longrightarrow> command s' j = command s j)
          \<and> events s' = events s @ [ev] \<and> notified s' = notified s @ [ev] \<and> ev_stream ev = cm_stream c
          \<and> prop_get (ev_payload ev) ''state'' = Some (JStr to) \<and> store_wf s'
        else transitionCommand i expected to s = (Inr None, s)
    | None \<Rightarrow> transitionCommand i expected to s = (Inr None, s)"
proof (cases "command s i")
  case None
  then show ?thesis using transitionCommand_none [OF store_wfD(1) [OF assms]] by simp
next
  case (Some c)
  show ?thesis
  proof (cases "cm_state c \<in> set expected")
    case False
    then show ?thesis using Some transitionCommand_none [OF store_wfD(1) [OF assms]] by simp
  next
    case True
    let ?c = "c\<lparr>cm_state := to, cm_dispatches := cm_dispatches c + (if to = ''dispatched'' then 1 else 0),
        cm_updated := clock s\<rparr>"
    obtain ev s' where r: "transitionCommand i expected to s = (Inr (Some (?c, ev)), s')" "store_wf s'"
      "commands s' = commands (set_command_state i to s)" "events s' = events s @ [ev]"
      "notified s' = notified s @ [ev]" "ev_stream ev = cm_stream c"
      "ev_payload ev = [(''commandId'', JStr i), (''commandType'', JStr (cm_type c)), (''state'', JStr to)]"
      by (rule transitionCommand_eq [OF assms Some True, where to = to])
    have cmd: "command s' j = (if j = i then Some ?c else command s j)" for j
    proof (cases "j = i")
      case True
      then show ?thesis using Some command_SomeD [OF Some]
        by (simp add: command_cong [OF r(3)] command_set_command_state)
    next
      case False
      then have "map_option (\<lambda>c. if cm_id c = i then F c else c) (command s j) = command s j" for F
        by (cases "command s j") (use command_SomeD in auto)
      with False show ?thesis by (simp add: command_cong [OF r(3)] command_set_command_state)
    qed
    have "\<exists>c' ev s'. transitionCommand i expected to s = (Inr (Some (c', ev)), s') \<and> command s' i = Some c'
          \<and> cm_state c' = to \<and> cm_dispatches c' = cm_dispatches c + (if to = ''dispatched'' then 1 else 0)
          \<and> cm_hash c' = cm_hash c \<and> cm_payload c' = cm_payload c
          \<and> (\<forall>j. j \<noteq> i \<longrightarrow> command s' j = command s j)
          \<and> events s' = events s @ [ev] \<and> notified s' = notified s @ [ev] \<and> ev_stream ev = cm_stream c
          \<and> prop_get (ev_payload ev) ''state'' = Some (JStr to) \<and> store_wf s'"
      by (rule exI [of _ ?c], rule exI [of _ ev], rule exI [of _ s'])
        (use r(1,2,4-6) in \<open>simp add: cmd r(7) prop_get_def\<close>)
    with Some True show ?thesis by simp
  qed
qed

section \<open>Acceptance\<close>

lemma insert_command_eq:
  "command s (cm_id c) = None \<Longrightarrow> stream_row_of s (cm_stream c) \<noteq> None \<Longrightarrow>
   insert_command c s = Inr ((), s\<lparr>commands := commands s @ [c]\<rparr>)"
  by (auto simp: insert_command_def command_def find_None_iff)

lemma insert_command_wf:
  assumes "store_wf s" and "command s (cm_id c) = None" and "stream_row_of s (cm_stream c) \<noteq> None"
  shows "store_wf (s\<lparr>commands := commands s @ [c]\<rparr>)"
proof (rule store_wf_tables [OF _ _ _ _ _ _ assms(1)])
  have "stream_row_of (s\<lparr>commands := commands s @ [c]\<rparr>) = stream_row_of s"
    by (rule stream_row_of_cong) simp
  moreover have "cm_id c \<notin> cm_id ` set (commands s)" using assms(2) by (auto simp: command_def find_None_iff)
  ultimately show "commands_ok (s\<lparr>commands := commands s @ [c]\<rparr>)"
    using assms(1,3) by (simp add: store_wf_def commands_ok_def)
qed (simp_all add: ready_def)

definition accepted_row :: "command_input \<Rightarrow> int \<Rightarrow> command_row" where
  "accepted_row i t =
     \<lparr>cm_id = ci_id i, cm_type = ci_type i, cm_scope = ci_scope i, cm_stream = ci_stream i,
      cm_hash = ci_hash i, cm_payload = ci_payload i, cm_state = ''accepted'', cm_dispatches = 0,
      cm_created = t, cm_updated = t\<rparr>"

lemma accepted_row_sel [simp]:
  "cm_id (accepted_row i t) = ci_id i" "cm_state (accepted_row i t) = ''accepted''"
  "cm_dispatches (accepted_row i t) = 0" "cm_hash (accepted_row i t) = ci_hash i"
  "cm_stream (accepted_row i t) = ci_stream i" "cm_payload (accepted_row i t) = ci_payload i"
  "cm_type (accepted_row i t) = ci_type i" "cm_scope (accepted_row i t) = ci_scope i"
  by (simp_all add: accepted_row_def)

lemma repeat_accept:
  "ready s \<Longrightarrow> command s (ci_id i) = Some c \<Longrightarrow> acceptCommand i s =
     (Inr (if cm_hash c = ci_hash i then Duplicate c else Conflicting), s)"
  by (simp add: acceptCommand_def acceptCommand_tx_def transaction_eq)

text \<open>The insert and the \<open>command.state\<close> event, the part common to both kinds of command.\<close>

lemma insert_and_announce:
  assumes wf: "store_wf s" and new: "command s (ci_id i) = None" and st: "stream_row_of s (ci_stream i) \<noteq> None"
  obtains ev s' where
    "insert_command (accepted_row i (clock s)) s = Inr ((), s\<lparr>commands := commands s @ [accepted_row i (clock s)]\<rparr>)"
    "append_fresh (ci_stream i) ''command.state''
       [(''commandId'', JStr (ci_id i)), (''commandType'', JStr (ci_type i)),
        (''state'', JStr ''accepted''), (''errorCode'', JNull)]
       (s\<lparr>commands := commands s @ [accepted_row i (clock s)]\<rparr>) = Inr (ev, s')"
    "store_wf s'" "commands s' = commands s @ [accepted_row i (clock s)]"
    "command s' (ci_id i) = Some (accepted_row i (clock s))" "events s' = events s @ [ev]"
    "ev_type ev = ''command.state''" "leases s' = leases s" "stream_row_of s' (ci_stream i) \<noteq> None"
proof -
  let ?c = "accepted_row i (clock s)"
  let ?t = "s\<lparr>commands := commands s @ [?c]\<rparr>"
  have ins: "insert_command ?c s = Inr ((), ?t)" by (rule insert_command_eq) (simp_all add: new st)
  have wft: "store_wf ?t" by (rule insert_command_wf [OF wf]) (simp_all add: new st)
  have stt: "stream_row_of ?t (ci_stream i) \<noteq> None" using st by (simp add: stream_row_of_def)
  obtain ev s' where a: "append_fresh (ci_stream i) ''command.state''
       [(''commandId'', JStr (ci_id i)), (''commandType'', JStr (ci_type i)),
        (''state'', JStr ''accepted''), (''errorCode'', JNull)] ?t = Inr (ev, s')" and wf': "store_wf s'"
    by (rule append_fresh_wf [OF wft stt])
  note frame = append_fresh_frame [OF a]
  have c: "command s' (ci_id i) = Some ?c" using new frame(1)
    by (simp add: command_def find_append)
  show thesis
    by (rule that [OF ins a wf' _ c]) (use frame stt in simp_all)
qed

text \<open>
  C9 (accept_once). A new command on an existing stream that carries no lease change is accepted: one row in
  state \<open>accepted\<close> that has not been dispatched and exactly one journalled event. Submitting its id again changes
  nothing: with the same semantic hash the answer is a duplicate of that row, with another it is a conflict. (Commands with
  a lease change are the subject of \<open>accept_lease_atomic\<close>.)
\<close>

theorem accept_once:
  assumes "store_wf s" and "stream_row_of s (ci_stream i) \<noteq> None" and "ci_lease i = None"
    and "command s (ci_id i) = None"
  shows "\<exists>c ev s'. acceptCommand i s = (Inr (Accepted c ev), s') \<and> store_wf s'
     \<and> command s' (ci_id i) = Some c \<and> cm_state c = ''accepted'' \<and> cm_dispatches c = 0
     \<and> cm_payload c = ci_payload i \<and> commands s' = commands s @ [c] \<and> events s' = events s @ [ev]
     \<and> (\<forall>j. ci_id j = ci_id i \<longrightarrow> acceptCommand j s' =
          (Inr (if ci_hash j = ci_hash i then Duplicate c else Conflicting), s'))"
proof -
  let ?c = "accepted_row i (clock s)"
  obtain ev s' where r:
    "insert_command ?c s = Inr ((), s\<lparr>commands := commands s @ [?c]\<rparr>)"
    "append_fresh (ci_stream i) ''command.state''
       [(''commandId'', JStr (ci_id i)), (''commandType'', JStr (ci_type i)),
        (''state'', JStr ''accepted''), (''errorCode'', JNull)]
       (s\<lparr>commands := commands s @ [?c]\<rparr>) = Inr (ev, s')"
    "store_wf s'" "commands s' = commands s @ [?c]"
    "command s' (ci_id i) = Some ?c" "events s' = events s @ [ev]"
    by (rule insert_and_announce [OF assms(1,4,2)])
  have "acceptCommand_tx i s = Inr (Accepted ?c ev, s')"
    using assms(3,4) r(1,2,5) by (simp add: acceptCommand_tx_def tx_bind_def accepted_row_def)
  then have "acceptCommand i s = (Inr (Accepted ?c ev), s')"
    using store_wfD(1) [OF assms(1)] by (simp add: acceptCommand_def transaction_Inr)
  moreover have "acceptCommand j s' = (Inr (if ci_hash j = ci_hash i then Duplicate ?c else Conflicting), s')"
    if "ci_id j = ci_id i" for j
    using repeat_accept [OF store_wfD(1) [OF r(3)], of j ?c] r(5) that by auto
  ultimately show ?thesis using r by (intro exI [of _ ?c] exI [of _ ev] exI [of _ s']) simp
qed

lemma foreign_key_io: "mapError (Sqlite_error ''FOREIGN KEY constraint failed'') s
    = (Store_error Io ''durable store io'', s\<lparr>writable := False, last_failure := Some Io\<rparr>)"
proof -
  have "message_code (error_message (Sqlite_error ''FOREIGN KEY constraint failed'')) = Io" by code_simp
  then show ?thesis by (simp add: mapError_def Let_def code_text_def)
qed

text \<open>What a lease change of a command asks for, and when the store allows it.\<close>

definition lease_allowed :: "store \<Rightarrow> lease_mutation \<Rightarrow> int \<Rightarrow> bool" where
  "lease_allowed s m now \<longleftrightarrow>
     (case lm_action m of
        Takeover \<Rightarrow> True
      | Acquire \<Rightarrow> may_acquire s (lm_scope m) (lm_install m) now
      | Release \<Rightarrow> (case lease s (lm_scope m) of None \<Rightarrow> False
                   | Some l \<Rightarrow> ls_install l = lm_install m \<and> ls_conn l = lm_conn m))"

definition lease_made :: "store \<Rightarrow> lease_mutation \<Rightarrow> bool" where
  "lease_made t m \<longleftrightarrow>
     (case lease t (lm_scope m) of
        None \<Rightarrow> lm_action m = Release
      | Some l \<Rightarrow> lm_action m \<noteq> Release \<and> ls_install l = lm_install m \<and> ls_conn l = lm_conn m)"

definition lease_refusal :: "lease_mutation \<Rightarrow> exn" where
  "lease_refusal m = Store_error Conflict
     (if lm_action m = Release then ''controller release is not authorized'' else ''controller already active'')"

lemma lease_change_refused:
  assumes "\<not> lease_allowed s m now" and "lm_now m = Some now"
  shows "applyLeaseMutationTx m s = Inl (lease_refusal m)"
proof (cases "lm_action m")
  case Release
  with assms(1) show ?thesis
    by (auto simp: applyLeaseMutationTx_def Let_def lease_refusal_def lease_allowed_def split: option.split)
next
  case Acquire
  with assms show ?thesis
    using acquire_refused_tx [of m s now] by (simp add: lease_allowed_def lease_refusal_def)
qed (use assms in \<open>simp add: lease_allowed_def\<close>)

lemma lease_change_allowed:
  assumes "leases_ok s" and "fresh_lease s" and "lease_allowed s m now" and "lm_now m = Some now"
  obtains l t where "applyLeaseMutationTx m s = Inr (l, t)" "lease_made t m"
    "l = None \<longleftrightarrow> lm_action m = Release" "leases t \<noteq> leases s"
proof (cases "lm_action m = Release")
  case True
  with assms(3) obtain k where k: "lease s (lm_scope m) = Some k" "ls_install k = lm_install m" "ls_conn k = lm_conn m"
    by (auto simp: lease_allowed_def split: option.splits)
  let ?f = "\<lambda>k. k\<lparr>ls_revoked := Some now, ls_updated := now\<rparr>"
  let ?t = "update_leases (\<lambda>j. ls_id j = ls_id k) ?f s"
  have none: "lease ?t (lm_scope m) = None"
    by (rule lease_after_revoke [OF assms(1) k(1)]) simp_all
  have ne: "leases ?t \<noteq> leases s"
  proof
    assume "leases ?t = leases s"
    then have "lease ?t (lm_scope m) = lease s (lm_scope m)" by (simp add: lease_def)
    with none k(1) show False by simp
  qed
  have "applyLeaseMutationTx m s = Inr (None, ?t)"
    using True k lease_SomeD [OF k(1)] assms(4) by (simp add: applyLeaseMutationTx_def Let_def)
  then show thesis by (rule that) (simp_all add: lease_made_def none True ne)
next
  case False
  with assms(3) have "lm_action m = Takeover \<or> may_acquire s (lm_scope m) (lm_install m) now"
    by (cases "lm_action m") (simp_all add: lease_allowed_def)
  from applyLeaseMutationTx_acquire [OF assms(1,2) False assms(4) this] obtain l t where
    l: "applyLeaseMutationTx m s = Inr (Some l, t)" "lease t (lm_scope m) = Some l"
      "ls_id l = uuids s (uuid_pos s)" "ls_install l = lm_install m" "ls_conn l = lm_conn m" by blast
  have "l \<in> set (leases t)" using lease_SomeD [OF l(2)] by simp
  then have "leases t \<noteq> leases s" using assms(2) l(3) by (auto simp: fresh_lease_def)
  with l show thesis by (intro that [of "Some l" t]) (simp_all add: lease_made_def False)
qed

text \<open>
  C10 (accept_lease_atomic). A new command that carries a lease change - an acquire, a takeover or a
  release - is all or nothing. When the change is not allowed, nothing is recorded. When it is allowed and the
  command's stream exists, the lease is granted (or, by a release, given up), the command is recorded and
  exactly two events are journalled, the command's state and the controller's. When the insert of the command then
  fails because its stream does not exist, the lease change the same transaction has already made is undone: no
  table differs from before; the store only stops accepting writes.
\<close>

theorem accept_lease_atomic:
  assumes "store_wf s" and "leases_ok s" and "fresh_lease s" and "command s (ci_id i) = None"
    and "ci_lease i = Some m" and "lm_now m = Some now"
  shows "if \<not> lease_allowed s m now then acceptCommand i s = (Inl (lease_refusal m), s)
    else \<exists>l t. applyLeaseMutationTx m s = Inr (l, t) \<and> leases t \<noteq> leases s \<and> lease_made t m
      \<and> (if stream_row_of s (ci_stream i) = None
         then acceptCommand i s = (Inl (Store_error Io ''durable store io''), s\<lparr>writable := False, last_failure := Some Io\<rparr>)
         else \<exists>c ev ev2 s'. acceptCommand i s = (Inr (Accepted c ev), s') \<and> store_wf s'
           \<and> commands s' = commands s @ [c] \<and> command s' (ci_id i) = Some c \<and> cm_state c = ''accepted''
           \<and> leases s' = leases t \<and> lease_made s' m \<and> events s' = events s @ [ev, ev2]
           \<and> ev_type ev = ''command.state'' \<and> ev_type ev2 = ''controller.state''
           \<and> Inr (ev_payload ev2) = controller_payload (ci_scope i) (lm_action m) l)"
proof (cases "lease_allowed s m now")
  case False
  with lease_change_refused [OF False assms(6)] show ?thesis using assms(4,5) store_wfD(1) [OF assms(1)]
    by (simp add: acceptCommand_def acceptCommand_tx_def transaction_eq tx_bind_def mapError_def lease_refusal_def)
next
  case True
  obtain l t where l: "applyLeaseMutationTx m s = Inr (l, t)" "lease_made t m"
    "l = None \<longleftrightarrow> lm_action m = Release" "leases t \<noteq> leases s"
    by (rule lease_change_allowed [OF assms(2,3) True assms(6)])
  note frame = applyLeaseMutationTx_frame [OF l(1)]
  have st: "stream_row_of t = stream_row_of s" by (rule stream_row_of_cong) (rule frame(2))
  have cmd: "command t = command s" by (rule command_cong) (rule frame(1))
  have "if stream_row_of s (ci_stream i) = None
     then acceptCommand i s = (Inl (Store_error Io ''durable store io''), s\<lparr>writable := False, last_failure := Some Io\<rparr>)
     else \<exists>c ev ev2 s'. acceptCommand i s = (Inr (Accepted c ev), s') \<and> store_wf s'
       \<and> commands s' = commands s @ [c] \<and> command s' (ci_id i) = Some c \<and> cm_state c = ''accepted''
       \<and> leases s' = leases t \<and> lease_made s' m \<and> events s' = events s @ [ev, ev2]
       \<and> ev_type ev = ''command.state'' \<and> ev_type ev2 = ''controller.state''
       \<and> Inr (ev_payload ev2) = controller_payload (ci_scope i) (lm_action m) l"
  proof (cases "stream_row_of s (ci_stream i) = None")
    case none: True
    have "\<not> (\<exists>d \<in> set (commands t). cm_id d = ci_id i)"
      using assms(4) frame(1) by (auto simp: command_def find_None_iff)
    then have "acceptCommand_tx i s = Inl (Sqlite_error ''FOREIGN KEY constraint failed'')"
      using assms(4,5) l(1) none st by (simp add: acceptCommand_tx_def tx_bind_def insert_command_def)
    with none show ?thesis using store_wfD(1) [OF assms(1)]
      by (simp add: acceptCommand_def transaction_eq foreign_key_io)
  next
    case False
    let ?c = "accepted_row i (clock t)"
    have wft: "store_wf t"
      using frame store_wfD(4) [OF assms(1)]
      by (intro store_wf_tables [OF _ _ _ _ _ _ assms(1)]) (simp_all add: commands_ok_def st)
    have pre: "command t (ci_id i) = None" "stream_row_of t (ci_stream i) \<noteq> None"
      using assms(4) False by (simp_all add: cmd st)
    obtain ev u where r:
      "insert_command ?c t = Inr ((), t\<lparr>commands := commands t @ [?c]\<rparr>)"
      "append_fresh (ci_stream i) ''command.state''
         [(''commandId'', JStr (ci_id i)), (''commandType'', JStr (ci_type i)),
          (''state'', JStr ''accepted''), (''errorCode'', JNull)]
         (t\<lparr>commands := commands t @ [?c]\<rparr>) = Inr (ev, u)"
      "store_wf u" "commands u = commands t @ [?c]" "command u (ci_id i) = Some ?c" "events u = events t @ [ev]"
      "ev_type ev = ''command.state''" "leases u = leases t" "stream_row_of u (ci_stream i) \<noteq> None"
      by (rule insert_and_announce [OF wft pre])
    obtain p where p: "controller_payload (ci_scope i) (lm_action m) l = Inr p"
      using l(3) by (cases l) (simp_all add: controller_payload_def)
    obtain ev2 s' where a: "append_fresh (ci_stream i) ''controller.state'' p u = Inr (ev2, s')" "store_wf s'"
      by (rule append_fresh_wf [OF r(3,9)])
    note fr = append_fresh_frame [OF a(1)]
    have c': "command s' (ci_id i) = Some ?c" using r(5) by (simp add: command_cong [OF fr(1)])
    have "acceptCommand_tx i s = Inr (Accepted ?c ev, s')"
      using assms(4,5) l(1) r(1,2) p a(1) c' by (simp add: acceptCommand_tx_def tx_bind_def accepted_row_def)
    then have acc: "acceptCommand i s = (Inr (Accepted ?c ev), s')"
      using store_wfD(1) [OF assms(1)] by (simp add: acceptCommand_def transaction_Inr)
    have ls: "leases s' = leases t" using fr(3) r(8) by simp
    then have made: "lease_made s' m" using l(2) by (simp add: lease_made_def lease_def)
    have evs: "events s' = events s @ [ev, ev2]" "commands s' = commands s @ [?c]"
      using fr(18) r(6) frame(3) fr(1) r(4) frame(1) by simp_all
    have "\<exists>c ev ev2 s'. acceptCommand i s = (Inr (Accepted c ev), s') \<and> store_wf s'
       \<and> commands s' = commands s @ [c] \<and> command s' (ci_id i) = Some c \<and> cm_state c = ''accepted''
       \<and> leases s' = leases t \<and> lease_made s' m \<and> events s' = events s @ [ev, ev2]
       \<and> ev_type ev = ''command.state'' \<and> ev_type ev2 = ''controller.state''
       \<and> Inr (ev_payload ev2) = controller_payload (ci_scope i) (lm_action m) l"
      by (rule exI [of _ ?c], rule exI [of _ ev], rule exI [of _ ev2], rule exI [of _ s'])
        (simp add: acc a(2) evs c' ls made r(7) fr(21,22) p)
    then show ?thesis by (simp only: if_not_P [OF False])
  qed
  with True l(1,2,4) show ?thesis
    by (simp only: not_True_eq_False if_False simp_thms) blast
qed

section \<open>Recovery\<close>

definition uncertain :: "command_row \<Rightarrow> bool" where
  "uncertain c \<longleftrightarrow> cm_state c = ''dispatched'' \<or> cm_state c = ''running''"

definition made_indeterminate :: "int \<Rightarrow> command_row \<Rightarrow> command_row" where
  "made_indeterminate t c = c\<lparr>cm_state := ''indeterminate'', cm_updated := t\<rparr>"

lemma mark_loop_run:
  assumes "store_wf s" and "distinct (map cm_id cs)" and "\<forall>c \<in> set cs. command s (cm_id c) = Some c"
  shows "\<exists>out s'. mark_loop cs changed s = (Inr (changed @ out), s') \<and> store_wf s' \<and> clock s' = clock s
     \<and> map cm_id out = map cm_id cs
     \<and> commands s' = map (\<lambda>c. if cm_id c \<in> set (map cm_id cs) then made_indeterminate (clock s) c else c) (commands s)"
  using assms
proof (induction cs arbitrary: changed s)
  case Nil
  then show ?case by simp
next
  case (Cons c cs)
  have c: "command s (cm_id c) = Some c" using Cons.prems(3) by simp
  let ?c' = "c\<lparr>cm_state := ''indeterminate'', cm_dispatches := cm_dispatches c + (if ''indeterminate'' = ''dispatched'' then 1 else 0),
      cm_updated := clock s\<rparr>"
  obtain ev s1 where t: "transitionCommand (cm_id c) [cm_state c] ''indeterminate'' s = (Inr (Some (?c', ev)), s1)"
    and wf1: "store_wf s1" and c1: "commands s1 = commands (set_command_state (cm_id c) ''indeterminate'' s)"
    and k1: "clock s1 = clock s"
    by (rule transitionCommand_eq [OF Cons.prems(1) c, where to = "''indeterminate''" and expected = "[cm_state c]"]) auto
  have cmds1: "commands s1 = map (\<lambda>d. if cm_id d = cm_id c then made_indeterminate (clock s) d else d) (commands s)"
    by (simp add: c1 set_command_state_def made_indeterminate_def)
  have "command s1 (cm_id d) = Some d" if "d \<in> set cs" for d
  proof -
    have "cm_id d \<noteq> cm_id c" using distinct_map_ConsD [OF Cons.prems(2) that] .
    then show ?thesis using Cons.prems(3) that
      by (simp add: command_cong [OF c1] command_set_command_state)
  qed
  with Cons.IH [OF wf1, of "changed @ [?c']"] Cons.prems(2) obtain out s' where
    r: "mark_loop cs (changed @ [?c']) s1 = (Inr (changed @ [?c'] @ out), s')" "store_wf s'" "clock s' = clock s"
      "map cm_id out = map cm_id cs"
      "commands s' = map (\<lambda>d. if cm_id d \<in> set (map cm_id cs) then made_indeterminate (clock s) d else d) (commands s1)"
    by (auto simp: k1)
  have ids: "cm_id c \<notin> set (map cm_id cs)" using Cons.prems(2) by simp
  have "commands s' = map (\<lambda>d. if cm_id d \<in> set (map cm_id (c # cs)) then made_indeterminate (clock s) d else d) (commands s)"
    unfolding r(5) cmds1 map_map o_def using ids by (intro map_cong) (auto simp: made_indeterminate_def)
  with t r show ?case by (intro exI [of _ "?c' # out"] exI [of _ s']) simp
qed

text \<open>
  C11 (recovery_marks). After a restart every command that may have been in flight becomes indeterminate,
  none other changes, and what is left to recover has not been dispatched: nothing is dispatched twice.
\<close>

theorem recovery_marks:
  assumes "store_wf s"
  shows "\<exists>out s'. markUncertainIndeterminate s = (Inr out, s') \<and> store_wf s'
     \<and> commands s' = map (\<lambda>c. if uncertain c then made_indeterminate (clock s) c else c) (commands s)
     \<and> set (map cm_id out) = cm_id ` {c \<in> set (commands s). uncertain c}
     \<and> (\<forall>c \<in> set (recoveryCandidates s'). cm_state c = ''accepted'' \<and> c \<in> set (commands s))"
proof -
  let ?cs = "filter (\<lambda>c. cm_state c = ''dispatched'' \<or> cm_state c = ''running'') (recoveryCandidates s)"
  have sub: "set ?cs = {c \<in> set (commands s). uncertain c}"
    by (auto simp: recoveryCandidates_def uncertain_def)
  have d: "distinct (map cm_id (commands s))" using store_wfD(4) [OF assms] by (simp add: commands_ok_def)
  then have "inj_on cm_id (set (commands s))" "distinct (commands s)" by (simp_all add: distinct_map)
  then have dcs: "distinct (map cm_id ?cs)"
    by (simp add: distinct_map recoveryCandidates_def) (auto intro: inj_on_subset)
  have "\<forall>c \<in> set ?cs. command s (cm_id c) = Some c"
    using command_unique [OF store_wfD(4) [OF assms]] unfolding sub by blast
  from mark_loop_run [OF assms dcs this, of "[]"] obtain out s' where
    r: "mark_loop ?cs [] s = (Inr out, s')" "store_wf s'" "map cm_id out = map cm_id ?cs"
    "commands s' = map (\<lambda>c. if cm_id c \<in> set (map cm_id ?cs) then made_indeterminate (clock s) c else c) (commands s)"
    by auto
  have "cm_id c \<in> set (map cm_id ?cs) \<longleftrightarrow> uncertain c" if "c \<in> set (commands s)" for c
  proof -
    have "cm_id c \<in> set (map cm_id ?cs) \<longleftrightarrow> (\<exists>e \<in> set (commands s). uncertain e \<and> cm_id e = cm_id c)"
      unfolding set_map sub by (auto intro: rev_image_eqI)
    then show ?thesis using that inj_onD [OF \<open>inj_on cm_id (set (commands s))\<close>] by blast
  qed
  then have cmds: "commands s' = map (\<lambda>c. if uncertain c then made_indeterminate (clock s) c else c) (commands s)"
    unfolding r(4) by (intro map_cong) auto
  moreover have "cm_state c = ''accepted'' \<and> c \<in> set (commands s)" if "c \<in> set (recoveryCandidates s')" for c
    using that by (auto simp: recoveryCandidates_def cmds uncertain_def made_indeterminate_def split: if_splits)
  moreover have "set (map cm_id out) = cm_id ` {c \<in> set (commands s). uncertain c}"
    unfolding r(3) set_map sub ..
  ultimately show ?thesis using r(1,2)
    by (intro exI [of _ out] exI [of _ s']) (simp add: markUncertainIndeterminate_def)
qed

section \<open>Instances\<close>

lemma demo_store_wf: "store_wf demo_store"
  by (simp add: store_wf_def demo_store_ok commands_ok_def)

definition demo_command :: command_input where
  "demo_command = \<lparr>ci_id = ''c1'', ci_type = ''prompt'', ci_scope = ''host'', ci_stream = ''host:h'',
     ci_hash = ''x'', ci_payload = [], ci_lease = None\<rparr>"

definition demo_busy :: store where
  "demo_busy = demo_store\<lparr>commands :=
     [\<lparr>cm_id = ''c1'', cm_type = ''prompt'', cm_scope = ''host'', cm_stream = ''host:h'', cm_hash = ''x'',
       cm_payload = [], cm_state = ''dispatched'', cm_dispatches = 1, cm_created = 1, cm_updated = 2\<rparr>]\<rparr>"

lemma demo_busy_wf: "store_wf demo_busy"
  by (rule store_wf_tables [OF _ _ _ _ _ _ demo_store_wf])
    (simp_all add: demo_busy_def commands_ok_def ready_def [of "_\<lparr>commands := _\<rparr>"] stream_row_of_def
      demo_store_sel(5) [unfolded ready_def])

theorem transition_cas_witness:
  "\<exists>c' ev s'. transitionCommand ''c1'' [''dispatched''] ''running'' demo_busy = (Inr (Some (c', ev)), s')
     \<and> cm_state c' = ''running'' \<and> store_wf s'"
  using transition_cas [OF demo_busy_wf, of "''c1''" "[''dispatched'']" "''running''"]
  by (auto simp: demo_busy_def command_def)

theorem accept_once_witness:
  "\<exists>c ev s'. acceptCommand demo_command demo_store = (Inr (Accepted c ev), s')
     \<and> acceptCommand demo_command s' = (Inr (Duplicate c), s')"
  using accept_once [OF demo_store_wf, of demo_command]
  by (force simp: demo_command_def stream_row_of_def command_def)

definition demo_lease_command :: "lease_action \<Rightarrow> string \<Rightarrow> command_input" where
  "demo_lease_command act st = demo_command\<lparr>ci_stream := st, ci_lease := Some
     \<lparr>lm_action = act, lm_scope = ''host'', lm_install = ''i'', lm_conn = ''k'', lm_now = Some 0\<rparr>\<rparr>"

theorem accept_lease_atomic_witness:
  "(\<exists>c ev s'. acceptCommand (demo_lease_command Acquire ''host:h'') demo_store = (Inr (Accepted c ev), s')
      \<and> store_wf s' \<and> length (events s') = Suc (Suc (length (events demo_store))))
   \<and> acceptCommand (demo_lease_command Release ''host:h'') demo_store
       = (Inl (Store_error Conflict ''controller release is not authorized''), demo_store)
   \<and> acceptCommand (demo_lease_command Acquire ''nowhere'') demo_store
       = (Inl (Store_error Io ''durable store io''), demo_store\<lparr>writable := False, last_failure := Some Io\<rparr>)"
proof -
  have ok: "leases_ok demo_store" "fresh_lease demo_store" "lease demo_store sc = None" for sc
    by (simp_all add: leases_ok_def open_leases_def fresh_lease_def lease_def)
  have new: "command demo_store (ci_id (demo_lease_command act st)) = None" for act st by (simp add: command_def)
  have lm: "ci_lease (demo_lease_command act st)
      = Some \<lparr>lm_action = act, lm_scope = ''host'', lm_install = ''i'', lm_conn = ''k'', lm_now = Some 0\<rparr>"
    "ci_stream (demo_lease_command act st) = st" for act st by (simp_all add: demo_lease_command_def)
  have strs: "stream_row_of demo_store ''host:h'' \<noteq> None" "stream_row_of demo_store ''nowhere'' = None"
    by (simp_all add: stream_row_of_def)
  note any = accept_lease_atomic [OF demo_store_wf ok(1,2) new lm(1), simplified lm(2) lease_mutation.select_convs, OF refl]
  show ?thesis
    using any [of Acquire "''host:h''"] any [of Release "''host:h''"] any [of Acquire "''nowhere''"] strs
    by (auto simp: lease_allowed_def may_acquire_def ok(3) lease_refusal_def)
qed

theorem recovery_marks_witness:
  "\<exists>out s'. markUncertainIndeterminate demo_busy = (Inr out, s')
     \<and> (\<forall>c \<in> set (recoveryCandidates s'). cm_state c = ''accepted'')"
  using recovery_marks [OF demo_busy_wf] by blast

end
