(* ===== verification/Store_Queue.thy ===== *)
theory Store_Queue
  imports Store_Commands
begin

text \<open>
  The follow-up queue of a session (\<open>follow_up_queue\<close> in core/store.ts): messages waiting for the
  agent, claimed in order, finished or put back, each change announced on the session's
  stream and mirrored as \<open>queueCount\<close> in the session summary.
\<close>

section \<open>Operations\<close>

definition queued_rows :: "store \<Rightarrow> string \<Rightarrow> queue_row list" where
  "queued_rows s i = filter (\<lambda>q. qu_session q = i \<and> qu_state q = Queued) (follow_ups s)"

definition listFollowUps :: "store \<Rightarrow> string \<Rightarrow> queue_row list" where
  "listFollowUps s i = order_by (\<lambda>a b. qu_pos a < qu_pos b) (queued_rows s i)"

definition queue_item_json :: "nat \<Rightarrow> queue_row \<Rightarrow> json" where
  "queue_item_json n q = JObj
     [(''queueItemId'', JStr (qu_id q)), (''position'', JNum (int n + 1)), (''message'', JStr (qu_message q)),
      (''attachmentIds'', JArr (map JStr (qu_attach q))), (''createdAt'', JStr (isoTime (qu_created q)))]"

definition queue_items :: "queue_row list \<Rightarrow> obj" where
  "queue_items qs =
     [(''items'', JArr (map (\<lambda>(n, q). queue_item_json n q) (enumerate 0 qs))),
      (''queueCount'', JNum (int (length qs)))]"

definition emitQueueStateTx :: "string \<Rightarrow> string \<Rightarrow> obj \<Rightarrow> unit tx" where
  "emitQueueStateTx i ty extra s =
     (let items = listFollowUps s i in
      tx_bind (append_fresh (session_stream i) ty
        (spread (spread [(''sessionId'', JStr i)] extra) (queue_items items))) (\<lambda>_.
      tx_bind (if ty \<noteq> ''queue.snapshot''
               then tx_bind (append_fresh (session_stream i) ''queue.snapshot''
                      ((''sessionId'', JStr i) # queue_items items)) (\<lambda>_. tx_return ())
               else tx_return ()) (\<lambda>_ t.
        let prior = (case sessionState t i of None \<Rightarrow> [(''sessionId'', JStr i)] | Some x \<Rightarrow> x);
            nxt = spread prior [(''queueCount'', JNum (int (length items))), (''updatedAt'', JNum (clock t))] in
        tx_bind identity (\<lambda>(h, _).
        tx_bind (append_fresh (host_stream h) ''session.summary''
          (spread nxt [(''changedKeys'', JArr [JStr ''queueCount''])])) (\<lambda>_. tx_return ()))
        (set_session_state i nxt t))) s)"

definition insert_follow_up :: "queue_row \<Rightarrow> unit tx" where
  "insert_follow_up q s =
     (if \<exists>r \<in> set (follow_ups s). qu_id r = qu_id q
      then Inl (Sqlite_error ''UNIQUE constraint failed: follow_up_queue.queue_item_id'')
      else if \<exists>r \<in> set (follow_ups s). qu_session r = qu_session q \<and> qu_pos r = qu_pos q
      then Inl (Sqlite_error ''UNIQUE constraint failed: follow_up_queue.session_id, follow_up_queue.position'')
      else if \<not> sessionExists s (qu_session q)
      then Inl (Sqlite_error ''FOREIGN KEY constraint failed'')
      else Inr ((), s\<lparr>follow_ups := follow_ups s @ [q]\<rparr>))"

definition next_position :: "store \<Rightarrow> string \<Rightarrow> nat" where
  "next_position s i = fold max (map qu_pos (filter (\<lambda>q. qu_session q = i) (follow_ups s))) 0 + 1"

text \<open>A given identifier, or one drawn; an empty string given is kept (\<open>??\<close>).\<close>

definition given_or_uuid :: "string option \<Rightarrow> string tx" where
  "given_or_uuid i = (case i of None \<Rightarrow> uuid | Some x \<Rightarrow> tx_return x)"

definition enqueueFollowUp_tx :: "string \<Rightarrow> string \<Rightarrow> string list \<Rightarrow> string option \<Rightarrow> queue_row tx" where
  "enqueueFollowUp_tx i msg atts qid s =
     (if length (queued_rows s i) \<ge> 10 then Inl (Store_error Full ''queue_full'')
      else tx_bind (given_or_uuid qid) (\<lambda>k t.
        let q = \<lparr>qu_id = k, qu_session = i, qu_message = msg, qu_attach = atts, qu_state = Queued,
                  qu_pos = next_position t i, qu_created = clock t, qu_updated = clock t\<rparr> in
        tx_bind (insert_follow_up q) (\<lambda>_.
        tx_bind (emitQueueStateTx i ''turn.queued''
          [(''sessionId'', JStr i), (''queueItemId'', JStr k), (''position'', JNum (int (qu_pos q)))])
          (\<lambda>_. tx_return q)) t) s)"

definition enqueueFollowUp :: "string \<Rightarrow> string \<Rightarrow> string list \<Rightarrow> string option \<Rightarrow> store \<Rightarrow> (exn + queue_row) \<times> store" where
  "enqueueFollowUp i msg atts qid = transaction (enqueueFollowUp_tx i msg atts qid)"

definition delete_follow_ups :: "(queue_row \<Rightarrow> bool) \<Rightarrow> store \<Rightarrow> store" where
  "delete_follow_ups P s = s\<lparr>follow_ups := filter (\<lambda>q. \<not> P q) (follow_ups s)\<rparr>"

definition set_queue_state :: "(queue_row \<Rightarrow> bool) \<Rightarrow> queue_state \<Rightarrow> store \<Rightarrow> store" where
  "set_queue_state P st s =
     s\<lparr>follow_ups := map (\<lambda>q. if P q then q\<lparr>qu_state := st, qu_updated := clock s\<rparr> else q) (follow_ups s)\<rparr>"

definition removeFollowUp :: "string \<Rightarrow> string \<Rightarrow> store \<Rightarrow> (exn + queue_row) \<times> store" where
  "removeFollowUp i k =
     transaction (\<lambda>s.
       case find (\<lambda>q. qu_id q = k) (listFollowUps s i) of
         None \<Rightarrow> Inl (Store_error Not_found ''queue_item_not_found'')
       | Some q \<Rightarrow>
           tx_bind (emitQueueStateTx i ''queue.snapshot'' [(''removedQueueItemId'', JStr k)]) (\<lambda>_. tx_return q)
             (delete_follow_ups (\<lambda>r. qu_id r = k \<and> qu_state r = Queued) s))"

definition clearFollowUps :: "string \<Rightarrow> store \<Rightarrow> (exn + queue_row list) \<times> store" where
  "clearFollowUps i =
     transaction (\<lambda>s.
       let items = listFollowUps s i in
       tx_bind (emitQueueStateTx i ''queue.snapshot'' [(''cleared'', JBool True)]) (\<lambda>_. tx_return items)
         (delete_follow_ups (\<lambda>r. qu_session r = i \<and> qu_state r = Queued) s))"

definition claimNextFollowUp_tx :: "string \<Rightarrow> queue_row option tx" where
  "claimNextFollowUp_tx i s =
     (case listFollowUps s i of
        [] \<Rightarrow> Inr (None, s)
      | q # _ \<Rightarrow>
          if length (filter (\<lambda>r. qu_id r = qu_id q \<and> qu_state r = Queued) (follow_ups s)) \<noteq> 1
          then Inr (None, set_queue_state (\<lambda>r. qu_id r = qu_id q \<and> qu_state r = Queued) Dispatching s)
          else tx_bind (emitQueueStateTx i ''queue.snapshot'' [(''dispatchedQueueItemId'', JStr (qu_id q))])
                 (\<lambda>_. tx_return (Some (q\<lparr>qu_state := Dispatching\<rparr>)))
                 (set_queue_state (\<lambda>r. qu_id r = qu_id q \<and> qu_state r = Queued) Dispatching s))"

definition claimNextFollowUp :: "string \<Rightarrow> store \<Rightarrow> (exn + queue_row option) \<times> store" where
  "claimNextFollowUp i = transaction (claimNextFollowUp_tx i)"

definition finishFollowUp_tx :: "string \<Rightarrow> bool \<Rightarrow> unit tx" where
  "finishFollowUp_tx k requeue s =
     (case find (\<lambda>r. qu_id r = k \<and> qu_state r = Dispatching) (follow_ups s) of
        None \<Rightarrow> Inr ((), s)
      | Some r \<Rightarrow>
          emitQueueStateTx (qu_session r) ''queue.snapshot''
            [(if requeue then ''recoveredQueueItemId'' else ''completedQueueItemId'', JStr k)]
            (if requeue then set_queue_state (\<lambda>q. qu_id q = k) Queued s
             else delete_follow_ups (\<lambda>q. qu_id q = k) s))"

definition finishFollowUp :: "string \<Rightarrow> bool \<Rightarrow> store \<Rightarrow> (exn + unit) \<times> store" where
  "finishFollowUp k requeue = transaction (finishFollowUp_tx k requeue)"

definition recoverDispatchingFollowUps :: "store \<Rightarrow> (exn + nat) \<times> store" where
  "recoverDispatchingFollowUps =
     transaction (\<lambda>s. Inr (length (filter (\<lambda>q. qu_state q = Dispatching) (follow_ups s)),
       set_queue_state (\<lambda>q. qu_state q = Dispatching) Queued s))"

section \<open>Invariant\<close>

definition queue_ok :: "store \<Rightarrow> bool" where
  "queue_ok s \<longleftrightarrow> distinct (map qu_id (follow_ups s))
     \<and> distinct (map (\<lambda>q. (qu_session q, qu_pos q)) (follow_ups s))"

text \<open>The host is identified and the session exists with both streams it is announced on.\<close>

definition session_live :: "store \<Rightarrow> string \<Rightarrow> bool" where
  "session_live s i \<longleftrightarrow> sessionExists s i \<and> stream_row_of s (session_stream i) \<noteq> None
     \<and> (\<exists>h g. ident s = Some (h, g) \<and> stream_row_of s (host_stream h) \<noteq> None)"

section \<open>Announcing\<close>

lemma set_session_state_sel [simp]:
  "streams (set_session_state i st s) = streams s" "events (set_session_state i st s) = events s"
  "notified (set_session_state i st s) = notified s" "uuids (set_session_state i st s) = uuids s"
  "uuid_pos (set_session_state i st s) = uuid_pos s" "clock (set_session_state i st s) = clock s"
  "commands (set_session_state i st s) = commands s" "follow_ups (set_session_state i st s) = follow_ups s"
  "leases (set_session_state i st s) = leases s" "ident (set_session_state i st s) = ident s"
  "dialogs (set_session_state i st s) = dialogs s"
  "ready (set_session_state i st s) = ready s"
  by (simp_all add: set_session_state_def ready_def)

lemma session_row_of_set:
  "session_row_of (set_session_state i st s) j =
     map_option (\<lambda>r. if sn_id r = i then r\<lparr>sn_state := st, sn_updated := clock s\<rparr> else r) (session_row_of s j)"
  unfolding session_row_of_def set_session_state_def by (simp add: find_map_key)

lemma session_row_of_SomeD: "session_row_of s i = Some r \<Longrightarrow> r \<in> set (sessions s) \<and> sn_id r = i"
  unfolding session_row_of_def using find_SomeD by fast

lemma session_row_of_cong: "sessions s = sessions t \<Longrightarrow> session_row_of s = session_row_of t"
  by (simp add: session_row_of_def fun_eq_iff)

lemma sessionState_set:
  "sessionState (set_session_state i st s) j =
     (if j = i then map_option (\<lambda>_. st) (sessionState s i) else sessionState s j)"
proof (cases "session_row_of s j")
  case (Some r)
  with session_row_of_SomeD [OF Some] show ?thesis by (auto simp: sessionState_def session_row_of_set)
qed (auto simp: sessionState_def session_row_of_set)

lemma sessionExists_set [simp]: "sessionExists (set_session_state i st s) = sessionExists s"
  by (simp add: sessionExists_def session_row_of_set fun_eq_iff)

lemma set_session_state_wf: "store_wf s \<Longrightarrow> store_wf (set_session_state i st s)"
  by (rule store_wf_tables) (simp_all add: store_wf_def commands_ok_def stream_row_of_def)

lemma append_fresh_live:
  "append_fresh j ty p s = Inr (ev, s') \<Longrightarrow> session_live s' i = session_live s i"
  by (simp add: session_live_def append_fresh_frame sessionExists_def session_row_of_def)

lemma set_session_state_live [simp]: "session_live (set_session_state j st s) i = session_live s i"
  by (simp add: session_live_def stream_row_of_def)

lemma session_live_cong:
  "sessions t = sessions s \<Longrightarrow> streams t = streams s \<Longrightarrow> ident t = ident s \<Longrightarrow> session_live t = session_live s"
  by (simp add: session_live_def sessionExists_def session_row_of_def stream_row_of_def fun_eq_iff)

lemma listFollowUps_cong: "follow_ups t = follow_ups s \<Longrightarrow> listFollowUps t = listFollowUps s"
  by (simp add: listFollowUps_def queued_rows_def fun_eq_iff)

text \<open>
  Announcing succeeds for a live session, leaves the queue as it is, and writes the number of
  queued items into the session's state.
\<close>

lemma emitQueueStateTx_run:
  assumes "store_wf s" and "session_live s i"
  obtains s' where "emitQueueStateTx i ty extra s = Inr ((), s')" "store_wf s'" "session_live s' i"
    "follow_ups s' = follow_ups s" "uuids s' = uuids s"
    "\<exists>st. sessionState s' i = Some st \<and> prop_get st ''queueCount'' = Some (JNum (int (length (listFollowUps s i))))"
    "\<And>j. j \<noteq> i \<Longrightarrow> sessionState s' j = sessionState s j"
proof -
  let ?items = "listFollowUps s i"
  let ?p1 = "spread (spread [(''sessionId'', JStr i)] extra) (queue_items ?items)"
  let ?p2 = "(''sessionId'', JStr i) # queue_items ?items"
  have st: "stream_row_of s (session_stream i) \<noteq> None" using assms(2) by (simp add: session_live_def)
  obtain e1 s1 where a1: "append_fresh (session_stream i) ty ?p1 s = Inr (e1, s1)" and w1: "store_wf s1"
    by (rule append_fresh_wf [OF assms(1) st])
  note f1 = append_fresh_frame [OF a1]
  have l1: "session_live s1 i" using assms(2) append_fresh_live [OF a1] by simp
  have "\<exists>s2. (if ty \<noteq> ''queue.snapshot''
       then tx_bind (append_fresh (session_stream i) ''queue.snapshot'' ?p2) (\<lambda>_. tx_return ())
       else tx_return ()) s1 = Inr ((), s2) \<and> store_wf s2 \<and> session_live s2 i \<and> follow_ups s2 = follow_ups s1
       \<and> sessions s2 = sessions s1 \<and> uuids s2 = uuids s1"
  proof (cases "ty = ''queue.snapshot''")
    case True
    then show ?thesis using w1 l1 by simp
  next
    case False
    have "stream_row_of s1 (session_stream i) \<noteq> None" using l1 by (simp add: session_live_def)
    from append_fresh_wf [OF w1 this] obtain e2 s2 where
      a2: "append_fresh (session_stream i) ''queue.snapshot'' ?p2 s1 = Inr (e2, s2)" and "store_wf s2" by blast
    with False l1 append_fresh_frame [OF a2] append_fresh_live [OF a2] show ?thesis by (simp add: tx_bind_def)
  qed
  then obtain s2 where s2: "(if ty \<noteq> ''queue.snapshot''
       then tx_bind (append_fresh (session_stream i) ''queue.snapshot'' ?p2) (\<lambda>_. tx_return ())
       else tx_return ()) s1 = Inr ((), s2)" "store_wf s2" "session_live s2 i" "follow_ups s2 = follow_ups s1"
       "sessions s2 = sessions s1" "uuids s2 = uuids s1" by blast
  obtain prior where prior: "sessionState s2 i = Some prior"
    using s2(3) by (auto simp: session_live_def sessionExists_def sessionState_def)
  let ?nxt = "spread prior [(''queueCount'', JNum (int (length ?items))), (''updatedAt'', JNum (clock s2))]"
  let ?s3 = "set_session_state i ?nxt s2"
  have w3: "store_wf ?s3" by (rule set_session_state_wf [OF s2(2)])
  obtain h g where h: "ident s2 = Some (h, g)" and hs: "stream_row_of s2 (host_stream h) \<noteq> None"
    using s2(3) by (auto simp: session_live_def)
  have "stream_row_of ?s3 (host_stream h) \<noteq> None" using hs by (simp add: stream_row_of_def)
  from append_fresh_wf [OF w3 this] obtain e4 s4 where
    a4: "append_fresh (host_stream h) ''session.summary'' (spread ?nxt [(''changedKeys'', JArr [JStr ''queueCount''])]) ?s3
      = Inr (e4, s4)" and w4: "store_wf s4" by blast
  note f4 = append_fresh_frame [OF a4]
  have "emitQueueStateTx i ty extra s = Inr ((), s4)"
    using a1 s2(1) prior identity_stable [of ?s3] h a4
    unfolding emitQueueStateTx_def Let_def by (simp only: tx_bind_def sum.case prod.case) (simp add: tx_bind_def)
  moreover have "session_live s4 i" using append_fresh_live [OF a4] s2(3) by simp
  moreover have "follow_ups s4 = follow_ups s" "uuids s4 = uuids s" using f1 s2 f4 by simp_all
  moreover have ss: "sessionState s4 j = sessionState ?s3 j" for j
    using session_row_of_cong [OF f4(2)] by (simp add: sessionState_def)
  have "\<exists>st. sessionState s4 i = Some st \<and> prop_get st ''queueCount'' = Some (JNum (int (length ?items)))"
    using prior by (simp add: ss sessionState_set)
  moreover have "sessionState s4 j = sessionState s j" if "j \<noteq> i" for j
    using that session_row_of_cong [OF s2(5)] session_row_of_cong [OF f1(2)]
    by (simp add: ss sessionState_set) (simp add: sessionState_def)
  ultimately show thesis using that w4 by blast
qed

section \<open>The queue is first in, first out\<close>

lemma queued_distinct:
  assumes "queue_ok s"
  shows "distinct (map qu_id (listFollowUps s i))"
proof -
  have "distinct (map qu_id (follow_ups s))" using assms by (simp add: queue_ok_def)
  then have "distinct (map qu_id (queued_rows s i))" by (simp add: queued_rows_def distinct_map_filter_sub)
  then show ?thesis by (simp add: listFollowUps_def distinct_map)
qed

lemma fold_max_init: "m \<le> fold max xs (m :: nat)"
proof (induction xs arbitrary: m)
  case (Cons y ys)
  from Cons [of "max y m"] show ?case by simp
qed simp

lemma fold_max_ge: "x \<in> set xs \<Longrightarrow> x \<le> fold max xs (m :: nat)"
proof (induction xs arbitrary: m)
  case (Cons y ys)
  then show ?case using fold_max_init [of "max y m" ys] by auto
qed simp

lemma next_position_gt: "q \<in> set (follow_ups s) \<Longrightarrow> qu_session q = i \<Longrightarrow> qu_pos q < next_position s i"
  unfolding next_position_def using fold_max_ge [of "qu_pos q"] by (simp add: less_Suc_eq_le)

lemma listFollowUps_snoc:
  assumes "follow_ups t = follow_ups s @ [q]" and "qu_state q = Queued"
    and "\<And>r. r \<in> set (follow_ups s) \<Longrightarrow> qu_session r = qu_session q \<Longrightarrow> qu_pos r < qu_pos q"
  shows "listFollowUps t i = listFollowUps s i @ (if qu_session q = i then [q] else [])"
proof (cases "qu_session q = i")
  case True
  then have "queued_rows t i = queued_rows s i @ [q]" using assms(1,2) by (simp add: queued_rows_def)
  moreover have "\<not> qu_pos q < qu_pos r" if "r \<in> set (queued_rows s i)" for r
    using assms(3) [of r] that True by (auto simp: queued_rows_def)
  ultimately show ?thesis using True order_by_snoc [of "queued_rows s i" "\<lambda>a b. qu_pos a < qu_pos b" q]
    by (simp add: listFollowUps_def)
qed (simp add: listFollowUps_def queued_rows_def assms(1))

lemma listFollowUps_without:
  assumes ok: "queue_ok s" and q: "listFollowUps s i = q # qs"
    and t: "queued_rows t i = filter (\<lambda>r. qu_id r \<noteq> qu_id q) (queued_rows s i)"
  shows "listFollowUps t i = qs"
proof -
  have "listFollowUps t i = filter (\<lambda>r. qu_id r \<noteq> qu_id q) (listFollowUps s i)"
    unfolding listFollowUps_def t by (rule order_by_filter) auto
  moreover have "\<forall>r \<in> set qs. qu_id r \<noteq> qu_id q"
    using queued_distinct [OF ok, of i] distinct_map_ConsD unfolding q by metis
  ultimately show ?thesis by (simp add: q filter_all)
qed

text \<open>
  For a live session with fewer than ten queued messages and a free identifier, enqueueing succeeds and
  puts the message behind every queued one; no other session's queue changes, and the session's
  \<open>queueCount\<close> is the new length. With ten it is refused and nothing changes.
\<close>

theorem enqueue_appends:
  assumes "store_wf s" and "queue_ok s" and "session_live s i"
    and "\<forall>q \<in> set (follow_ups s). qu_id q \<noteq> (case qid of None \<Rightarrow> uuids s (uuid_pos s) | Some k \<Rightarrow> k)"
  shows "if length (listFollowUps s i) < 10
    then \<exists>q s'. enqueueFollowUp i msg atts qid s = (Inr q, s') \<and> qu_message q = msg \<and> qu_attach q = atts
        \<and> listFollowUps s' i = listFollowUps s i @ [q] \<and> (\<forall>j. j \<noteq> i \<longrightarrow> listFollowUps s' j = listFollowUps s j)
        \<and> queue_ok s' \<and> store_wf s' \<and> session_live s' i
        \<and> (\<exists>st. sessionState s' i = Some st
              \<and> prop_get st ''queueCount'' = Some (JNum (int (length (listFollowUps s i)) + 1)))
    else enqueueFollowUp i msg atts qid s = (Inl (Store_error Full ''queue_full''), s)"
proof (cases "length (listFollowUps s i) < 10")
  case False
  then have "10 \<le> length (queued_rows s i)" by (simp add: listFollowUps_def)
  with False store_wfD(1) [OF assms(1)] show ?thesis
    by (simp add: enqueueFollowUp_def enqueueFollowUp_tx_def transaction_eq mapError_def)
next
  case True
  define k where "k = (case qid of None \<Rightarrow> uuids s (uuid_pos s) | Some k \<Rightarrow> k)"
  define t where "t = (case qid of None \<Rightarrow> s\<lparr>uuid_pos := Suc (uuid_pos s)\<rparr> | Some _ \<Rightarrow> s)"
  define q where "q = \<lparr>qu_id = k, qu_session = i, qu_message = msg, qu_attach = atts, qu_state = Queued,
                  qu_pos = next_position s i, qu_created = clock s, qu_updated = clock s\<rparr>"
  have tk: "given_or_uuid qid s = Inr (k, t)"
    by (simp add: given_or_uuid_def k_def t_def uuid_def split: option.split)
  have t: "follow_ups t = follow_ups s" "clock t = clock s" "sessions t = sessions s" "streams t = streams s"
    "ident t = ident s" "commands t = commands s" "events t = events s" "uuids t = uuids s" "ready t = ready s"
    "uuid_pos s \<le> uuid_pos t"
    by (simp_all add: t_def ready_def split: option.split)
  let ?u = "t\<lparr>follow_ups := follow_ups t @ [q]\<rparr>"
  have pos: "r \<in> set (follow_ups s) \<Longrightarrow> qu_session r = i \<Longrightarrow> qu_pos r < qu_pos q" for r
    by (simp add: q_def next_position_gt)
  have "sessionExists t i" using assms(3) t(3) by (simp add: session_live_def sessionExists_def session_row_of_def)
  then have ins: "insert_follow_up q t = Inr ((), ?u)"
    using assms(4) pos by (fastforce simp: insert_follow_up_def t q_def k_def)
  have wfu: "store_wf ?u"
    by (rule store_wf_tables [OF _ _ _ _ _ _ assms(1)])
      (use t store_wfD(4) [OF assms(1)] in \<open>simp_all add: commands_ok_def stream_row_of_def ready_def\<close>)
  have liveu: "session_live ?u i" using assms(3) session_live_cong [of ?u s] t by simp
  obtain s' where e: "emitQueueStateTx i ''turn.queued''
      [(''sessionId'', JStr i), (''queueItemId'', JStr k), (''position'', JNum (int (qu_pos q)))] ?u = Inr ((), s')"
    and s': "store_wf s'" "session_live s' i" "follow_ups s' = follow_ups s @ [q]"
    "\<exists>st. sessionState s' i = Some st \<and> prop_get st ''queueCount'' = Some (JNum (int (length (listFollowUps ?u i))))"
    by (rule emitQueueStateTx_run [OF wfu liveu, of "''turn.queued''"]) (auto simp: t)
  have ls: "listFollowUps s' j = listFollowUps s j @ (if i = j then [q] else [])" for j
    using listFollowUps_snoc [OF s'(3)] pos by (simp add: q_def)
  have lu: "listFollowUps ?u = listFollowUps s'" by (rule listFollowUps_cong) (simp add: s'(3) t)
  have ok: "queue_ok s'"
    using assms(2,4) pos by (fastforce simp: queue_ok_def s'(3) q_def k_def)
  have len: "length (queued_rows s i) < 10" using True by (simp add: listFollowUps_def)
  have "next_position t i = next_position s i" by (simp add: next_position_def t)
  then have "enqueueFollowUp_tx i msg atts qid s = Inr (q, s')"
    using len tk ins e by (simp add: enqueueFollowUp_tx_def tx_bind_def Let_def q_def t)
  then have "enqueueFollowUp i msg atts qid s = (Inr q, s')"
    using store_wfD(1) [OF assms(1)] by (simp add: enqueueFollowUp_def transaction_Inr)
  moreover have "qu_message q = msg" "qu_attach q = atts" by (simp_all add: q_def)
  ultimately show ?thesis using True s' ok ls lu by auto
qed

lemma set_queue_state_sel [simp]:
  "streams (set_queue_state P st s) = streams s" "events (set_queue_state P st s) = events s"
  "uuids (set_queue_state P st s) = uuids s" "uuid_pos (set_queue_state P st s) = uuid_pos s"
  "clock (set_queue_state P st s) = clock s" "commands (set_queue_state P st s) = commands s"
  "sessions (set_queue_state P st s) = sessions s" "ident (set_queue_state P st s) = ident s"
  "ready (set_queue_state P st s) = ready s"
  by (simp_all add: set_queue_state_def ready_def)

lemma set_queue_state_wf: "store_wf s \<Longrightarrow> store_wf (set_queue_state P st s)"
  by (rule store_wf_tables) (simp_all add: store_wf_def commands_ok_def stream_row_of_def)

lemma set_queue_state_ok: "queue_ok s \<Longrightarrow> queue_ok (set_queue_state P st s)"
proof -
  let ?f = "\<lambda>q. if P q then q\<lparr>qu_state := st, qu_updated := clock s\<rparr> else q"
  have keys: "map qu_id (map ?f xs) = map qu_id xs"
    "map (\<lambda>q. (qu_session q, qu_pos q)) (map ?f xs) = map (\<lambda>q. (qu_session q, qu_pos q)) xs" for xs
    by simp_all
  have fu: "follow_ups (set_queue_state P st s) = map ?f (follow_ups s)" by (simp add: set_queue_state_def)
  assume "queue_ok s"
  then show ?thesis unfolding queue_ok_def fu keys .
qed

lemma set_queue_state_live [simp]: "session_live (set_queue_state P st s) i = session_live s i"
  using session_live_cong [of "set_queue_state P st s" s] by simp

lemma queue_ok_cong: "follow_ups t = follow_ups s \<Longrightarrow> queue_ok t = queue_ok s"
  by (simp add: queue_ok_def)

lemma set_listFollowUps: "q \<in> set (listFollowUps s i) \<longleftrightarrow> q \<in> set (follow_ups s) \<and> qu_session q = i \<and> qu_state q = Queued"
  by (auto simp: listFollowUps_def queued_rows_def)

lemma claimed_rows:
  assumes "queue_ok s" and "q \<in> set (queued_rows s i)"
  shows "queued_rows (set_queue_state (\<lambda>r. qu_id r = qu_id q \<and> qu_state r = Queued) Dispatching s) j =
    filter (\<lambda>r. qu_id r \<noteq> qu_id q) (queued_rows s j)"
proof -
  have "filter (\<lambda>r. qu_session r = j \<and> qu_state r = Queued)
      (map (\<lambda>r. if qu_id r = k \<and> qu_state r = Queued then r\<lparr>qu_state := Dispatching, qu_updated := c\<rparr> else r) xs)
    = filter (\<lambda>r. qu_id r \<noteq> k) (filter (\<lambda>r. qu_session r = j \<and> qu_state r = Queued) xs)" for k c xs
    by (induction xs) auto
  then show ?thesis by (simp add: queued_rows_def set_queue_state_def)
qed

lemma listFollowUps_foreign:
  assumes "queue_ok s" and "q \<in> set (listFollowUps s i)" and "j \<noteq> i"
  shows "filter (\<lambda>r. qu_id r \<noteq> qu_id q) (queued_rows s j) = queued_rows s j"
proof (rule filter_all)
  fix r assume "r \<in> set (queued_rows s j)"
  then have r: "r \<in> set (follow_ups s)" "qu_session r = j" by (auto simp: queued_rows_def)
  moreover have "q \<in> set (follow_ups s)" "qu_session q = i" using assms(2) by (auto simp: set_listFollowUps)
  moreover have "inj_on qu_id (set (follow_ups s))" using assms(1) by (simp add: queue_ok_def distinct_map)
  ultimately show "qu_id r \<noteq> qu_id q" using assms(3) by (auto dest: inj_onD)
qed

lemma claimNextFollowUp_run:
  assumes "store_wf s" and "queue_ok s" and "session_live s i" and "listFollowUps s i = q # qs"
  obtains s' where "claimNextFollowUp i s = (Inr (Some (q\<lparr>qu_state := Dispatching\<rparr>)), s')"
    "listFollowUps s' i = qs" "\<And>j. j \<noteq> i \<Longrightarrow> listFollowUps s' j = listFollowUps s j"
    "store_wf s'" "queue_ok s'" "session_live s' i"
    "follow_ups s' = follow_ups (set_queue_state (\<lambda>r. qu_id r = qu_id q \<and> qu_state r = Queued) Dispatching s)"
    "\<exists>st. sessionState s' i = Some st \<and> prop_get st ''queueCount'' = Some (JNum (int (length qs)))"
proof -
  let ?t = "set_queue_state (\<lambda>r. qu_id r = qu_id q \<and> qu_state r = Queued) Dispatching s"
  have q: "q \<in> set (follow_ups s)" "qu_session q = i" "qu_state q = Queued" "q \<in> set (queued_rows s i)"
    using assms(4) set_listFollowUps [of q s i] by (auto simp: queued_rows_def)
  have "filter (\<lambda>r. qu_id r = qu_id q) (follow_ups s) = [q]"
    using assms(2) q(1) by (intro filter_key_unique) (simp add: queue_ok_def)
  then have "filter (\<lambda>r. qu_state r = Queued) (filter (\<lambda>r. qu_id r = qu_id q) (follow_ups s)) = [q]" using q(3) by simp
  then have one: "length (filter (\<lambda>r. qu_id r = qu_id q \<and> qu_state r = Queued) (follow_ups s)) = 1"
    by (simp add: conj_commute)
  have t: "listFollowUps ?t i = qs"
    by (rule listFollowUps_without [OF assms(2,4)]) (rule claimed_rows [OF assms(2) q(4)])
  have tj: "listFollowUps ?t j = listFollowUps s j" if "j \<noteq> i" for j
  proof -
    have "q \<in> set (listFollowUps s i)" using assms(4) by simp
    from listFollowUps_foreign [OF assms(2) this that] show ?thesis
      by (simp add: listFollowUps_def claimed_rows [OF assms(2) q(4)])
  qed
  have "session_live ?t i" using assms(3) by simp
  then obtain s' where e: "emitQueueStateTx i ''queue.snapshot'' [(''dispatchedQueueItemId'', JStr (qu_id q))] ?t = Inr ((), s')"
    and s': "store_wf s'" "session_live s' i" "follow_ups s' = follow_ups ?t"
      "\<exists>st. sessionState s' i = Some st \<and> prop_get st ''queueCount'' = Some (JNum (int (length (listFollowUps ?t i))))"
    by (rule emitQueueStateTx_run [OF set_queue_state_wf [OF assms(1)], where ty = "''queue.snapshot''"]) blast
  have "claimNextFollowUp_tx i s = Inr (Some (q\<lparr>qu_state := Dispatching\<rparr>), s')"
    using assms(4) one e by (simp add: claimNextFollowUp_tx_def tx_bind_def)
  then have c: "claimNextFollowUp i s = (Inr (Some (q\<lparr>qu_state := Dispatching\<rparr>)), s')"
    using store_wfD(1) [OF assms(1)] by (simp add: claimNextFollowUp_def transaction_Inr)
  have l: "listFollowUps s' = listFollowUps ?t" by (rule listFollowUps_cong [OF s'(3)])
  have ok: "queue_ok s'" using set_queue_state_ok [OF assms(2)] queue_ok_cong [OF s'(3)] by simp
  show thesis
    by (rule that [OF c _ _ s'(1) ok s'(2,3)]) (use s'(4) in \<open>simp_all add: l t tj\<close>)
qed

section \<open>Draining a queue\<close>

text \<open>
  The contract a consumer of a queue relies on, and what it gives: claiming again and again
  hands out the items in their order.
\<close>

fun drain :: "('s \<Rightarrow> 'a option \<times> 's) \<Rightarrow> nat \<Rightarrow> 's \<Rightarrow> 'a list \<times> 's" where
  "drain claim 0 s = ([], s)"
| "drain claim (Suc n) s =
     (case claim s of
        (None, s') \<Rightarrow> ([], s')
      | (Some q, s') \<Rightarrow> (let (qs, s'') = drain claim n s' in (q # qs, s'')))"

locale claim_queue =
  fixes inv :: "'s \<Rightarrow> bool" and items :: "'s \<Rightarrow> 'a list" and claim :: "'s \<Rightarrow> 'b option \<times> 's"
    and key :: "'a \<Rightarrow> 'k" and ckey :: "'b \<Rightarrow> 'k"
  assumes claim_empty: "inv s \<Longrightarrow> items s = [] \<Longrightarrow> claim s = (None, s)"
    and claim_next: "inv s \<Longrightarrow> items s = q # qs \<Longrightarrow>
      \<exists>c s'. claim s = (Some c, s') \<and> ckey c = key q \<and> inv s' \<and> items s' = qs"
begin

lemma drain_order:
  "inv s \<Longrightarrow> \<exists>s'. drain claim n s = (fst (drain claim n s), s') \<and> inv s' \<and> items s' = drop n (items s)
     \<and> map ckey (fst (drain claim n s)) = map key (take n (items s))"
proof (induction n arbitrary: s)
  case 0
  then show ?case by simp
next
  case (Suc n)
  show ?case
  proof (cases "items s")
    case Nil
    then show ?thesis using claim_empty [OF Suc.prems] Suc.prems by simp
  next
    case (Cons q qs)
    obtain c s1 where c: "claim s = (Some c, s1)" "ckey c = key q" "inv s1" "items s1 = qs"
      using claim_next [OF Suc.prems Cons] by blast
    from Suc.IH [OF c(3)] obtain s' where s': "drain claim n s1 = (fst (drain claim n s1), s')" "inv s'"
      "items s' = drop n qs" "map ckey (fst (drain claim n s1)) = map key (take n qs)" by (auto simp: c(4))
    have d: "drain claim (Suc n) s = (c # fst (drain claim n s1), s')"
      by (subst drain.simps(2), subst s'(1)) (simp add: c(1), subst s'(1), simp)
    show ?thesis unfolding d using s' c(2) Cons by simp
  qed
qed

end

text \<open>The claim the runtime issues; an error, which cannot occur in a well-formed store, ends the drain.\<close>

definition claim_step :: "string \<Rightarrow> store \<Rightarrow> queue_row option \<times> store" where
  "claim_step i s = (case claimNextFollowUp i s of (Inl _, s') \<Rightarrow> (None, s') | (Inr r, s') \<Rightarrow> (r, s'))"

definition queue_inv :: "string \<Rightarrow> store \<Rightarrow> bool" where
  "queue_inv i s \<longleftrightarrow> store_wf s \<and> queue_ok s \<and> session_live s i"

interpretation follow_up: claim_queue "queue_inv i" "\<lambda>s. listFollowUps s i" "claim_step i" qu_id qu_id for i
proof
  fix s
  assume "queue_inv i s" and "listFollowUps s i = []"
  then show "claim_step i s = (None, s)"
    by (simp add: queue_inv_def claim_step_def claimNextFollowUp_def claimNextFollowUp_tx_def transaction_eq store_wf_def)
next
  fix s q qs
  assume "queue_inv i s" and q: "listFollowUps s i = q # qs"
  then have inv: "store_wf s" "queue_ok s" "session_live s i" by (simp_all add: queue_inv_def)
  show "\<exists>c s'. claim_step i s = (Some c, s') \<and> qu_id c = qu_id q \<and> queue_inv i s' \<and> listFollowUps s' i = qs"
    by (rule claimNextFollowUp_run [OF inv q]) (simp add: claim_step_def queue_inv_def)
qed

text \<open>
  C12 (claims_in_order). Claiming the follow-ups of a session one after another hands them out exactly in
  queue order, however many are claimed, and leaves the rest queued.
\<close>

theorem claims_in_order:
  assumes "store_wf s" and "queue_ok s" and "session_live s i"
  shows "map qu_id (fst (drain (claim_step i) n s)) = map qu_id (take n (listFollowUps s i))
     \<and> listFollowUps (snd (drain (claim_step i) n s)) i = drop n (listFollowUps s i)"
proof -
  from follow_up.drain_order [of i s n] assms obtain s' where
    "drain (claim_step i) n s = (fst (drain (claim_step i) n s), s')" "listFollowUps s' i = drop n (listFollowUps s i)"
    "map qu_id (fst (drain (claim_step i) n s)) = map qu_id (take n (listFollowUps s i))"
    by (auto simp: queue_inv_def)
  then show ?thesis by (metis snd_conv)
qed

section \<open>Finishing\<close>

definition same_item :: "queue_row \<Rightarrow> string \<times> string \<times> string list" where
  "same_item r = (qu_id r, qu_message r, qu_attach r)"

lemma unique_row:
  assumes "queue_ok s" and "q \<in> set (follow_ups s)" and "r \<in> set (follow_ups s)" and "qu_id r = qu_id q"
  shows "r = q"
  using assms inj_onD [of qu_id "set (follow_ups s)" r q] by (simp add: queue_ok_def distinct_map)

lemma requeued_rows:
  assumes ok: "queue_ok s" and q: "q \<in> set (follow_ups s)" "qu_state q = Queued"
    and t: "follow_ups t = follow_ups (set_queue_state (\<lambda>r. qu_id r = qu_id q \<and> qu_state r = Queued) Dispatching s)"
  shows "map same_item (listFollowUps (set_queue_state (\<lambda>r. qu_id r = qu_id q) Queued t) i) = map same_item (listFollowUps s i)"
proof -
  let ?h = "\<lambda>r. if qu_id r = qu_id q then r\<lparr>qu_state := Queued, qu_updated := clock t\<rparr> else r"
  let ?u = "set_queue_state (\<lambda>r. qu_id r = qu_id q) Queued t"
  have st: "qu_state r = Queued" if "r \<in> set (follow_ups s)" "qu_id r = qu_id q" for r
    using unique_row [OF ok q(1) that] q(2) by simp
  have "follow_ups ?u = map ?h (follow_ups s)"
    using st by (simp add: set_queue_state_def t)
  moreover have "filter (\<lambda>r. qu_session r = i \<and> qu_state r = Queued) (map ?h (follow_ups s))
      = map ?h (filter (\<lambda>r. qu_session r = i \<and> qu_state r = Queued) (follow_ups s))"
    using st by (intro filter_map_if) simp
  ultimately have "queued_rows ?u i = map ?h (queued_rows s i)" by (simp add: queued_rows_def)
  then have "listFollowUps ?u i = map ?h (listFollowUps s i)"
    unfolding listFollowUps_def by (simp only:) (rule order_by_map, simp)
  then show ?thesis by (simp add: same_item_def)
qed

text \<open>
  A claimed message can be finished in two ways. Put back, it returns to its old place: the
  queue reads as before the claim. Completed, it is gone and the rest of the queue is unchanged.
\<close>

theorem claim_settles:
  assumes "store_wf s" and "queue_ok s" and "session_live s i" and "listFollowUps s i = q # qs"
    and "claimNextFollowUp i s = (Inr (Some c), s1)"
  shows "(\<exists>s2. finishFollowUp (qu_id c) True s1 = (Inr (), s2) \<and> store_wf s2
        \<and> map same_item (listFollowUps s2 i) = map same_item (listFollowUps s i))
    \<and> (\<exists>s3. finishFollowUp (qu_id c) False s1 = (Inr (), s3) \<and> store_wf s3 \<and> listFollowUps s3 i = qs
        \<and> (\<forall>r \<in> set (follow_ups s3). qu_id r \<noteq> qu_id c))"
proof -
  let ?P = "\<lambda>r. qu_id r = qu_id q \<and> qu_state r = Queued"
  let ?t = "set_queue_state ?P Dispatching s"
  have q: "q \<in> set (follow_ups s)" "qu_session q = i" "qu_state q = Queued"
    using assms(4) set_listFollowUps [of q s i] by auto
  obtain c0 s0 where c0: "claimNextFollowUp i s = (Inr (Some c0), s0)" "c0 = q\<lparr>qu_state := Dispatching\<rparr>"
    and s1: "listFollowUps s0 i = qs" "store_wf s0" "queue_ok s0" "session_live s0 i" "follow_ups s0 = follow_ups ?t"
    by (rule claimNextFollowUp_run [OF assms(1-4)]) blast
  from c0 assms(5) have c: "qu_id c = qu_id q" and [simp]: "s0 = s1" by auto
  let ?d = "q\<lparr>qu_state := Dispatching, qu_updated := clock s\<rparr>"
  have d: "?d \<in> set (follow_ups s1)" using q s1(5) by (force simp: set_queue_state_def)
  have fnd: "find (\<lambda>r. qu_id r = qu_id c \<and> qu_state r = Dispatching) (follow_ups s1) = Some ?d"
  proof -
    obtain r where r: "find (\<lambda>r. qu_id r = qu_id c \<and> qu_state r = Dispatching) (follow_ups s1) = Some r"
      using find_exists [OF d, of "\<lambda>r. qu_id r = qu_id c \<and> qu_state r = Dispatching"] c by auto
    with find_SomeD [OF r] unique_row [OF _ d, of r] s1(3) c show ?thesis by simp
  qed
  have sess: "qu_session ?d = i" using q by simp
  let ?a = "set_queue_state (\<lambda>r. qu_id r = qu_id q) Queued s1"
  have wa: "store_wf ?a" and la: "session_live ?a i" using s1(2,4) set_queue_state_wf by auto
  obtain s2 where e2: "emitQueueStateTx i ''queue.snapshot'' [(''recoveredQueueItemId'', JStr (qu_id q))] ?a = Inr ((), s2)"
      "store_wf s2" "follow_ups s2 = follow_ups ?a"
    by (rule emitQueueStateTx_run [OF wa la]) blast
  have "finishFollowUp (qu_id c) True s1 = (Inr (), s2)"
    using fnd sess e2(1) c store_wfD(1) [of s1] s1(2) by (simp add: finishFollowUp_def finishFollowUp_tx_def transaction_Inr)
  moreover have "map same_item (listFollowUps s2 i) = map same_item (listFollowUps s i)"
    using requeued_rows [OF assms(2) q(1,3), of s1 i] s1(5) listFollowUps_cong [OF e2(3)] by simp
  moreover
  let ?b = "delete_follow_ups (\<lambda>r. qu_id r = qu_id q) s1"
  have wb: "store_wf ?b"
    by (rule store_wf_tables [of _ s1]) (use s1(2) store_wfD(4) [of s1] in
      \<open>simp_all add: delete_follow_ups_def ready_def commands_ok_def stream_row_of_def\<close>)
  have lb: "session_live ?b i" using s1(4) session_live_cong [of ?b s1] by (simp add: delete_follow_ups_def)
  obtain s3 where e3: "emitQueueStateTx i ''queue.snapshot'' [(''completedQueueItemId'', JStr (qu_id q))] ?b = Inr ((), s3)"
      "store_wf s3" "follow_ups s3 = follow_ups ?b"
    by (rule emitQueueStateTx_run [OF wb lb]) blast
  have "finishFollowUp (qu_id c) False s1 = (Inr (), s3)"
    using fnd sess e3(1) c store_wfD(1) [of s1] s1(2) by (simp add: finishFollowUp_def finishFollowUp_tx_def transaction_Inr)
  moreover have "queued_rows ?b i = queued_rows s1 i"
  proof -
    have "qu_id r \<noteq> qu_id q" if "r \<in> set (queued_rows s1 i)" for r
      using that unique_row [OF _ d, of r] s1(3) by (auto simp: queued_rows_def)
    then have "filter (\<lambda>r. qu_id r \<noteq> qu_id q) (queued_rows s1 i) = queued_rows s1 i" by (rule filter_all)
    then show ?thesis by (simp add: queued_rows_def delete_follow_ups_def conj_commute)
  qed
  then have "listFollowUps s3 i = qs"
    using listFollowUps_cong [OF e3(3)] s1(1) by (simp add: listFollowUps_def)
  moreover have "\<forall>r \<in> set (follow_ups s3). qu_id r \<noteq> qu_id c" by (simp add: e3(3) delete_follow_ups_def c)
  ultimately show ?thesis using e2(2) e3(2) by blast
qed

section \<open>Instances\<close>

definition demo_queue :: store where
  "demo_queue = demo_store\<lparr>follow_ups :=
     [\<lparr>qu_id = ''q1'', qu_session = ''a'', qu_message = ''x'', qu_attach = [], qu_state = Queued, qu_pos = 1,
       qu_created = 1, qu_updated = 1\<rparr>,
      \<lparr>qu_id = ''q2'', qu_session = ''a'', qu_message = ''y'', qu_attach = [], qu_state = Queued, qu_pos = 2,
       qu_created = 1, qu_updated = 1\<rparr>]\<rparr>"

lemma demo_live: "session_live demo_store ''a''"
  by (simp add: session_live_def sessionExists_def session_row_of_def stream_row_of_def session_stream_def host_stream_def)

lemma demo_queue_inv: "store_wf demo_queue" "queue_ok demo_queue" "session_live demo_queue ''a''"
proof -
  show "store_wf demo_queue"
    by (rule store_wf_tables [OF _ _ _ _ _ _ demo_store_wf])
      (simp_all add: demo_queue_def commands_ok_def ready_def [of "_\<lparr>follow_ups := _\<rparr>"]
        demo_store_sel(5) [unfolded ready_def])
  show "queue_ok demo_queue" by (simp add: queue_ok_def demo_queue_def)
  show "session_live demo_queue ''a''"
    using demo_live session_live_cong [of demo_queue demo_store] by (simp add: demo_queue_def)
qed

lemma demo_queue_list: "map qu_id (listFollowUps demo_queue ''a'') = [''q1'', ''q2'']"
  by (simp add: listFollowUps_def queued_rows_def demo_queue_def)

theorem claims_in_order_witness:
  "map qu_id (fst (drain (claim_step ''a'') 5 demo_queue)) = [''q1'', ''q2'']"
  using claims_in_order [OF demo_queue_inv, of 5] demo_queue_list by (simp add: take_map [symmetric])

end
