(* ===== verification/Store_Dialogs.thy ===== *)
theory Store_Dialogs
  imports Store_Queue
begin

text \<open>
  Dialogs an extension opens towards the mobile client (\<open>extension_dialogs\<close> in core/store.ts): a
  session has at most one pending dialog, it can be answered once and only before it expires.
\<close>

section \<open>Operations\<close>

definition update_dialogs :: "(dialog_row \<Rightarrow> bool) \<Rightarrow> dialog_state \<Rightarrow> int \<Rightarrow> store \<Rightarrow> store" where
  "update_dialogs P st t s =
     s\<lparr>dialogs := map (\<lambda>d. if P d then d\<lparr>dg_state := st, dg_updated := t\<rparr> else d) (dialogs s)\<rparr>"

definition insert_dialog :: "dialog_row \<Rightarrow> unit tx" where
  "insert_dialog d s =
     (if \<exists>r \<in> set (dialogs s). dg_id r = dg_id d
      then Inl (Sqlite_error ''UNIQUE constraint failed: extension_dialogs.dialog_id'')
      else if \<exists>r \<in> set (dialogs s). dg_session r = dg_session d \<and> dg_upstream r = dg_upstream d
      then Inl (Sqlite_error ''UNIQUE constraint failed: extension_dialogs.session_id, extension_dialogs.upstream_id'')
      else if \<not> sessionExists s (dg_session d)
      then Inl (Sqlite_error ''FOREIGN KEY constraint failed'')
      else Inr ((), s\<lparr>dialogs := dialogs s @ [d]\<rparr>))"

definition createDialog :: "string \<Rightarrow> string \<Rightarrow> string \<Rightarrow> obj \<Rightarrow> int \<Rightarrow> string option \<Rightarrow> store \<Rightarrow> (exn + dialog_row) \<times> store" where
  "createDialog i up method req expires did =
     transaction (\<lambda>s.
       tx_bind (given_or_uuid did) (\<lambda>k t.
         let d = \<lparr>dg_id = k, dg_session = i, dg_upstream = up, dg_method = method, dg_request = req,
                   dg_state = Pending, dg_created = clock t, dg_expires = expires, dg_updated = clock t\<rparr> in
         tx_bind (insert_dialog d) (\<lambda>_. tx_return d) t)
       (update_dialogs (\<lambda>d. dg_session d = i \<and> dg_state d = Pending) Orphaned (clock s) s))"

text \<open>
  \<open>expireDialogs\<close> and \<open>pendingDialog\<close> write outside any transaction of their own: they do not
  check that the store is writable.
\<close>

definition expireDialogs :: "int \<Rightarrow> store \<Rightarrow> dialog_row list \<times> store" where
  "expireDialogs now s =
     (let rows = filter (\<lambda>d. dg_state d = Pending \<and> dg_expires d \<le> now) (dialogs s) in
      (map (\<lambda>d. d\<lparr>dg_state := Expired\<rparr>) rows,
       if rows \<noteq> [] then update_dialogs (\<lambda>d. dg_state d = Pending \<and> dg_expires d \<le> now) Expired now s else s))"

definition pendingDialog :: "string \<Rightarrow> int \<Rightarrow> store \<Rightarrow> dialog_row option \<times> store" where
  "pendingDialog i now s =
     (let (_, t) = expireDialogs now s in
      ((case order_by (\<lambda>a b. dg_created b < dg_created a)
               (filter (\<lambda>d. dg_session d = i \<and> dg_state d = Pending) (dialogs t)) of
          [] \<Rightarrow> None | d # _ \<Rightarrow> Some d), t))"

definition claimDialogResponse_tx :: "string \<Rightarrow> string \<Rightarrow> int \<Rightarrow> dialog_row tx" where
  "claimDialogResponse_tx i k now s =
     (let (p, t) = pendingDialog i now s in
      case p of
        None \<Rightarrow> Inl (Store_error Conflict ''invalid_state'')
      | Some d \<Rightarrow>
          if dg_id d \<noteq> k then Inl (Store_error Conflict ''invalid_state'')
          else (let P = (\<lambda>d. dg_id d = k \<and> dg_state d = Pending \<and> dg_expires d > now) in
                if length (filter P (dialogs t)) \<noteq> 1 then Inl (Store_error Conflict ''invalid_state'')
                else Inr (d, update_dialogs P Responded now t)))"

definition claimDialogResponse :: "string \<Rightarrow> string \<Rightarrow> int \<Rightarrow> store \<Rightarrow> (exn + dialog_row) \<times> store" where
  "claimDialogResponse i k now = transaction (claimDialogResponse_tx i k now)"

definition orphanPendingDialogs :: "string \<Rightarrow> store \<Rightarrow> (exn + nat) \<times> store" where
  "orphanPendingDialogs i =
     transaction (\<lambda>s. Inr (length (filter (\<lambda>d. dg_session d = i \<and> dg_state d = Pending) (dialogs s)),
       update_dialogs (\<lambda>d. dg_session d = i \<and> dg_state d = Pending) Orphaned (clock s) s))"

section \<open>Invariant\<close>

definition pending_dialogs :: "store \<Rightarrow> dialog_row list" where
  "pending_dialogs s = filter (\<lambda>d. dg_state d = Pending) (dialogs s)"

definition dialogs_ok :: "store \<Rightarrow> bool" where
  "dialogs_ok s \<longleftrightarrow> distinct (map dg_id (dialogs s)) \<and> distinct (map dg_session (pending_dialogs s))"

lemma dialogs_ok_empty: "dialogs_ok (empty_store us t)"
  by (simp add: dialogs_ok_def pending_dialogs_def empty_store_def)

lemma dialogs_ok_cong: "dialogs t = dialogs s \<Longrightarrow> dialogs_ok t = dialogs_ok s"
  by (simp add: dialogs_ok_def pending_dialogs_def)

lemma dialogs_ok_db: "dialogs_ok s \<Longrightarrow> db_of t = db_of s \<Longrightarrow> dialogs_ok t"
  by (metis dialogs_ok_cong db_of_sel(11))

text \<open>Closing dialogs keeps the ids and only shrinks the pending ones.\<close>

lemma update_dialogs_pending:
  "st \<noteq> Pending \<Longrightarrow> pending_dialogs (update_dialogs P st t s) = filter (\<lambda>d. \<not> P d) (pending_dialogs s)"
proof -
  assume "st \<noteq> Pending"
  then have "filter (\<lambda>d. dg_state d = Pending) (map (\<lambda>d. if P d then d\<lparr>dg_state := st, dg_updated := t\<rparr> else d) xs)
    = filter (\<lambda>d. \<not> P d) (filter (\<lambda>d. dg_state d = Pending) xs)" for xs
    by (induction xs) auto
  then show ?thesis by (simp add: pending_dialogs_def update_dialogs_def)
qed

lemma update_dialogs_ids: "map dg_id (dialogs (update_dialogs P st t s)) = map dg_id (dialogs s)"
  by (simp add: update_dialogs_def)

lemma update_dialogs_ok [inv_intros]: "dialogs_ok s \<Longrightarrow> st \<noteq> Pending \<Longrightarrow> dialogs_ok (update_dialogs P st t s)"
  unfolding dialogs_ok_def update_dialogs_ids by (simp add: update_dialogs_pending distinct_map_filter_sub)

lemma insert_dialog_ok [inv_intros]:
  assumes "dialogs_ok s" and "insert_dialog d s = Inr ((), s')"
    and "\<forall>r \<in> set (pending_dialogs s). dg_session r \<noteq> dg_session d"
  shows "dialogs_ok s'"
proof -
  from assms(2) have s': "dialogs s' = dialogs s @ [d]" and "\<forall>r \<in> set (dialogs s). dg_id r \<noteq> dg_id d"
    by (auto simp: insert_dialog_def split: if_splits)
  with assms(1,3) show ?thesis by (auto simp: dialogs_ok_def pending_dialogs_def)
qed

lemma dialogs_uuid [simp]: "dialogs (s\<lparr>uuid_pos := n\<rparr>) = dialogs s"
  by simp

lemma given_or_uuid_Inr: "given_or_uuid o' s = Inr (k, t) \<Longrightarrow> \<exists>n. t = s\<lparr>uuid_pos := n\<rparr>"
  by (cases o') (auto simp: given_or_uuid_def uuid_def intro: exI [of _ "uuid_pos s"])

lemma createDialog_ok [inv_intros]:
  assumes "dialogs_ok s"
  shows "dialogs_ok (snd (createDialog i up method req expires did s))"
  unfolding createDialog_def
proof (rule transaction_preserves)
  let ?u = "update_dialogs (\<lambda>d. dg_session d = i \<and> dg_state d = Pending) Orphaned (clock s) s"
  fix d s'
  assume "tx_bind (given_or_uuid did) (\<lambda>k t.
         let d = \<lparr>dg_id = k, dg_session = i, dg_upstream = up, dg_method = method, dg_request = req,
                   dg_state = Pending, dg_created = clock t, dg_expires = expires, dg_updated = clock t\<rparr> in
         tx_bind (insert_dialog d) (\<lambda>_. tx_return d) t) ?u = Inr (d, s')"
  then obtain k t where t: "given_or_uuid did ?u = Inr (k, t)" and ins: "insert_dialog d t = Inr ((), s')"
    and d: "dg_session d = i"
    by (auto simp: tx_bind_Inr_iff Let_def)
  have dt: "dialogs t = dialogs ?u" using given_or_uuid_Inr [OF t] by auto
  have "dialogs_ok ?u" using assms by (rule update_dialogs_ok) simp
  then have okt: "dialogs_ok t" using dialogs_ok_cong [OF dt] by simp
  have "pending_dialogs t = pending_dialogs ?u" by (simp add: pending_dialogs_def dt)
  then have "\<forall>r \<in> set (pending_dialogs t). dg_session r \<noteq> i"
    by (auto simp: update_dialogs_pending) (simp add: pending_dialogs_def)
  then show "dialogs_ok s'" using insert_dialog_ok [OF okt ins] d by simp
qed (rule dialogs_ok_db [OF assms])

lemma snd_expireDialogs:
  "snd (expireDialogs now s) = update_dialogs (\<lambda>d. dg_state d = Pending \<and> dg_expires d \<le> now) Expired now s"
proof (cases "filter (\<lambda>d. dg_state d = Pending \<and> dg_expires d \<le> now) (dialogs s) = []")
  case True
  then have "map (\<lambda>d. if dg_state d = Pending \<and> dg_expires d \<le> now then d\<lparr>dg_state := Expired, dg_updated := now\<rparr> else d)
      (dialogs s) = dialogs s" by (intro map_idI) (auto simp: filter_empty_conv)
  with True show ?thesis by (simp add: expireDialogs_def update_dialogs_def Let_def)
qed (simp add: expireDialogs_def Let_def)

lemma snd_pendingDialog: "snd (pendingDialog i now s) = snd (expireDialogs now s)"
  by (simp add: pendingDialog_def Let_def case_prod_unfold)

lemma expireDialogs_ok [inv_intros]: "dialogs_ok s \<Longrightarrow> dialogs_ok (snd (expireDialogs now s))"
  by (simp add: snd_expireDialogs update_dialogs_ok)

lemma pendingDialog_ok [inv_intros]: "dialogs_ok s \<Longrightarrow> dialogs_ok (snd (pendingDialog i now s))"
  by (simp add: snd_pendingDialog expireDialogs_ok)

lemma pendingDialog_SomeD:
  assumes "fst (pendingDialog i now s) = Some d"
  shows "d \<in> set (dialogs s) \<and> dg_session d = i \<and> dg_state d = Pending \<and> now < dg_expires d"
proof -
  let ?t = "snd (expireDialogs now s)"
  from assms obtain ds where "order_by (\<lambda>a b. dg_created b < dg_created a)
      (filter (\<lambda>d. dg_session d = i \<and> dg_state d = Pending) (dialogs ?t)) = d # ds"
    by (auto simp: pendingDialog_def Let_def case_prod_unfold split: list.splits)
  then have "d \<in> set (order_by (\<lambda>a b. dg_created b < dg_created a)
      (filter (\<lambda>d. dg_session d = i \<and> dg_state d = Pending) (dialogs ?t)))" by simp
  then show ?thesis by (auto simp: snd_expireDialogs update_dialogs_def split: if_splits)
qed

lemma claimDialogResponse_tx_InrD:
  assumes "claimDialogResponse_tx i k now s = Inr (d, s')"
  shows "fst (pendingDialog i now s) = Some d \<and> dg_id d = k \<and>
    s' = update_dialogs (\<lambda>d. dg_id d = k \<and> dg_state d = Pending \<and> dg_expires d > now) Responded now
           (snd (pendingDialog i now s))"
proof (cases "fst (pendingDialog i now s)")
  case None
  with assms show ?thesis by (simp add: claimDialogResponse_tx_def Let_def case_prod_unfold)
next
  case (Some e)
  with assms show ?thesis
    by (simp add: claimDialogResponse_tx_def Let_def case_prod_unfold split: if_splits)
qed

lemma claimDialogResponse_ok [inv_intros]:
  assumes "dialogs_ok s"
  shows "dialogs_ok (snd (claimDialogResponse i k now s))"
  unfolding claimDialogResponse_def
proof (rule transaction_preserves)
  fix d s'
  assume "claimDialogResponse_tx i k now s = Inr (d, s')"
  from claimDialogResponse_tx_InrD [OF this] show "dialogs_ok s'"
    using update_dialogs_ok [OF pendingDialog_ok [OF assms]] by simp
qed (rule dialogs_ok_db [OF assms])

lemma orphanPendingDialogs_ok [inv_intros]:
  assumes "dialogs_ok s"
  shows "dialogs_ok (snd (orphanPendingDialogs i s))"
  unfolding orphanPendingDialogs_def
proof (rule transaction_preserves)
  fix n s'
  assume "Inr (length (filter (\<lambda>d. dg_session d = i \<and> dg_state d = Pending) (dialogs s)),
       update_dialogs (\<lambda>d. dg_session d = i \<and> dg_state d = Pending) Orphaned (clock s) s) = Inr (n, s')"
  then show "dialogs_ok s'" using update_dialogs_ok [OF assms] by auto
qed (rule dialogs_ok_db [OF assms])

inductive dialog_step :: "store \<Rightarrow> store \<Rightarrow> bool" where
  create: "dialog_step s (snd (createDialog i up method req expires did s))"
| look: "dialog_step s (snd (pendingDialog i now s))"
| expire: "dialog_step s (snd (expireDialogs now s))"
| respond: "dialog_step s (snd (claimDialogResponse i k now s))"
| orphan: "dialog_step s (snd (orphanPendingDialogs i s))"
| elsewhere: "dialogs t = dialogs s \<Longrightarrow> dialog_step s t"

lemma dialog_step_ok: "dialog_step s t \<Longrightarrow> dialogs_ok s \<Longrightarrow> dialogs_ok t"
  by (induction rule: dialog_step.induct)
    (simp_all add: createDialog_ok pendingDialog_ok expireDialogs_ok claimDialogResponse_ok orphanPendingDialogs_ok,
      metis dialogs_ok_cong)

text \<open>A closed dialog stays closed under every operation.\<close>

definition closed_dialog :: "string \<Rightarrow> store \<Rightarrow> bool" where
  "closed_dialog k s \<longleftrightarrow> (\<exists>d \<in> set (dialogs s). dg_id d = k \<and> dg_state d \<noteq> Pending)"

lemma closed_update: "closed_dialog k s \<Longrightarrow> st \<noteq> Pending \<Longrightarrow> closed_dialog k (update_dialogs P st t s)"
proof -
  assume "closed_dialog k s" "st \<noteq> Pending"
  then obtain d where "d \<in> set (dialogs s)" "dg_id d = k" "dg_state d \<noteq> Pending" by (auto simp: closed_dialog_def)
  with \<open>st \<noteq> Pending\<close> show ?thesis unfolding closed_dialog_def update_dialogs_def
    by (intro bexI [of _ "if P d then d\<lparr>dg_state := st, dg_updated := t\<rparr> else d"]) auto
qed

lemma closed_not_pending:
  assumes "dialogs_ok s" and "closed_dialog k s" and "d \<in> set (dialogs s)" and "dg_id d = k"
  shows "dg_state d \<noteq> Pending"
proof -
  from assms(2) obtain e where "e \<in> set (dialogs s)" "dg_id e = k" "dg_state e \<noteq> Pending" by (auto simp: closed_dialog_def)
  moreover have "inj_on dg_id (set (dialogs s))" using assms(1) by (simp add: dialogs_ok_def distinct_map)
  ultimately show ?thesis using assms(3,4) by (metis inj_onD)
qed

lemma closed_cong: "dialogs t = dialogs s \<Longrightarrow> closed_dialog k t = closed_dialog k s"
  by (simp add: closed_dialog_def)

lemma closed_db: "closed_dialog k s \<Longrightarrow> db_of t = db_of s \<Longrightarrow> closed_dialog k t"
  by (metis closed_cong db_of_sel(11))

lemma closed_create:
  assumes "closed_dialog k s"
  shows "closed_dialog k (snd (createDialog i up method req expires did s))"
  unfolding createDialog_def
proof (rule transaction_preserves)
  let ?u = "update_dialogs (\<lambda>d. dg_session d = i \<and> dg_state d = Pending) Orphaned (clock s) s"
  fix d s'
  assume "tx_bind (given_or_uuid did) (\<lambda>k t.
         let d = \<lparr>dg_id = k, dg_session = i, dg_upstream = up, dg_method = method, dg_request = req,
                   dg_state = Pending, dg_created = clock t, dg_expires = expires, dg_updated = clock t\<rparr> in
         tx_bind (insert_dialog d) (\<lambda>_. tx_return d) t) ?u = Inr (d, s')"
  then obtain j t where t: "given_or_uuid did ?u = Inr (j, t)" and ins: "insert_dialog d t = Inr ((), s')"
    by (auto simp: tx_bind_Inr_iff Let_def)
  have "dialogs t = dialogs ?u" using given_or_uuid_Inr [OF t] by auto
  moreover have "dialogs s' = dialogs t @ [d]" using ins by (auto simp: insert_dialog_def split: if_splits)
  moreover have "closed_dialog k ?u" by (rule closed_update) (use assms in simp_all)
  ultimately show "closed_dialog k s'" by (auto simp: closed_dialog_def)
qed (rule closed_db [OF assms])

lemma closed_respond:
  assumes "closed_dialog k s"
  shows "closed_dialog k (snd (claimDialogResponse i j now s))"
  unfolding claimDialogResponse_def
proof (rule transaction_preserves)
  fix d s'
  assume "claimDialogResponse_tx i j now s = Inr (d, s')"
  from claimDialogResponse_tx_InrD [OF this] show "closed_dialog k s'"
    using assms by (simp add: snd_pendingDialog snd_expireDialogs closed_update)
qed (rule closed_db [OF assms])

lemma closed_orphan:
  assumes "closed_dialog k s"
  shows "closed_dialog k (snd (orphanPendingDialogs i s))"
  unfolding orphanPendingDialogs_def
proof (rule transaction_preserves)
  fix n s'
  assume "Inr (length (filter (\<lambda>d. dg_session d = i \<and> dg_state d = Pending) (dialogs s)),
       update_dialogs (\<lambda>d. dg_session d = i \<and> dg_state d = Pending) Orphaned (clock s) s) = Inr (n, s')"
  then show "closed_dialog k s'" using closed_update [OF assms] by auto
qed (rule closed_db [OF assms])

lemma closed_step: "dialog_step s t \<Longrightarrow> closed_dialog k s \<Longrightarrow> closed_dialog k t"
  by (induction rule: dialog_step.induct)
    (simp_all add: closed_create closed_respond closed_orphan snd_pendingDialog snd_expireDialogs closed_update,
      metis closed_cong)

lemma claim_closes:
  assumes "claimDialogResponse i k now s = (Inr d, s')"
  shows "closed_dialog k s' \<and> fst (pendingDialog i now s) = Some d \<and> dg_id d = k"
proof -
  let ?P = "\<lambda>d. dg_id d = k \<and> dg_state d = Pending \<and> dg_expires d > now"
  let ?t = "snd (pendingDialog i now s)"
  have r: "fst (pendingDialog i now s) = Some d" "dg_id d = k" "s' = update_dialogs ?P Responded now ?t"
    using claimDialogResponse_tx_InrD assms by (auto simp: claimDialogResponse_def transaction_Inr_iff)
  note d = pendingDialog_SomeD [OF r(1)]
  have "d \<in> set (dialogs ?t)" unfolding snd_pendingDialog snd_expireDialogs update_dialogs_def
    using d by (auto intro!: rev_image_eqI [of d])
  then have "d\<lparr>dg_state := Responded, dg_updated := now\<rparr> \<in> set (dialogs s')"
    unfolding r(3) update_dialogs_def using d r(2) by (auto intro!: rev_image_eqI [of d])
  then have "closed_dialog k s'" unfolding closed_dialog_def
    by (rule bexI [rotated]) (use r(2) in simp)
  with r(1,2) show ?thesis by simp
qed

interpretation dialog_run: kept_along dialog_step dialogs_ok
  by unfold_locales (rule dialog_step_ok)

text \<open>
  C13 (answered_once). A dialog is answered at most once: after a successful answer, whatever happens next
  (other dialogs opened, expired, orphaned, looked at, in any order), no answer for the same dialog succeeds,
  from any session and at any time. The answered dialog was pending and not expired.
\<close>

theorem answered_once:
  assumes "dialog_step\<^sup>*\<^sup>* (empty_store us t0) s" and "claimDialogResponse i k now s = (Inr d, s1)"
    and "dialog_step\<^sup>*\<^sup>* s1 s2"
  shows "dg_state d = Pending \<and> now < dg_expires d \<and> dg_id d = k
     \<and> (\<forall>j t. \<exists>e. fst (claimDialogResponse j k t s2) = Inl e)"
proof -
  have ok: "dialogs_ok s" by (rule dialog_run.run_kept [OF assms(1) dialogs_ok_empty])
  have c1: "closed_dialog k s1" and p: "fst (pendingDialog i now s) = Some d" "dg_id d = k"
    using claim_closes [OF assms(2)] by simp_all
  have ok1: "dialogs_ok s1" using claimDialogResponse_ok [OF ok, of i k now] assms(2) by simp
  have "closed_dialog k s2 \<and> dialogs_ok s2" using assms(3)
    by (induction rule: rtranclp_induct) (use c1 ok1 in \<open>auto intro: dialog_step_ok closed_step\<close>)
  then have no: "\<not> (d' \<in> set (dialogs s2) \<and> dg_state d' = Pending \<and> dg_id d' = k)" for d'
    using closed_not_pending by blast
  have "\<exists>e. fst (claimDialogResponse j k t s2) = Inl e" for j t
  proof (cases "claimDialogResponse j k t s2")
    case (Pair r s')
    then show ?thesis
    proof (cases r)
      case (Inr d')
      with Pair claim_closes [of j k t s2 d' s'] pendingDialog_SomeD [of j t s2 d'] no [of d'] show ?thesis by simp
    qed simp
  qed
  then show ?thesis using pendingDialog_SomeD [OF p(1)] p(2) by blast
qed

text \<open>
  C14 (one_pending_dialog). However the dialog operations are interleaved, a session never has two pending
  dialogs, and the one a lookup returns is pending and has not expired.
\<close>

theorem one_pending_dialog:
  assumes "dialog_step\<^sup>*\<^sup>* (empty_store us t0) s"
    and "d \<in> set (dialogs s)" "e \<in> set (dialogs s)" "dg_state d = Pending" "dg_state e = Pending"
    and "dg_session d = dg_session e"
  shows "d = e \<and> (now < dg_expires d \<longrightarrow> fst (pendingDialog (dg_session d) now s) = Some d)"
proof -
  have ok: "dialogs_ok s" by (rule dialog_run.run_kept [OF assms(1) dialogs_ok_empty])
  have "inj_on dg_session (set (pending_dialogs s))" using ok by (simp add: dialogs_ok_def distinct_map)
  then have "d = e" using assms(2-) by (auto simp: pending_dialogs_def dest: inj_onD)
  moreover have "fst (pendingDialog (dg_session d) now s) = Some d" if "now < dg_expires d"
  proof -
    let ?t = "snd (expireDialogs now s)"
    have "filter (\<lambda>x. dg_session x = dg_session d) (pending_dialogs ?t) = [d]"
    proof (rule filter_key_unique)
      show "distinct (map dg_session (pending_dialogs ?t))" using expireDialogs_ok [OF ok] by (simp add: dialogs_ok_def)
      show "d \<in> set (pending_dialogs ?t)"
        using assms(2,4) that by (simp add: snd_expireDialogs update_dialogs_pending) (simp add: pending_dialogs_def)
    qed
    then have "filter (\<lambda>x. dg_session x = dg_session d \<and> dg_state x = Pending) (dialogs ?t) = [d]"
      by (simp add: pending_dialogs_def conj_commute)
    then show ?thesis by (simp add: pendingDialog_def Let_def case_prod_unfold)
  qed
  ultimately show ?thesis by simp
qed

section \<open>Instances\<close>

definition demo_dialog :: store where
  "demo_dialog = demo_store\<lparr>dialogs :=
   [\<lparr>dg_id = ''d1'', dg_session = ''a'', dg_upstream = ''u'', dg_method = ''confirm'', dg_request = [],
     dg_state = Pending, dg_created = 1000, dg_expires = 2000, dg_updated = 1000\<rparr>]\<rparr>"

lemma demo_dialog_step: "dialog_step\<^sup>*\<^sup>* (empty_store demo_uuids 0) demo_dialog"
proof -
  have d: "dialogs demo_store = []" by (simp add: demo_store_def empty_store_def)
  have 1: "dialog_step (empty_store demo_uuids 0) demo_store"
    by (rule dialog_step.elsewhere) (simp add: d, simp add: empty_store_def)
  have "createDialog ''a'' ''u'' ''confirm'' [] 2000 (Some ''d1'') demo_store = (Inr (hd (dialogs demo_dialog)), demo_dialog)"
    unfolding createDialog_def
    by (rule transaction_Inr) (simp_all add: update_dialogs_def d given_or_uuid_def insert_dialog_def Let_def
        sessionExists_def session_row_of_def tx_bind_def demo_dialog_def)
  then have 2: "dialog_step demo_store demo_dialog"
    using dialog_step.create [of demo_store "''a''" "''u''" "''confirm''" "[]" 2000 "Some ''d1''"] by simp
  from 1 2 show ?thesis by (rule rtranclp.rtrancl_into_rtrancl [OF r_into_rtranclp])
qed

theorem answered_once_witness:
  "\<exists>d s1. claimDialogResponse ''a'' ''d1'' 1500 demo_dialog = (Inr d, s1)
     \<and> (\<exists>e. fst (claimDialogResponse ''a'' ''d1'' 1500 s1) = Inl e)"
proof -
  have "ready demo_dialog" using demo_store_sel(5) by (simp add: demo_dialog_def ready_def)
  moreover have "\<exists>d s1. claimDialogResponse_tx ''a'' ''d1'' 1500 demo_dialog = Inr (d, s1)"
    by (simp add: claimDialogResponse_tx_def pendingDialog_def expireDialogs_def Let_def demo_dialog_def)
  ultimately obtain d s1 where c: "claimDialogResponse ''a'' ''d1'' 1500 demo_dialog = (Inr d, s1)"
    by (auto simp: claimDialogResponse_def transaction_Inr)
  with answered_once [OF demo_dialog_step c rtranclp.rtrancl_refl] show ?thesis by blast
qed

theorem one_pending_dialog_witness:
  "fst (pendingDialog ''a'' 1500 demo_dialog) = Some (hd (dialogs demo_dialog))"
proof -
  have "hd (dialogs demo_dialog) \<in> set (dialogs demo_dialog)" "dg_state (hd (dialogs demo_dialog)) = Pending"
    "dg_session (hd (dialogs demo_dialog)) = ''a''" "1500 < dg_expires (hd (dialogs demo_dialog))"
    by (simp_all add: demo_dialog_def)
  with one_pending_dialog [OF demo_dialog_step, of "hd (dialogs demo_dialog)" "hd (dialogs demo_dialog)" 1500]
  show ?thesis by simp
qed

end
