(* ===== verification/Store_Sessions.thy ===== *)
theory Store_Sessions
  imports Store_Queue
begin

text \<open>
  The session directory of core/store.ts: summaries, the list the mobile client pages through,
  and the life cycle of a deleted session (soft delete, restore, purge).

  What the JavaScript engine leaves open (reading a date or a number from an arbitrary text,
  locale-aware comparison) is the parameter \<open>engine\<close>.
\<close>

record engine =
  en_date :: "string \<Rightarrow> int option"
  en_number :: "json \<Rightarrow> int option"
  en_string :: "json \<Rightarrow> string"
  en_compare :: "string \<Rightarrow> string \<Rightarrow> int"

text \<open>\<open>Number(x)\<close>, \<open>None\<close> for a result that is not a finite number, and \<open>String(x)\<close>.\<close>

definition jsNumber :: "engine \<Rightarrow> json \<Rightarrow> int option" where
  "jsNumber en j =
     (case j of
        JNum n \<Rightarrow> Some n
      | JNull \<Rightarrow> Some 0
      | JBool b \<Rightarrow> Some (if b then 1 else 0)
      | JStr s \<Rightarrow> if decimal_cursor_pattern s then Some (int (big_int s)) else en_number en j
      | _ \<Rightarrow> en_number en j)"

definition jsString :: "engine \<Rightarrow> json \<Rightarrow> string" where
  "jsString en j =
     (case j of
        JStr s \<Rightarrow> s
      | JNum n \<Rightarrow> int_text n
      | JNull \<Rightarrow> ''null''
      | JBool b \<Rightarrow> (if b then ''true'' else ''false'')
      | _ \<Rightarrow> en_string en j)"

text \<open>\<open>a ?? b\<close> on property values: \<open>undefined\<close> and \<open>null\<close> fall through.\<close>

definition nullish :: "json option \<Rightarrow> json option \<Rightarrow> json option" where
  "nullish a b = (case a of None \<Rightarrow> b | Some JNull \<Rightarrow> b | Some _ \<Rightarrow> a)"

section \<open>Visibility\<close>

definition MOBILE_SESSION_VISIBILITY_WINDOW_MS :: int where
  "MOBILE_SESSION_VISIBILITY_WINDOW_MS = 7 * 24 * 60 * 60 * 1000"

definition MOBILE_ACTIVE_RUNTIME_STATES :: "string list" where
  "MOBILE_ACTIVE_RUNTIME_STATES =
     [''starting'', ''idle'', ''running'', ''waiting_for_input'', ''retry_wait'', ''compacting'',
      ''stopping'', ''crashed'', ''crash_loop'', ''incompatible'', ''indeterminate'']"

definition isMobileSessionVisible :: "engine \<Rightarrow> obj \<Rightarrow> int \<Rightarrow> bool" where
  "isMobileSessionVisible en summary now =
     (let runtimeState = (case prop_get summary ''runtimeState'' of Some (JStr r) \<Rightarrow> r | _ \<Rightarrow> []) in
      if runtimeState \<in> set MOBILE_ACTIVE_RUNTIME_STATES then True
      else if prop_get summary ''attentionState'' = Some (JStr ''needs_attention'') then True
      else if (case prop_get summary ''queueCount'' of Some (JNum n) \<Rightarrow> n > 0 | _ \<Rightarrow> False) then True
      else (let activity = (case prop_get summary ''lastActivityAt'' of
                  Some (JNum n) \<Rightarrow> Some n
                | Some (JStr t) \<Rightarrow> dateParse (en_date en) t
                | _ \<Rightarrow> (case nullish (prop_get summary ''createdAt'') (Some (JNum 0)) of
                         Some j \<Rightarrow> jsNumber en j | None \<Rightarrow> None)) in
            case activity of None \<Rightarrow> False | Some a \<Rightarrow> now - a \<le> MOBILE_SESSION_VISIBILITY_WINDOW_MS))"


section \<open>Summaries\<close>







section \<open>Listing\<close>

record summary_query =
  sq_filter :: "string option"
  sq_query :: "string option"
  sq_sort :: "string option"
  sq_size :: int
  sq_before :: "string option"
  sq_parent :: "string option option"

record summary_page =
  sm_items :: "obj list"
  sm_revision :: string
  sm_next :: "string option"

definition SESSION_SORT_KEYS :: "string list" where
  "SESSION_SORT_KEYS = [''name'', ''attention'', ''activity'', ''created'', ''queue'']"

definition ATTENTION_FILTERS :: "string list" where
  "ATTENTION_FILTERS =
     [''all'', ''needs_attention'', ''ready'', ''settled'', ''failed'', ''aborted'', ''indeterminate'']"

definition session_objects :: "store \<Rightarrow> obj list" where
  "session_objects s =
     map (\<lambda>r. spread (sn_state r) [(''sessionId'', JStr (sn_id r)), (''createdAt'', JNum (sn_created r))])
       (order_by session_less (sessions s))"

definition parent_matches :: "string option \<Rightarrow> obj \<Rightarrow> bool" where
  "parent_matches p row =
     (case nullish (prop_get row ''parentSessionId'') None of
        None \<Rightarrow> p = None
      | Some (JStr x) \<Rightarrow> p = Some x
      | Some _ \<Rightarrow> False)"

text \<open>The name the query is matched against.\<close>

definition search_name :: "obj \<Rightarrow> string" where
  "search_name row =
     (case prop_get row ''name'' of
        Some (JStr n) \<Rightarrow> n
      | _ \<Rightarrow> (case prop_get row ''displayName'' of
                 Some (JStr n) \<Rightarrow> n
               | _ \<Rightarrow> (case prop_get row ''sessionId'' of Some (JStr n) \<Rightarrow> n | _ \<Rightarrow> [])))"

definition matching_rows :: "engine \<Rightarrow> summary_query \<Rightarrow> int \<Rightarrow> obj list \<Rightarrow> obj list" where
  "matching_rows en q now rows =
     (let flt = (case sq_filter q of None \<Rightarrow> ''all'' | Some f \<Rightarrow> f);
          query = map lower_char (case sq_query q of None \<Rightarrow> [] | Some t \<Rightarrow> t);
          alive = (\<lambda>row. prop_get row ''lifecycleState'' \<noteq> Some (JStr ''purged''));
          rows1 = (case sq_parent q of
                     Some p \<Rightarrow> filter (\<lambda>row. parent_matches p row \<and> alive row) rows
                   | None \<Rightarrow> filter alive rows);
          rows2 = filter (\<lambda>row. isMobileSessionVisible en row now) rows1;
          rows3 = (if flt = ''needs_attention''
                   then filter (\<lambda>row. prop_get row ''attentionState'' = Some (JStr ''needs_attention'')) rows2
                   else if flt \<noteq> ''all''
                   then filter (\<lambda>row. prop_get row ''attentionState'' = Some (JStr flt)
                                   \<or> prop_get row ''runtimeState'' = Some (JStr flt)) rows2
                   else rows2) in
      if query \<noteq> [] then filter (\<lambda>row. str_includes query (map lower_char (search_name row))) rows3
      else rows3)"

definition sort_text :: "engine \<Rightarrow> string \<Rightarrow> obj \<Rightarrow> string" where
  "sort_text en ky row =
     (if ky = ''name''
      then (case nullish (prop_get row ''name'') (nullish (prop_get row ''displayName'') (prop_get row ''sessionId'')) of
              Some j \<Rightarrow> jsString en j | None \<Rightarrow> ''undefined'')
      else (case nullish (prop_get row ''attentionState'') (Some (JStr [])) of
              Some j \<Rightarrow> jsString en j | None \<Rightarrow> []))"

definition sort_number :: "engine \<Rightarrow> string \<Rightarrow> obj \<Rightarrow> int option" where
  "sort_number en ky row =
     (let num = (\<lambda>j. case j of None \<Rightarrow> None | Some x \<Rightarrow> jsNumber en x) in
      if ky = ''created'' then num (nullish (prop_get row ''createdAt'') (Some (JNum 0)))
      else if ky = ''queue'' then num (nullish (prop_get row ''queueCount'') (Some (JNum 0)))
      else num (nullish (prop_get row ''lastActivityAt'') (nullish (prop_get row ''createdAt'') (Some (JNum 0)))))"

text \<open>The comparator given to \<open>Array.sort\<close>, as "comes before"; a NaN difference counts as equal.\<close>

definition summary_before :: "engine \<Rightarrow> string \<Rightarrow> obj \<Rightarrow> obj \<Rightarrow> bool" where
  "summary_before en ky a b =
     (if ky = ''name'' then en_compare en (sort_text en ky a) (sort_text en ky b) < 0
      else if ky = ''attention'' then en_compare en (sort_text en ky b) (sort_text en ky a) < 0
      else (case (sort_number en ky a, sort_number en ky b) of
              (Some x, Some y) \<Rightarrow> y < x
            | _ \<Rightarrow> False))"

definition listed_rows :: "engine \<Rightarrow> summary_query \<Rightarrow> store \<Rightarrow> obj list" where
  "listed_rows en q s =
     order_by (summary_before en (case sq_sort q of None \<Rightarrow> ''activity'' | Some k \<Rightarrow> k))
       (matching_rows en q (clock s) (session_objects s))"

definition listSessionSummaries :: "engine \<Rightarrow> summary_query \<Rightarrow> store \<Rightarrow> (exn + summary_page) \<times> store" where
  "listSessionSummaries en q s =
     (if sq_size q < 1 \<or> sq_size q > 100
      then (Inl (Store_error Conflict ''page size must be an integer from 1 through 100''), s)
      else if (case sq_sort q of None \<Rightarrow> False | Some k \<Rightarrow> k \<notin> set SESSION_SORT_KEYS)
      then (Inl (Store_error Conflict ''sort must be one of name|attention|activity|created|queue''), s)
      else if (case sq_filter q of None \<Rightarrow> False | Some f \<Rightarrow> f \<notin> set ATTENTION_FILTERS)
      then (Inl (Store_error Conflict ''filter must be all|needs_attention|ready|settled|failed|aborted|indeterminate''), s)
      else transaction
        (tx_bind identity (\<lambda>(h, _) t.
          case streamPosition t (host_stream h) of
            None \<Rightarrow> Inl (Store_error Not_found ''host stream not found'')
          | Some (current, _) \<Rightarrow>
              (let rows = listed_rows en q t;
                   offset = (case sq_before q of
                               None \<Rightarrow> Some 0
                             | Some b \<Rightarrow> if b = [] then Some 0 else jsNumber en (JStr b)) in
               case offset of
                 None \<Rightarrow> Inl (Store_error Conflict ''before cursor is not a valid offset'')
               | Some off \<Rightarrow>
                   if off < 0 then Inl (Store_error Conflict ''before cursor is not a valid offset'')
                   else Inr (\<lparr>sm_items = take (nat (sq_size q)) (drop (nat off) rows), sm_revision = current,
                         sm_next = (if nat off + nat (sq_size q) < length rows
                                    then Some (dec (nat off + nat (sq_size q))) else None)\<rparr>, t)))) s)"

section \<open>Life cycle\<close>

definition resolvedSessionName :: "store \<Rightarrow> string \<Rightarrow> exn + string" where
  "resolvedSessionName s i =
     (case sessionState s i of
        None \<Rightarrow> Inl (Store_error Not_found ''session not found'')
      | Some st \<Rightarrow>
          (let name = (case prop_get st ''name'' of Some (JStr n) \<Rightarrow> trim n | _ \<Rightarrow> []) in
           Inr (if name \<noteq> [] then name else ''Session '' @ take 8 i)))"

definition lifecycle :: "obj \<Rightarrow> json option" where
  "lifecycle st = prop_get st ''lifecycleState''"

text \<open>Store the new state and announce it on the session's and on the host's stream.\<close>

definition announce_state :: "string \<Rightarrow> obj \<Rightarrow> string \<Rightarrow> obj \<Rightarrow> obj tx" where
  "announce_state i nxt ty payload s =
     tx_bind (append_fresh (session_stream i) ty payload) (\<lambda>_.
     tx_bind identity (\<lambda>(h, _).
     tx_bind (append_fresh (host_stream h) ''session.summary'' nxt) (\<lambda>_. tx_return nxt)))
     (set_session_state i nxt s)"

definition softDeleteSession :: "string \<Rightarrow> int \<Rightarrow> int \<Rightarrow> store \<Rightarrow> (exn + obj) \<times> store" where
  "softDeleteSession i retention at s =
     (if retention \<le> 0 then (Inl (Store_error Conflict ''retention must be positive''), s)
      else transaction (\<lambda>t.
        case sessionState t i of
          None \<Rightarrow> Inl (Store_error Not_found ''session not found'')
        | Some prior \<Rightarrow>
            if lifecycle prior = Some (JStr ''purged'')
            then Inl (Store_error Conflict ''purged session cannot be deleted'')
            else if lifecycle prior = Some (JStr ''soft_deleted'') then Inr (prior, t)
            else announce_state i
              (spread prior
                 [(''lifecycleState'', JStr ''soft_deleted''), (''deletionState'', JStr ''soft_deleted''),
                  (''deletedAt'', JStr (isoTime at)), (''purgeAfter'', JStr (isoTime (at + retention))),
                  (''runtimeState'', JStr ''stopped'')])
              ''session.deleted''
              [(''sessionId'', JStr i), (''deletedAt'', JStr (isoTime at)),
               (''purgeAfter'', JStr (isoTime (at + retention)))] t) s)"

definition markSessionDeleteFailed :: "string \<Rightarrow> string \<Rightarrow> store \<Rightarrow> (exn + obj) \<times> store" where
  "markSessionDeleteFailed i reason =
     transaction (\<lambda>t.
        case sessionState t i of
          None \<Rightarrow> Inl (Store_error Not_found ''session not found'')
        | Some prior \<Rightarrow>
            announce_state i
              (spread prior
                 [(''lifecycleState'', JStr ''delete_failed''), (''deletionState'', JStr ''delete_failed''),
                  (''repairReason'', JStr (take 500 reason)), (''deleteAttemptedAt'', JStr (isoTime (clock t)))])
              ''session.delete_failed''
              [(''sessionId'', JStr i), (''repairReason'', JStr (take 500 reason)), (''repairable'', JBool True)] t)"

definition restoreSoftDeletedSession :: "engine \<Rightarrow> string \<Rightarrow> int \<Rightarrow> store \<Rightarrow> (exn + obj) \<times> store" where
  "restoreSoftDeletedSession en i at =
     transaction (\<lambda>t.
        case sessionState t i of
          None \<Rightarrow> Inl (Store_error Not_found ''session not found'')
        | Some prior \<Rightarrow>
            if lifecycle prior = Some (JStr ''delete_failed'')
            then Inl (Store_error Conflict ''delete repair is required before restore'')
            else if lifecycle prior \<noteq> Some (JStr ''soft_deleted'')
            then Inl (Store_error Conflict ''session is not deleted'')
            else
              (let deadline = dateParse (en_date en)
                     (case nullish (prop_get prior ''purgeAfter'') (Some (JStr [])) of
                        Some j \<Rightarrow> jsString en j | None \<Rightarrow> []) in
               if (case deadline of None \<Rightarrow> True | Some d \<Rightarrow> d \<le> at)
               then Inl (Store_error Conflict ''restore window has elapsed'')
               else announce_state i
                 (spread prior
                    [(''lifecycleState'', JStr ''active''), (''deletionState'', JStr ''active''),
                     (''deletedAt'', JNull), (''purgeAfter'', JNull), (''repairReason'', JNull),
                     (''restoredAt'', JStr (isoTime at))])
                 ''session.restored''
                 [(''sessionId'', JStr i), (''restoredAt'', JStr (isoTime at))] t))"


section \<open>Deleting and restoring\<close>

lemma sessionState_live: "session_live s i \<Longrightarrow> \<exists>st. sessionState s i = Some st"
  by (auto simp: session_live_def sessionExists_def sessionState_def)

lemma announce_state_run:
  assumes "store_wf s" and "session_live s i"
  obtains s' where "announce_state i nxt ty p s = Inr (nxt, s')" "store_wf s'" "session_live s' i"
    "sessionState s' i = Some nxt" "\<And>j. j \<noteq> i \<Longrightarrow> sessionState s' j = sessionState s j"
    "map ev_type (drop (length (events s)) (events s')) = [ty, ''session.summary'']"
proof -
  let ?t = "set_session_state i nxt s"
  have wt: "store_wf ?t" and lt: "session_live ?t i" using assms set_session_state_wf by auto
  have "stream_row_of ?t (session_stream i) \<noteq> None" using lt by (simp add: session_live_def)
  then obtain e1 s1 where a1: "append_fresh (session_stream i) ty p ?t = Inr (e1, s1)" and w1: "store_wf s1"
    by (rule append_fresh_wf [OF wt])
  note f1 = append_fresh_frame [OF a1]
  have l1: "session_live s1 i" using lt append_fresh_live [OF a1] by simp
  then obtain h g where h: "ident s1 = Some (h, g)" "stream_row_of s1 (host_stream h) \<noteq> None"
    by (auto simp: session_live_def)
  obtain e2 s2 where a2: "append_fresh (host_stream h) ''session.summary'' nxt s1 = Inr (e2, s2)" and w2: "store_wf s2"
    by (rule append_fresh_wf [OF w1 h(2)])
  note f2 = append_fresh_frame [OF a2]
  have r: "announce_state i nxt ty p s = Inr (nxt, s2)"
    using a1 identity_stable [OF h(1)] a2 by (simp add: announce_state_def tx_bind_def)
  have ss: "sessionState s2 j = sessionState ?t j" for j
    using session_row_of_cong [OF f2(2)] session_row_of_cong [OF f1(2)] by (simp add: sessionState_def)
  obtain st where "sessionState s i = Some st" using sessionState_live [OF assms(2)] by blast
  then show thesis
    by (intro that [OF r w2]) (use l1 append_fresh_live [OF a2] f1 f2 in \<open>simp_all add: ss sessionState_set\<close>)
qed

lemma prop_get_lifecycle [simp]: "lifecycle (prop_set k v ob) = (if k = ''lifecycleState'' then Some v else lifecycle ob)"
  by (simp add: lifecycle_def)

text \<open>
  C15 (delete_then_restore). Soft deletion of a live session records the deadline; a restore before it, and only
  before it, brings the session back as active under its name, with one event each on the session's and the host's
  stream. After the deadline the restore is refused and nothing changes.
\<close>

theorem delete_then_restore:
  assumes "store_wf s" and "session_live s i" and "sessionState s i = Some st"
    and "lifecycle st \<noteq> Some (JStr ''purged'')" and "lifecycle st \<noteq> Some (JStr ''soft_deleted'')"
    and "0 \<le> at" and "0 < r" and "at + r < 253402300800000"
  shows "\<exists>st1 s1. softDeleteSession i r at s = (Inr st1, s1) \<and> sessionState s1 i = Some st1 \<and> store_wf s1
     \<and> lifecycle st1 = Some (JStr ''soft_deleted'')
     \<and> map ev_type (drop (length (events s)) (events s1)) = [''session.deleted'', ''session.summary'']
     \<and> (\<forall>t. if t < at + r
          then \<exists>st2 s2. restoreSoftDeletedSession en i t s1 = (Inr st2, s2) \<and> sessionState s2 i = Some st2
              \<and> lifecycle st2 = Some (JStr ''active'') \<and> prop_get st2 ''name'' = prop_get st ''name'' \<and> store_wf s2
          else restoreSoftDeletedSession en i t s1
              = (Inl (Store_error Conflict ''restore window has elapsed''), s1))"
proof -
  let ?st1 = "spread st
                 [(''lifecycleState'', JStr ''soft_deleted''), (''deletionState'', JStr ''soft_deleted''),
                  (''deletedAt'', JStr (isoTime at)), (''purgeAfter'', JStr (isoTime (at + r))),
                  (''runtimeState'', JStr ''stopped'')]"
  let ?p1 = "[(''sessionId'', JStr i), (''deletedAt'', JStr (isoTime at)), (''purgeAfter'', JStr (isoTime (at + r)))]"
  obtain s1 where a: "announce_state i ?st1 ''session.deleted'' ?p1 s = Inr (?st1, s1)" and w1: "store_wf s1"
    and l1: "session_live s1 i" and st1: "sessionState s1 i = Some ?st1"
    and ev: "map ev_type (drop (length (events s)) (events s1)) = [''session.deleted'', ''session.summary'']"
    by (rule announce_state_run [OF assms(1,2), where nxt = ?st1 and ty = "''session.deleted''" and p = ?p1])
  have del: "softDeleteSession i r at s = (Inr ?st1, s1)"
    using assms(3-5,7) a store_wfD(1) [OF assms(1)] by (simp add: softDeleteSession_def transaction_Inr)
  have life: "lifecycle ?st1 = Some (JStr ''soft_deleted'')" by simp
  have dl: "dateParse (en_date en) (isoTime (at + r)) = Some (at + r)"
    using assms(6-8) by (intro iso_parse_written) simp_all
  have pa: "(case nullish (prop_get ?st1 ''purgeAfter'') (Some (JStr [])) of
       Some j \<Rightarrow> jsString en j | None \<Rightarrow> []) = isoTime (at + r)"
    by (simp add: nullish_def jsString_def)
  have rest: "if t < at + r
          then \<exists>st2 s2. restoreSoftDeletedSession en i t s1 = (Inr st2, s2) \<and> sessionState s2 i = Some st2
              \<and> lifecycle st2 = Some (JStr ''active'') \<and> prop_get st2 ''name'' = prop_get st ''name'' \<and> store_wf s2
          else restoreSoftDeletedSession en i t s1 = (Inl (Store_error Conflict ''restore window has elapsed''), s1)" for t
  proof (cases "t < at + r")
    case True
    let ?st2 = "spread ?st1
                    [(''lifecycleState'', JStr ''active''), (''deletionState'', JStr ''active''),
                     (''deletedAt'', JNull), (''purgeAfter'', JNull), (''repairReason'', JNull),
                     (''restoredAt'', JStr (isoTime t))]"
    obtain s2 where b: "announce_state i ?st2 ''session.restored''
         [(''sessionId'', JStr i), (''restoredAt'', JStr (isoTime t))] s1 = Inr (?st2, s2)" and w2: "store_wf s2"
      and st2: "sessionState s2 i = Some ?st2"
      by (rule announce_state_run [OF w1 l1]) blast
    have "restoreSoftDeletedSession en i t s1 = (Inr ?st2, s2)"
      unfolding restoreSoftDeletedSession_def
      by (rule transaction_Inr [OF store_wfD(1) [OF w1]])
        (use True b in \<open>simp add: st1 life dl pa Let_def del: spread_Cons\<close>)
    then have "\<exists>st2 s2. restoreSoftDeletedSession en i t s1 = (Inr st2, s2) \<and> sessionState s2 i = Some st2
              \<and> lifecycle st2 = Some (JStr ''active'') \<and> prop_get st2 ''name'' = prop_get st ''name'' \<and> store_wf s2"
      by (intro exI [of _ ?st2] exI [of _ s2]) (simp add: w2 st2)
    with True show ?thesis by simp
  next
    case False
    then show ?thesis using store_wfD(1) [OF w1]
      by (simp add: restoreSoftDeletedSession_def transaction_eq st1 life dl pa Let_def mapError_def del: spread_Cons)
  qed
  show ?thesis
    by (rule exI [of _ ?st1], rule exI [of _ s1], intro conjI del st1 w1 life ev allI rest)
qed

section \<open>Purged sessions\<close>




























text \<open>The exception: a failed deletion is recorded for a purged session too, which is then no longer purged.\<close>

lemma purged_can_fail:
  assumes "store_wf s" and "session_live s i" and "sessionState s i = Some st"
  obtains st' s' where "markSessionDeleteFailed i why s = (Inr st', s')" "lifecycle st' = Some (JStr ''delete_failed'')"
    "sessionState s' i = Some st'"
proof -
  let ?n = "spread st [(''lifecycleState'', JStr ''delete_failed''), (''deletionState'', JStr ''delete_failed''),
    (''repairReason'', JStr (take 500 why)), (''deleteAttemptedAt'', JStr (isoTime (clock s)))]"
  obtain s' where "announce_state i ?n ''session.delete_failed''
      [(''sessionId'', JStr i), (''repairReason'', JStr (take 500 why)), (''repairable'', JBool True)] s = Inr (?n, s')"
    "sessionState s' i = Some ?n"
    by (rule announce_state_run [OF assms(1,2)])
  then show thesis using assms(3) store_wfD(1) [OF assms(1)]
    by (intro that [of ?n s']) (simp_all add: markSessionDeleteFailed_def transaction_Inr_iff del: spread_Cons, simp)
qed



section \<open>Paging\<close>

text \<open>The client's traversal of the directory.\<close>

fun all_summaries :: "nat \<Rightarrow> engine \<Rightarrow> summary_query \<Rightarrow> store \<Rightarrow> obj list option" where
  "all_summaries 0 en q s = None"
| "all_summaries (Suc fuel) en q s =
     (case listSessionSummaries en q s of
        (Inl _, _) \<Rightarrow> None
      | (Inr p, _) \<Rightarrow>
          (case sm_next p of
             None \<Rightarrow> Some (sm_items p)
           | Some c \<Rightarrow> map_option (\<lambda>rest. sm_items p @ rest) (all_summaries fuel en (q\<lparr>sq_before := Some c\<rparr>) s)))"

definition query_ok :: "summary_query \<Rightarrow> bool" where
  "query_ok q \<longleftrightarrow> 1 \<le> sq_size q \<and> sq_size q \<le> 100
     \<and> (case sq_sort q of None \<Rightarrow> True | Some k \<Rightarrow> k \<in> set SESSION_SORT_KEYS)
     \<and> (case sq_filter q of None \<Rightarrow> True | Some f \<Rightarrow> f \<in> set ATTENTION_FILTERS)"

lemma listed_rows_before [simp]: "listed_rows en (q\<lparr>sq_before := b\<rparr>) s = listed_rows en q s"
  by (simp add: listed_rows_def matching_rows_def)

lemma listSessionSummaries_at:
  assumes "ready s" and "ident s = Some (h, g)" and "streamPosition s (host_stream h) = Some (cur, fl)"
    and "query_ok q" and "sq_before q = (if off = 0 then None else Some (dec off))"
  shows "listSessionSummaries en q s =
     (Inr \<lparr>sm_items = take (nat (sq_size q)) (drop off (listed_rows en q s)), sm_revision = cur,
           sm_next = (if off + nat (sq_size q) < length (listed_rows en q s)
                      then Some (dec (off + nat (sq_size q))) else None)\<rparr>, s)"
proof -
  have off: "(case sq_before q of None \<Rightarrow> Some 0 | Some b \<Rightarrow> if b = [] then Some 0 else jsNumber en (JStr b)) = Some (int off)"
    using assms(5) by (simp add: jsNumber_def)
  show ?thesis
    using assms(1,3,4) identity_stable [OF assms(2)]
    by (simp add: listSessionSummaries_def query_ok_def transaction_eq tx_bind_def off Let_def split: option.splits)
qed

text \<open>
  C17 (directory_paging). Following the directory's cursors from its first page ends and yields every session that
  matches the query exactly once, in the sorted order, for every page size from 1 to 100.
\<close>

theorem directory_paging:
  assumes "ready s" and "ident s = Some (h, g)" and "streamPosition s (host_stream h) = Some (cur, fl)"
    and "query_ok q" and "sq_before q = None"
  shows "all_summaries (Suc (length (listed_rows en q s))) en q s = Some (listed_rows en q s)"
proof -
  let ?rows = "listed_rows en q s"
  let ?n = "nat (sq_size q)"
  have n: "0 < ?n" using assms(4) by (simp add: query_ok_def)
  have "all_summaries (Suc k) en (q\<lparr>sq_before := (if off = 0 then None else Some (dec off))\<rparr>) s = Some (drop off ?rows)"
    if "length ?rows - off \<le> k" for k off
    using that
  proof (induction k arbitrary: off)
    case 0
    have "query_ok (q\<lparr>sq_before := b\<rparr>)" for b using assms(4) by (simp add: query_ok_def)
    with 0 show ?case
      by (simp add: listSessionSummaries_at [OF assms(1-3), of _ off])
  next
    case (Suc k)
    have qo: "query_ok (q\<lparr>sq_before := b\<rparr>)" for b using assms(4) by (simp add: query_ok_def)
    show ?case
    proof (cases "off + ?n < length ?rows")
      case False
      then show ?thesis by (simp add: listSessionSummaries_at [OF assms(1-3) qo, of _ off])
    next
      case True
      have "length ?rows - (off + ?n) \<le> k" using Suc.prems n by arith
      have "off + ?n \<noteq> 0" using n by simp
      with Suc.IH [OF \<open>length ?rows - (off + ?n) \<le> k\<close>]
      have "all_summaries (Suc k) en (q\<lparr>sq_before := Some (dec (off + ?n))\<rparr>) s = Some (drop (off + ?n) ?rows)"
        by (simp only: if_False)
      moreover have "take ?n (drop off ?rows) @ drop (off + ?n) ?rows = drop off ?rows"
        by (metis add.commute append_take_drop_id drop_drop)
      ultimately show ?thesis using True
        by (subst all_summaries.simps(2))
          (simp add: listSessionSummaries_at [OF assms(1-3) qo, of _ off] del: all_summaries.simps(2))
    qed
  qed
  from this [of 0 "length ?rows"]
  have "all_summaries (Suc (length ?rows)) en (q\<lparr>sq_before := None\<rparr>) s = Some ?rows"
    by (simp del: all_summaries.simps)
  moreover have "q\<lparr>sq_before := None\<rparr> = q" using assms(5) by simp
  ultimately show ?thesis by (simp only:)
qed

section \<open>A concrete directory\<close>

definition demo_engine :: engine where
  "demo_engine = \<lparr>en_date = (\<lambda>_. None), en_number = (\<lambda>_. None), en_string = (\<lambda>_. []),
                  en_compare = (\<lambda>a b. if a = b then 0 else 1)\<rparr>"

definition demo_query :: summary_query where
  "demo_query = \<lparr>sq_filter = None, sq_query = None, sq_sort = None, sq_size = 1, sq_before = None, sq_parent = None\<rparr>"

lemma demo_state: "sessionState demo_store ''a'' = Some []"
  by (simp add: sessionState_def session_row_of_def)

lemma lifecycle_Nil [simp]: "lifecycle [] = None"
  by (simp add: lifecycle_def prop_get_def)

theorem delete_then_restore_witness:
  "\<exists>st s'. softDeleteSession ''a'' 10 0 demo_store = (Inr st, s') \<and> lifecycle st = Some (JStr ''soft_deleted'')"
  using delete_then_restore [OF demo_store_wf demo_live demo_state, of 0 10 demo_engine] by auto



theorem directory_paging_witness:
  "all_summaries (Suc (length (listed_rows demo_engine demo_query demo_store))) demo_engine demo_query demo_store
     = Some (listed_rows demo_engine demo_query demo_store)"
proof -
  have "streamPosition demo_store (host_stream ''h'') = Some (dec 2, dec 0)"
    using demo_store_position(1) by (simp add: host_stream_def)
  then show ?thesis
    using directory_paging [OF demo_store_sel(5), of "''h''" "''1''" "dec 2" "dec 0" demo_query demo_engine]
    by (simp add: query_ok_def demo_query_def del: all_summaries.simps)
qed

end
