(* ===== verification/Schema.thy ===== *)
theory Schema
  imports Prelude
begin

text \<open>
  The schema language packages/protocol-schema/src/index.ts is written in.

  A schema is the tree that the TypeBox constructors \<open>Type.String\<close>, \<open>Type.Object\<close> and so on
  build; a constructor of \<open>schema\<close> stands for each of those the source uses, with the options it
  passes (the identifier option \<open>$id\<close> is only a label and is left out). The compiled validator,
  \<open>TypeCompiler.Compile(s).Check(v)\<close>, belongs to the TypeBox package. It is the parameter \<open>check\<close> of
  everything that validates, and the locale \<open>typebox\<close> states the documented meaning of each keyword.
  \<open>schema_check\<close> is a checker that satisfies the laws, and the only one.

  Regular expressions are modelled because they are part of the language: \<open>rx_run\<close> lists all ways
  a pattern can match at a position, so \<open>rx_test\<close> is \<open>RegExp.prototype.test\<close> for the patterns of the
  source, all of which start with the anchor.
\<close>

section \<open>Regular expressions\<close>

text \<open>
  A character class is written as the text of its ranges, two characters for each range. Patterns
  never use capture groups, so a match is determined by the position where it ends.
\<close>

datatype rx =
    Lit string
  | In string
  | NotIn string
  | Dot
  | Then rx rx
  | Alt rx rx
  | Rep rx nat "nat option"
  | AtStart
  | AtEnd
  | Ahead rx
  | NotAhead rx
  | NotBehind string

fun in_class :: "string \<Rightarrow> char \<Rightarrow> bool" where
  "in_class (a # b # cl) c =
     (of_char a \<le> (of_char c :: nat) \<and> (of_char c :: nat) \<le> of_char b \<or> in_class cl c)"
| "in_class _ c = False"

fun rx_iter :: "('p \<Rightarrow> 'p list) \<Rightarrow> nat \<Rightarrow> nat \<Rightarrow> 'p \<Rightarrow> 'p list" where
  "rx_iter f 0 0 p = [p]"
| "rx_iter f 0 (Suc m) p = p # concat (map (rx_iter f 0 m) (f p))"
| "rx_iter f (Suc l) m p = concat (map (rx_iter f l m) (f p))"

text \<open>
  A position is the text before it, last character first, and the text after it. An unbounded
  repetition needs at most one round for each character that is left.
\<close>

fun rx_run :: "rx \<Rightarrow> string \<times> string \<Rightarrow> (string \<times> string) list" where
  "rx_run (Lit t) p = (if starts_with t (snd p) then [(rev t @ fst p, drop (length t) (snd p))] else [])"
| "rx_run (In cl) p =
     (case snd p of [] \<Rightarrow> [] | c # cs \<Rightarrow> if in_class cl c then [(c # fst p, cs)] else [])"
| "rx_run (NotIn cl) p =
     (case snd p of [] \<Rightarrow> [] | c # cs \<Rightarrow> if in_class cl c then [] else [(c # fst p, cs)])"
| "rx_run Dot p =
     (case snd p of [] \<Rightarrow> [] | c # cs \<Rightarrow> if c = CHR 0x0A \<or> c = CHR 0x0D then [] else [(c # fst p, cs)])"
| "rx_run (Then r1 r2) p = concat (map (rx_run r2) (rx_run r1 p))"
| "rx_run (Alt r1 r2) p = rx_run r1 p @ rx_run r2 p"
| "rx_run (Rep r lo hi) p =
     rx_iter (rx_run r) lo (case hi of Some h \<Rightarrow> h - lo | None \<Rightarrow> length (snd p)) p"
| "rx_run AtStart p = (if fst p = [] then [p] else [])"
| "rx_run AtEnd p = (if snd p = [] then [p] else [])"
| "rx_run (Ahead r) p = (if rx_run r p = [] then [] else [p])"
| "rx_run (NotAhead r) p = (if rx_run r p = [] then [p] else [])"
| "rx_run (NotBehind t) p = (if starts_with (rev t) (fst p) then [] else [p])"

text \<open>The notation of the patterns: concatenation, \<open>{n}\<close>, \<open>?\<close>, \<open>*\<close> and \<open>+\<close>.\<close>

fun sequence :: "rx list \<Rightarrow> rx" where
  "sequence [] = Lit []"
| "sequence [r] = r"
| "sequence (r # s # rs) = Then r (sequence (s # rs))"

abbreviation times :: "nat \<Rightarrow> rx \<Rightarrow> rx" where
  "times n r \<equiv> Rep r n (Some n)"

abbreviation maybe :: "rx \<Rightarrow> rx" where
  "maybe r \<equiv> Rep r 0 (Some 1)"

abbreviation many :: "rx \<Rightarrow> rx" where
  "many r \<equiv> Rep r 0 None"

abbreviation some_of :: "rx \<Rightarrow> rx" where
  "some_of r \<equiv> Rep r 1 None"

definition rx_test :: "rx \<Rightarrow> string \<Rightarrow> bool" where
  "rx_test r s \<longleftrightarrow> rx_run r ([], s) \<noteq> []"

text \<open>The identifiers that \<open>crypto.randomUUID\<close> makes, as several files spell them.\<close>

definition UUID4_PATTERN :: rx where
  "UUID4_PATTERN =
     sequence [times 8 (In ''09af''), Lit ''-'', times 4 (In ''09af''), Lit ''-4'', times 3 (In ''09af''),
       Lit ''-'', In ''89ab'', times 3 (In ''09af''), Lit ''-'', times 12 (In ''09af''), AtEnd]"

text \<open>How many characters a pattern can consume, and how many a text it accepts as a whole has.\<close>

fun rx_width :: "rx \<Rightarrow> nat option" where
  "rx_width (Lit t) = Some (length t)"
| "rx_width (In cl) = Some 1"
| "rx_width (NotIn cl) = Some 1"
| "rx_width Dot = Some 1"
| "rx_width (Then r1 r2) =
     (case (rx_width r1, rx_width r2) of (Some m, Some n) \<Rightarrow> Some (m + n) | _ \<Rightarrow> None)"
| "rx_width (Alt r1 r2) =
     (case (rx_width r1, rx_width r2) of (Some m, Some n) \<Rightarrow> Some (max m n) | _ \<Rightarrow> None)"
| "rx_width (Rep r lo hi) =
     (case (rx_width r, hi) of (Some m, Some h) \<Rightarrow> Some (max lo h * m) | _ \<Rightarrow> None)"
| "rx_width AtStart = Some 0"
| "rx_width AtEnd = Some 0"
| "rx_width (Ahead r) = Some 0"
| "rx_width (NotAhead r) = Some 0"
| "rx_width (NotBehind t) = Some 0"

fun closed_width :: "rx \<Rightarrow> nat option" where
  "closed_width (Then r1 r2) =
     (case (rx_width r1, closed_width r2) of (Some m, Some n) \<Rightarrow> Some (m + n) | _ \<Rightarrow> None)"
| "closed_width AtEnd = Some 0"
| "closed_width _ = None"

lemma rx_iter_width:
  fixes f :: "'a \<times> 'b list \<Rightarrow> ('a \<times> 'b list) list"
  assumes step: "\<And>p q. q \<in> set (f p) \<Longrightarrow> length (snd p) \<le> length (snd q) + k"
  shows "q \<in> set (rx_iter f l m p) \<Longrightarrow> length (snd p) \<le> length (snd q) + (l + m) * k"
proof (induction "l + m" arbitrary: l m p)
  case (Suc n)
  from Suc.prems have "q = p \<or> (\<exists>x l' m'. x \<in> set (f p) \<and> q \<in> set (rx_iter f l' m' x) \<and> n = l' + m')"
    using Suc.hyps(2) by (cases l; cases m) fastforce+
  then show ?case
  proof (elim disjE exE conjE)
    fix x l' m' assume x: "x \<in> set (f p)" "q \<in> set (rx_iter f l' m' x)" "n = l' + m'"
    have "(l + m) * k = k + (l' + m') * k" unfolding Suc.hyps(2) [symmetric] x(3) by simp
    with step [OF x(1)] Suc.hyps(1) [OF x(3,2)] show ?thesis by simp
  qed simp
qed simp

lemma rx_run_width: "q \<in> set (rx_run r p) \<Longrightarrow> rx_width r = Some k \<Longrightarrow> length (snd p) \<le> length (snd q) + k"
proof (induction r arbitrary: p q k)
  case (Then r1 r2)
  then obtain m n where k: "rx_width r1 = Some m" "rx_width r2 = Some n" "k = m + n"
    by (auto split: option.splits)
  from Then.prems(1) obtain x where "x \<in> set (rx_run r1 p)" "q \<in> set (rx_run r2 x)" by auto
  with Then.IH(1) [OF this(1) k(1)] Then.IH(2) [OF this(2) k(2)] k(3) show ?case by simp
next
  case (Alt r1 r2)
  then show ?case by (fastforce split: option.splits)
next
  case (Rep r lo hi)
  then obtain m h where k: "rx_width r = Some m" "hi = Some h" "k = max lo h * m" by (auto split: option.splits)
  have "length (snd p) \<le> length (snd q) + (lo + (h - lo)) * m"
    by (rule rx_iter_width [of "rx_run r"]) (use Rep k in auto)
  moreover have "lo + (h - lo) = max lo h" by simp
  ultimately show ?case using k(3) by simp
qed (auto split: list.splits if_splits simp: starts_with_def)

lemma closed_width_run:
  "q \<in> set (rx_run r p) \<Longrightarrow> closed_width r = Some k \<Longrightarrow> length (snd p) \<le> k"
proof (induction r arbitrary: p q k)
  case (Then r1 r2)
  then obtain m n where k: "rx_width r1 = Some m" "closed_width r2 = Some n" "k = m + n"
    by (auto split: option.splits)
  from Then.prems(1) obtain x where "x \<in> set (rx_run r1 p)" "q \<in> set (rx_run r2 x)" by auto
  with rx_run_width [OF this(1) k(1)] Then.IH(2) [OF this(2) k(2)] k(3) show ?case by simp
qed (auto split: if_splits)

lemma closed_width_test: "rx_test r s \<Longrightarrow> closed_width r = Some k \<Longrightarrow> length s \<le> k"
  unfolding rx_test_def using closed_width_run [of _ r "([], s)" k] by (metis last_in_set snd_conv)

lemma rx_test_literal: "rx_test (Then (Lit t) r) s \<Longrightarrow> starts_with t s"
  by (auto simp: rx_test_def split: if_splits)

text \<open>A fixed number of characters of one class.\<close>

lemma rx_iter_class:
  "rx_iter (rx_run (In cl)) n 0 (b, s) =
     (if n \<le> length s \<and> list_all (in_class cl) (take n s) then [(rev (take n s) @ b, drop n s)] else [])"
proof (induction n arbitrary: b s)
  case (Suc n)
  then show ?case by (cases s) auto
qed simp

lemma rx_run_times:
  "rx_run (times n (In cl)) p =
     (if n \<le> length (snd p) \<and> list_all (in_class cl) (take n (snd p))
      then [(rev (take n (snd p)) @ fst p, drop n (snd p))] else [])"
  by (cases p) (simp add: rx_iter_class del: rx_run.simps(2))

lemma rx_iter_0 [simp]: "rx_iter f 0 0 = (\<lambda>p. [p])"
  by (simp add: fun_eq_iff)

lemma rx_run_maybe: "rx_run (maybe r) p = p # rx_run r p" "rx_run (Rep r 0 (Some (Suc 0))) p = p # rx_run r p"
  by simp_all

declare rx_run.simps(7) [simp del]

lemmas rx_eval = rx_test_def starts_with_def rx_run_times rx_run_maybe

section \<open>Schemas\<close>

datatype schema =
    TString "rx option" "nat option" "nat option"
  | TInteger "int option" "int option"
  | TNumber "int option" "int option"
  | TBoolean
  | TNull
  | TLiteral json
  | TArray schema "nat option" "nat option" bool
  | TObject "(string \<times> schema) list" bool
  | TRecord rx schema
  | TUnion "schema list"
  | TIntersect "schema list"
  | TNot schema
  | TOptional schema

text \<open>\<open>Type.Literal\<close> of a text, \<open>Type.String\<close> with a pattern or with length limits, a closed object.\<close>

abbreviation lit :: "string \<Rightarrow> schema" where
  "lit t \<equiv> TLiteral (JStr t)"

abbreviation matching :: "rx \<Rightarrow> schema" where
  "matching r \<equiv> TString (Some r) None None"

abbreviation sized :: "nat \<Rightarrow> nat \<Rightarrow> schema" where
  "sized lo hi \<equiv> TString None (Some lo) (Some hi)"

abbreviation natural :: schema where
  "natural \<equiv> TInteger (Some 0) None"

abbreviation closed_object :: "(string \<times> schema) list \<Rightarrow> schema" where
  "closed_object fs \<equiv> TObject fs False"

abbreviation open_object :: "(string \<times> schema) list \<Rightarrow> schema" where
  "open_object fs \<equiv> TObject fs True"

text \<open>Spread of property tables: a later property replaces an earlier one of the same name in its place.\<close>

fun field_set :: "string \<times> schema \<Rightarrow> (string \<times> schema) list \<Rightarrow> (string \<times> schema) list" where
  "field_set f [] = [f]"
| "field_set f (g # gs) = (if fst g = fst f then f # gs else g # field_set f gs)"

definition spread_fields :: "(string \<times> schema) list \<Rightarrow> (string \<times> schema) list \<Rightarrow> (string \<times> schema) list" where
  "spread_fields fs gs = fold field_set gs fs"

fun properties :: "schema \<Rightarrow> (string \<times> schema) list" where
  "properties (TObject fs _) = fs"
| "properties _ = []"

text \<open>The entry of a payload table for a message type.\<close>

definition payload_of :: "(string \<times> schema) list \<Rightarrow> string \<Rightarrow> schema" where
  "payload_of table ty = the (map_of table ty)"

fun alternatives :: "schema \<Rightarrow> schema list" where
  "alternatives (TUnion ss) = ss"
| "alternatives _ = []"

fun is_optional :: "schema \<Rightarrow> bool" where
  "is_optional (TOptional _) = True"
| "is_optional _ = False"

lemma payload_of_entry: "ty \<in> set (map fst table) \<Longrightarrow> (ty, payload_of table ty) \<in> set table"
  by (induction table) (auto simp: payload_of_def)

lemma spread_fields_Nil [simp]: "spread_fields fs [] = fs"
  by (simp add: spread_fields_def)

lemma spread_fields_Cons [simp]: "spread_fields fs (g # gs) = spread_fields (field_set g fs) gs"
  by (simp add: spread_fields_def)

definition int_between :: "int option \<Rightarrow> int option \<Rightarrow> int \<Rightarrow> bool" where
  "int_between lo hi n \<longleftrightarrow>
     (case lo of None \<Rightarrow> True | Some l \<Rightarrow> l \<le> n) \<and> (case hi of None \<Rightarrow> True | Some h \<Rightarrow> n \<le> h)"

definition len_between :: "nat option \<Rightarrow> nat option \<Rightarrow> nat \<Rightarrow> bool" where
  "len_between lo hi n \<longleftrightarrow>
     (case lo of None \<Rightarrow> True | Some l \<Rightarrow> l \<le> n) \<and> (case hi of None \<Rightarrow> True | Some h \<Rightarrow> n \<le> h)"

lemmas between_defs = int_between_def len_between_def

section \<open>The validator\<close>

locale typebox =
  fixes check :: "schema \<Rightarrow> json \<Rightarrow> bool"
  assumes check_String: "check (TString pat lo hi) v \<longleftrightarrow>
      (\<exists>t. v = JStr t \<and> (case pat of None \<Rightarrow> True | Some r \<Rightarrow> rx_test r t) \<and> len_between lo hi (length t))"
    and check_Integer: "check (TInteger a b) v \<longleftrightarrow> (\<exists>n. v = JNum n \<and> int_between a b n)"
    and check_Number: "check (TNumber a b) v \<longleftrightarrow> (\<exists>n. v = JNum n \<and> int_between a b n)"
    and check_Boolean: "check TBoolean v \<longleftrightarrow> (\<exists>b. v = JBool b)"
    and check_Null: "check TNull v \<longleftrightarrow> v = JNull"
    and check_Literal: "check (TLiteral j) v \<longleftrightarrow> v = j"
    and check_Array: "check (TArray s lo hi uniq) v \<longleftrightarrow>
      (\<exists>xs. v = JArr xs \<and> len_between lo hi (length xs) \<and> (uniq \<longrightarrow> distinct xs) \<and> (\<forall>x \<in> set xs. check s x))"
    and check_Object: "check (TObject fs additional) v \<longleftrightarrow>
      (\<exists>ob. v = JObj ob
         \<and> (\<forall>(k, s) \<in> set fs. case prop_get ob k of None \<Rightarrow> is_optional s | Some x \<Rightarrow> check s x)
         \<and> (additional \<or> (\<forall>e \<in> set ob. fst e \<in> fst ` set fs)))"
    and check_Record: "check (TRecord r s) v \<longleftrightarrow>
      (\<exists>ob. v = JObj ob \<and> (\<forall>(k, x) \<in> set ob. rx_test r k \<longrightarrow> check s x))"
    and check_Union: "check (TUnion ss) v \<longleftrightarrow> (\<exists>s \<in> set ss. check s v)"
    and check_Intersect: "check (TIntersect ss) v \<longleftrightarrow> (\<forall>s \<in> set ss. check s v)"
    and check_Not: "check (TNot s) v \<longleftrightarrow> \<not> check s v"
    and check_Optional: "check (TOptional s) v \<longleftrightarrow> check s v"
begin

lemmas check_scalar =
  check_String check_Integer check_Number check_Boolean check_Null check_Literal check_Optional

lemma check_field:
  "check (TObject fs a) (JObj ob) \<Longrightarrow> map_of fs k = Some s \<Longrightarrow> \<not> is_optional s
    \<Longrightarrow> \<exists>x. prop_get ob k = Some x \<and> check s x"
  unfolding check_Object by (drule map_of_SomeD) (fastforce split: option.splits)

lemma check_is_object: "check (TObject fs a) v \<Longrightarrow> \<exists>ob. v = JObj ob"
  by (auto simp: check_Object)

end

text \<open>A checker that satisfies the laws.\<close>

fun schema_check :: "schema \<Rightarrow> json \<Rightarrow> bool" where
  "schema_check (TString pat lo hi) v =
     (case v of JStr t \<Rightarrow> (case pat of None \<Rightarrow> True | Some r \<Rightarrow> rx_test r t) \<and> len_between lo hi (length t)
              | _ \<Rightarrow> False)"
| "schema_check (TInteger a b) v = (case v of JNum n \<Rightarrow> int_between a b n | _ \<Rightarrow> False)"
| "schema_check (TNumber a b) v = (case v of JNum n \<Rightarrow> int_between a b n | _ \<Rightarrow> False)"
| "schema_check TBoolean v = (case v of JBool b \<Rightarrow> True | _ \<Rightarrow> False)"
| "schema_check TNull v = (v = JNull)"
| "schema_check (TLiteral j) v = (v = j)"
| "schema_check (TArray s lo hi uniq) v =
     (case v of JArr xs \<Rightarrow> len_between lo hi (length xs) \<and> (uniq \<longrightarrow> distinct xs) \<and> list_all (schema_check s) xs
              | _ \<Rightarrow> False)"
| "schema_check (TObject fs additional) v =
     (case v of
        JObj ob \<Rightarrow>
          list_all (\<lambda>f. case prop_get ob (fst f) of None \<Rightarrow> is_optional (snd f) | Some x \<Rightarrow> schema_check (snd f) x) fs
          \<and> (additional \<or> list_all (\<lambda>e. fst e \<in> set (map fst fs)) ob)
      | _ \<Rightarrow> False)"
| "schema_check (TRecord r s) v =
     (case v of JObj ob \<Rightarrow> list_all (\<lambda>e. rx_test r (fst e) \<longrightarrow> schema_check s (snd e)) ob | _ \<Rightarrow> False)"
| "schema_check (TUnion ss) v = list_ex (\<lambda>s. schema_check s v) ss"
| "schema_check (TIntersect ss) v = list_all (\<lambda>s. schema_check s v) ss"
| "schema_check (TNot s) v = (\<not> schema_check s v)"
| "schema_check (TOptional s) v = schema_check s v"

interpretation reference: typebox schema_check
  by unfold_locales
    (auto simp: list_all_iff list_ex_iff prop_get_def split: json.splits option.splits)

context typebox begin

text \<open>The laws leave no choice.\<close>

lemma check_reference: "check s v = schema_check s v"
proof (induction s v rule: schema_check.induct)
  case (7 s lo hi uniq v)
  then show ?case by (cases v) (auto simp: check_Array list_all_iff)
next
  case (8 fs additional v)
  then show ?case by (cases v) (auto simp: check_Object list_all_iff split: option.splits prod.splits)
next
  case (9 r s v)
  then show ?case by (cases v) (auto simp: check_Record list_all_iff)
qed (auto simp: check_scalar check_Union check_Intersect check_Not list_all_iff list_ex_iff split: json.splits)

end

section \<open>Size of accepted values\<close>

text \<open>
  The weight of a value counts its nodes and the characters of its texts and property names. The
  properties of a JavaScript object have distinct names (\<open>js_value\<close>).
\<close>

fun json_weight :: "json \<Rightarrow> nat" where
  "json_weight (JStr t) = 1 + length t"
| "json_weight (JArr xs) = 1 + sum_list (map json_weight xs)"
| "json_weight (JObj ob) = 1 + sum_list (map (\<lambda>e. length (fst e) + json_weight (snd e)) ob)"
| "json_weight _ = 1"

fun js_value :: "json \<Rightarrow> bool" where
  "js_value (JArr xs) = list_all js_value xs"
| "js_value (JObj ob) = (distinct (map fst ob) \<and> list_all (\<lambda>e. js_value (snd e)) ob)"
| "js_value _ = True"

definition opt_plus :: "nat option \<Rightarrow> nat option \<Rightarrow> nat option" where
  "opt_plus a b = (case (a, b) of (Some m, Some n) \<Rightarrow> Some (m + n) | _ \<Rightarrow> None)"

definition opt_max :: "nat option \<Rightarrow> nat option \<Rightarrow> nat option" where
  "opt_max a b = (case (a, b) of (Some m, Some n) \<Rightarrow> Some (max m n) | _ \<Rightarrow> None)"

text \<open>An upper bound for the weight of what a schema accepts, where its keywords give one.\<close>

fun weight_bound :: "schema \<Rightarrow> nat option" where
  "weight_bound (TString pat lo hi) =
     (case hi of
        Some h \<Rightarrow> Some (1 + h)
      | None \<Rightarrow> opt_plus (Some 1) (case pat of None \<Rightarrow> None | Some r \<Rightarrow> closed_width r))"
| "weight_bound (TLiteral j) = Some (json_weight j)"
| "weight_bound (TArray s lo hi uniq) =
     (case (hi, weight_bound s) of (Some h, Some w) \<Rightarrow> Some (1 + h * w) | _ \<Rightarrow> None)"
| "weight_bound (TObject fs additional) =
     (if additional then None
      else foldr (\<lambda>f acc. opt_plus (opt_plus (Some (length (fst f))) (weight_bound (snd f))) acc) fs (Some 1))"
| "weight_bound (TUnion ss) = foldr (\<lambda>s acc. opt_max (weight_bound s) acc) ss (Some 0)"
| "weight_bound (TIntersect ss) = None"
| "weight_bound (TNot s) = None"
| "weight_bound (TRecord r s) = None"
| "weight_bound (TOptional s) = weight_bound s"
| "weight_bound _ = Some 1"

lemma opt_plus_Some [simp]: "opt_plus a b = Some n \<longleftrightarrow> (\<exists>x y. a = Some x \<and> b = Some y \<and> n = x + y)"
  by (auto simp: opt_plus_def split: option.splits)

lemma opt_eval [simp]:
  "opt_plus (Some m) (Some n) = Some (m + n)" "opt_plus None b = None" "opt_plus a None = None"
  "opt_max (Some m) (Some n) = Some (max m n)" "opt_max None b = None" "opt_max a None = None"
  by (simp_all add: opt_plus_def opt_max_def split: option.splits)

lemma opt_max_Some [simp]: "opt_max a b = Some n \<longleftrightarrow> (\<exists>x y. a = Some x \<and> b = Some y \<and> n = max x y)"
  by (auto simp: opt_max_def split: option.splits)

lemma sum_list_bound: "(\<And>x. x \<in> set xs \<Longrightarrow> f x \<le> (w :: nat)) \<Longrightarrow> sum_list (map f xs) \<le> length xs * w"
  by (induction xs) fastforce+

text \<open>The properties of a closed object, each at most once, weigh no more than the table allows.\<close>

lemma object_weight:
  assumes "foldr (\<lambda>f acc. opt_plus (opt_plus (Some (length (fst f))) (wb f)) acc) fs (Some 1) = Some n"
    and "distinct (map fst ob)" and "fst ` set ob \<subseteq> fst ` set fs"
    and "\<And>f x w. f \<in> set fs \<Longrightarrow> (fst f, x) \<in> set ob \<Longrightarrow> wb f = Some w \<Longrightarrow> json_weight x \<le> w"
  shows "1 + sum_list (map (\<lambda>e. length (fst e) + json_weight (snd e)) ob) \<le> n"
  using assms
proof (induction fs arbitrary: n ob)
  case (Cons f fs)
  let ?w = "\<lambda>e. length (fst e) + json_weight (snd e)"
  from Cons.prems(1) obtain w m where w: "wb f = Some w" and n: "n = length (fst f) + w + m"
    and m: "foldr (\<lambda>f acc. opt_plus (opt_plus (Some (length (fst f))) (wb f)) acc) fs (Some 1) = Some m"
    by auto
  let ?rest = "filter (\<lambda>e. fst e \<noteq> fst f) ob"
  have "1 + sum_list (map ?w ?rest) \<le> m"
  proof (rule Cons.IH [OF m])
    show "json_weight x \<le> w'" if "g \<in> set fs" "(fst g, x) \<in> set ?rest" "wb g = Some w'" for g x w'
      using Cons.prems(4) [of g x w'] that by simp
  qed (use Cons.prems in \<open>auto simp: distinct_map_filter\<close>)
  moreover have "sum_list (map ?w ob) \<le> length (fst f) + w + sum_list (map ?w ?rest)"
    using Cons.prems(2) Cons.prems(4) [OF list.set_intros(1) _ w]
  proof (induction ob)
    case (Cons e ob)
    show ?case
    proof (cases "fst e = fst f")
      case True
      with Cons.prems(1) have "filter (\<lambda>e. fst e \<noteq> fst f) ob = ob" by (force simp: filter_id_conv)
      moreover have "json_weight (snd e) \<le> w" using Cons.prems(2) [of "snd e"] True by (cases e) simp
      ultimately show ?thesis using True by simp
    next
      case False
      with Cons show ?thesis by simp
    qed
  qed simp
  ultimately show ?case using n by simp
qed simp

lemma weight_bound_union:
  "foldr (\<lambda>s acc. opt_max (weight_bound s) acc) ss (Some 0) = Some n \<Longrightarrow> s \<in> set ss
    \<Longrightarrow> \<exists>w. weight_bound s = Some w \<and> w \<le> n"
  by (induction ss arbitrary: n) (auto intro: max.coboundedI2 dest: max.coboundedI2)

context typebox begin

lemma weight_bounded: "check s v \<Longrightarrow> js_value v \<Longrightarrow> weight_bound s = Some n \<Longrightarrow> json_weight v \<le> n"
  unfolding check_reference
proof (induction s v arbitrary: n rule: schema_check.induct)
  case (1 pat lo hi v)
  then show ?case
    by (auto simp: len_between_def dest: closed_width_test split: json.splits option.splits)
next
  case (7 s lo hi uniq v)
  then obtain xs h w where v: "v = JArr xs" and h: "hi = Some h" "weight_bound s = Some w" "n = 1 + h * w"
    and xs: "length xs \<le> h" "list_all (schema_check s) xs"
    by (auto simp: len_between_def split: json.splits option.splits)
  have "sum_list (map json_weight xs) \<le> length xs * w"
    by (rule sum_list_bound) (use 7 v h xs in \<open>auto simp: list_all_iff\<close>)
  also have "\<dots> \<le> h * w" using xs(1) by simp
  finally show ?case using v h by simp
next
  case (8 fs additional v)
  then obtain ob where v: "v = JObj ob" and add: "\<not> additional" by (auto split: json.splits if_splits)
  have ob: "distinct (map fst ob)" "\<And>e. e \<in> set ob \<Longrightarrow> js_value (snd e)" "fst ` set ob \<subseteq> fst ` set fs"
    using 8(2,3) v add by (auto simp: list_all_iff)
  have "json_weight x \<le> w" if f: "f \<in> set fs" "(fst f, x) \<in> set ob" "weight_bound (snd f) = Some w" for f x w
  proof (rule 8(1) [OF v f(1)])
    show p: "prop_get ob (fst f) = Some x" using ob(1) f(2) by (simp add: prop_get_def)
    show "schema_check (snd f) x" using 8(2) v f(1) p by (auto simp: list_all_iff split: option.splits)
    show "js_value x" using ob(2) [OF f(2)] by simp
  qed (rule f(3))
  with object_weight [OF _ ob(1,3), of "\<lambda>f. weight_bound (snd f)" n] 8(4) v add show ?case by simp
next
  case (10 ss v)
  then obtain s where s: "s \<in> set ss" "schema_check s v" by (auto simp: list_ex_iff)
  with weight_bound_union [of ss n s] 10 show ?case by fastforce
qed (auto split: json.splits)

end

end
