(* ===== verification/Protocol_Tables.thy ===== *)
theory Protocol_Tables
  imports Schema
begin

text \<open>
  The tables of packages/protocol-schema/src/index.ts: version, patterns, limits, the closed lists
  of message types, capabilities and error codes, the metadata of every command and the stream
  that owns every event type.
\<close>

section \<open>Version and patterns\<close>

definition PROTOCOL_MAJOR :: int where
  "PROTOCOL_MAJOR = 1"

definition PROTOCOL_MINOR :: int where
  "PROTOCOL_MINOR = 0"

definition PROTOCOL_VERSION :: string where
  "PROTOCOL_VERSION = ''1.0''"

definition UUID_PATTERN :: rx where
  "UUID_PATTERN =
     sequence [times 8 (In ''09af''), Lit ''-'', times 4 (In ''09af''), Lit ''-'', times 4 (In ''09af''),
       Lit ''-'', times 4 (In ''09af''), Lit ''-'', times 12 (In ''09af''), AtEnd]"

definition DECIMAL_CURSOR_PATTERN :: rx where
  "DECIMAL_CURSOR_PATTERN =
     sequence [Alt (Lit ''0'') (sequence [In ''19'', many (In ''09'')]), AtEnd]"

definition ISO_UTC_PATTERN :: rx where
  "ISO_UTC_PATTERN =
     sequence [times 4 (In ''09''), Lit ''-'', times 2 (In ''09''), Lit ''-'', times 2 (In ''09''),
       Lit ''T'', times 2 (In ''09''), Lit '':'', times 2 (In ''09''), Lit '':'', times 2 (In ''09''),
       maybe (sequence [Lit ''.'', times 3 (In ''09'')]), Lit ''Z'', AtEnd]"

section \<open>Limits\<close>

definition maxJsonBytes :: nat where
  "maxJsonBytes = 1048576"

definition maxAttachmentBytes :: nat where
  "maxAttachmentBytes = 10485760"

definition maxAttachmentsPerPrompt :: nat where
  "maxAttachmentsPerPrompt = 4"

definition maxPromptAttachmentBytes :: nat where
  "maxPromptAttachmentBytes = 26214400"

definition maxQueuedFollowUps :: nat where
  "maxQueuedFollowUps = 10"

definition maxSessionPageSize :: nat where
  "maxSessionPageSize = 100"

definition maxBackgroundSessionSubscriptions :: nat where
  "maxBackgroundSessionSubscriptions = 5"

definition maxPlanSteps :: nat where
  "maxPlanSteps = 64"

definition maxRecipeActivityIdLength :: nat where
  "maxRecipeActivityIdLength = 128"

definition maxTurnIdLength :: nat where
  "maxTurnIdLength = 128"

definition maxPlanIdLength :: nat where
  "maxPlanIdLength = 128"

definition maxStepIdLength :: nat where
  "maxStepIdLength = 128"

definition maxRecipeTitleLength :: nat where
  "maxRecipeTitleLength = 128"

definition maxToolNameLength :: nat where
  "maxToolNameLength = 128"

definition maxRecipeArgumentsLength :: nat where
  "maxRecipeArgumentsLength = 240"

definition maxRecipeOutputLength :: nat where
  "maxRecipeOutputLength = 240"

definition maxPlanBlockerLength :: nat where
  "maxPlanBlockerLength = 240"

definition maxReasonLength :: nat where
  "maxReasonLength = 512"

definition maxRemediationLength :: nat where
  "maxRemediationLength = 512"

definition maxCapabilitySourceLength :: nat where
  "maxCapabilitySourceLength = 128"

definition maxErrorMessageLength :: nat where
  "maxErrorMessageLength = 512"

definition maxWorkspacePathLength :: nat where
  "maxWorkspacePathLength = 1024"

definition maxTreePageItems :: nat where
  "maxTreePageItems = 200"

definition maxTreeDepth :: nat where
  "maxTreeDepth = 16"

definition maxFilenameSearchItems :: nat where
  "maxFilenameSearchItems = 100"

definition maxContentSearchLines :: nat where
  "maxContentSearchLines = 200"

definition maxContentSearchBytes :: nat where
  "maxContentSearchBytes = 262144"

definition maxFileReadLines :: nat where
  "maxFileReadLines = 2000"

definition maxFileReadBytes :: nat where
  "maxFileReadBytes = 524288"

definition maxFileSize :: nat where
  "maxFileSize = 26214400"

definition maxFileAttachmentRefs :: nat where
  "maxFileAttachmentRefs = 4"

definition maxLanguageHintLength :: nat where
  "maxLanguageHintLength = 32"

definition maxPinnedFiles :: nat where
  "maxPinnedFiles = 64"

definition maxPinnedRanges :: nat where
  "maxPinnedRanges = 16"

definition maxContextInstructions :: nat where
  "maxContextInstructions = 4096"

definition maxContextSourceSummary :: nat where
  "maxContextSourceSummary = 240"

definition maxContextSourceKindLength :: nat where
  "maxContextSourceKindLength = 32"

definition maxContextSourceIdLength :: nat where
  "maxContextSourceIdLength = 128"

definition maxContextTokenUsageDigits :: nat where
  "maxContextTokenUsageDigits = 16"

definition maxProcessIdLength :: nat where
  "maxProcessIdLength = 128"

definition maxProcessCommandLength :: nat where
  "maxProcessCommandLength = 1024"

definition maxProcessCwdLength :: nat where
  "maxProcessCwdLength = 1024"

definition maxProcessOutputLength :: nat where
  "maxProcessOutputLength = 262144"

definition maxProcessPorts :: nat where
  "maxProcessPorts = 32"

definition maxProcessSnapshotItems :: nat where
  "maxProcessSnapshotItems = 100"

definition maxRepositoryLabelLength :: nat where
  "maxRepositoryLabelLength = 128"

definition maxBranchLength :: nat where
  "maxBranchLength = 128"

definition maxFailedChecks :: nat where
  "maxFailedChecks = 20"

definition maxCheckNameLength :: nat where
  "maxCheckNameLength = 128"

definition maxCheckSummaryLength :: nat where
  "maxCheckSummaryLength = 512"

definition maxLogSummaryLength :: nat where
  "maxLogSummaryLength = 4096"

definition maxGitCount :: nat where
  "maxGitCount = 1000000"

definition maxExternalUrlLength :: nat where
  "maxExternalUrlLength = 1024"

definition maxCommitShaLength :: nat where
  "maxCommitShaLength = 64"

definition maxCommitMessageLength :: nat where
  "maxCommitMessageLength = 240"

definition maxCommitAuthorLength :: nat where
  "maxCommitAuthorLength = 128"

definition maxGitPullRequestTitleLength :: nat where
  "maxGitPullRequestTitleLength = 240"

definition maxGitConfirmationIdLength :: nat where
  "maxGitConfirmationIdLength = 128"

definition maxGitSummaryHintLength :: nat where
  "maxGitSummaryHintLength = 240"

definition maxAttentionSummaryLength :: nat where
  "maxAttentionSummaryLength = 240"

definition maxAgentTaskLength :: nat where
  "maxAgentTaskLength = 512"

definition maxAgentSummaryLength :: nat where
  "maxAgentSummaryLength = 1024"

definition maxAgentItems :: nat where
  "maxAgentItems = 64"

definition maxCatalogueEntries :: nat where
  "maxCatalogueEntries = 512"

lemmas limit_defs = maxJsonBytes_def maxAttachmentBytes_def maxAttachmentsPerPrompt_def
  maxPromptAttachmentBytes_def maxQueuedFollowUps_def maxSessionPageSize_def
  maxBackgroundSessionSubscriptions_def maxPlanSteps_def maxRecipeActivityIdLength_def maxTurnIdLength_def
  maxPlanIdLength_def maxStepIdLength_def maxRecipeTitleLength_def maxToolNameLength_def
  maxRecipeArgumentsLength_def maxRecipeOutputLength_def maxPlanBlockerLength_def maxReasonLength_def
  maxRemediationLength_def maxCapabilitySourceLength_def maxErrorMessageLength_def maxWorkspacePathLength_def
  maxTreePageItems_def maxTreeDepth_def maxFilenameSearchItems_def maxContentSearchLines_def
  maxContentSearchBytes_def maxFileReadLines_def maxFileReadBytes_def maxFileSize_def maxFileAttachmentRefs_def
  maxLanguageHintLength_def maxPinnedFiles_def maxPinnedRanges_def maxContextInstructions_def
  maxContextSourceSummary_def maxContextSourceKindLength_def maxContextSourceIdLength_def
  maxContextTokenUsageDigits_def maxProcessIdLength_def maxProcessCommandLength_def maxProcessCwdLength_def
  maxProcessOutputLength_def maxProcessPorts_def maxProcessSnapshotItems_def maxRepositoryLabelLength_def
  maxBranchLength_def maxFailedChecks_def maxCheckNameLength_def maxCheckSummaryLength_def
  maxLogSummaryLength_def maxGitCount_def maxExternalUrlLength_def maxCommitShaLength_def
  maxCommitMessageLength_def maxCommitAuthorLength_def maxGitPullRequestTitleLength_def
  maxGitConfirmationIdLength_def maxGitSummaryHintLength_def maxAttentionSummaryLength_def
  maxAgentTaskLength_def maxAgentSummaryLength_def maxAgentItems_def maxCatalogueEntries_def

definition MAX_SAFE_INTEGER :: int where
  "MAX_SAFE_INTEGER = 9007199254740991"

section \<open>Message types, capabilities and error codes\<close>

definition COMMAND_TYPES :: "string list" where
  "COMMAND_TYPES = [
     ''controller.acquire'', ''controller.takeover'', ''controller.release'', ''host.display_name.set'',
     ''notification.device.register'', ''notification.device.unregister'', ''session.create'',
     ''session.activate'', ''session.stop'', ''session.rename'', ''session.delete'', ''session.restore'',
     ''session.purge'', ''session.fork'', ''session.clone'', ''session.export'', ''prompt.submit'',
     ''turn.abort'', ''queue.remove'', ''queue.clear'', ''model.set'', ''thinking.set'', ''steering_mode.set'',
     ''follow_up_mode.set'', ''compaction.start'', ''compaction.auto.set'', ''retry.auto.set'', ''retry.abort'',
     ''extension.respond'', ''context.pin'', ''context.unpin'', ''context.exclude'', ''context.refresh'',
     ''process.stop'', ''process.restart'', ''process.rerun'', ''git.commit.request'', ''git.push.request'',
     ''attention.resolve'', ''agent.steer'', ''agent.cancel'', ''agent.adopt'', ''agent.merge'',
     ''catalogue.set_enabled'', ''pi.rpc.request'']"

definition EVENT_TYPES :: "string list" where
  "EVENT_TYPES = [
     ''host.state'', ''host.degraded'', ''host.draining'', ''host.capacity'', ''host.backup_state'',
     ''host.compatibility'', ''session.summary'', ''session.removed'', ''workspace.summary'',
     ''notification.capability'', ''command.state'', ''error.event'', ''session.state'', ''session.metadata'',
     ''session.tree'', ''controller.state'', ''turn.accepted'', ''turn.queued'', ''turn.started'',
     ''turn.waiting_for_input'', ''turn.retrying'', ''turn.compacting'', ''turn.settled'', ''turn.aborted'',
     ''turn.failed'', ''turn.indeterminate'', ''assistant.started'', ''assistant.delta'',
     ''assistant.completed'', ''reasoning.started'', ''reasoning.delta'', ''reasoning.completed'',
     ''tool.started'', ''tool.output'', ''tool.completed'', ''tool.failed'', ''tool.cancelled'',
     ''queue.snapshot'', ''model.state'', ''context.state'', ''retry.state'', ''compaction.state'',
     ''extension.dialog'', ''extension.notify'', ''extension.status'', ''extension.widget'',
     ''extension.title'', ''extension.editor_prefill'', ''recipe.activity'', ''recipe.unavailable'',
     ''plan.snapshot'', ''plan.unavailable'', ''workspace.tree.snapshot'', ''workspace.file.metadata'',
     ''workspace.file.stale'', ''workspace.file.unavailable'', ''context.snapshot'', ''context.unavailable'',
     ''process.snapshot'', ''process.output'', ''process.unavailable'', ''process.error'', ''git.summary'',
     ''git.unavailable'', ''attention.item'', ''agent.snapshot'', ''agent.unavailable'', ''catalogue.snapshot'',
     ''catalogue.unavailable'', ''pi.rpc.response'', ''pi.rpc.event'']"

definition RESPONSE_TYPES :: "string list" where
  "RESPONSE_TYPES = [
     ''hello.accepted'', ''subscription.accepted'', ''stream.sync.complete'', ''stream.snapshot.begin'',
     ''stream.snapshot.part'', ''stream.snapshot.end'', ''command.receipt'', ''command.current.result'',
     ''controller.renew.result'', ''session.list.result'', ''session.history.page.result'',
     ''workspace.list.result'', ''workspace.search.result'', ''model.list.result'',
     ''workspace.tree.page.result'', ''workspace.file.search.result'', ''workspace.file.content.search.result'',
     ''workspace.file.metadata.result'', ''workspace.file.read.result'', ''context.snapshot.result'',
     ''agent.snapshot.result'', ''agent.transcript.page.result'', ''catalogue.snapshot.result'',
     ''process.snapshot.result'', ''process.output.page.result'', ''git.summary.result'', ''pi.rpc.response'',
     ''session.events.replay.result'', ''session.event'']"

definition SUPPORTED_CAPABILITIES :: "string list" where
  "SUPPORTED_CAPABILITIES = [
     ''streams.v1'', ''commands.v1'', ''controller_leases.v1'', ''attachments.v1'', ''extension_dialogs.v1'',
     ''notifications.v1'', ''files.v1'', ''contexts.v1'', ''runtime.processes.v1'', ''git-ci.v1'',
     ''attention.v1'', ''agents.v1'', ''catalogue.v1'', ''raw_rpc.v1'', ''session_events.v2'']"

definition CONTROL_TYPES :: "string list" where
  "CONTROL_TYPES = [
     ''subscription.set'', ''cursor.ack'', ''controller.renew'', ''host.snapshot.request'',
     ''session.snapshot.request'', ''session.list'', ''session.history.page'', ''workspace.list'',
     ''workspace.search'', ''model.list'', ''command.current'', ''workspace.tree.page'',
     ''workspace.file.search'', ''workspace.file.content.search'', ''workspace.file.metadata'',
     ''workspace.file.read'', ''context.snapshot.request'', ''agent.snapshot.request'',
     ''agent.transcript.page'', ''catalogue.snapshot.request'', ''process.snapshot.request'',
     ''process.output.page'', ''git.summary.request'', ''git.summary.cancel'', ''session.events.subscribe'']"

definition ERROR_CODES :: "string list" where
  "ERROR_CODES = [
     ''invalid_message'', ''unsupported_protocol'', ''unsupported_capability'', ''host_identity_mismatch'',
     ''stale_connection'', ''host_draining'', ''host_not_ready'', ''host_capacity'', ''stream_not_found'',
     ''cursor_invalid'', ''snapshot_failed'', ''session_not_found'', ''session_deleted'',
     ''session_incompatible'', ''session_repair_required'', ''workspace_not_found'', ''workspace_not_allowed'',
     ''workspace_unavailable'', ''controller_required'', ''controller_conflict'', ''stale_controller'',
     ''command_not_found'', ''idempotency_conflict'', ''queue_full'', ''queue_item_not_found'',
     ''invalid_state'', ''attachment_unavailable'', ''export_unavailable'', ''payload_too_large'',
     ''rate_limited'', ''slow_consumer'', ''pi_unavailable'', ''pi_version_mismatch'', ''provider_interrupted'',
     ''permission_denied'', ''invalid_auth'', ''re_pair_required'', ''crash_loop'', ''database_unavailable'',
     ''storage_full'', ''migration_required'', ''internal_error'', ''recipe_unavailable'', ''plan_unavailable'',
     ''stale_plan_target'', ''path_not_found'', ''path_outside_workspace'', ''path_binary'', ''path_oversize'',
     ''file_stale'', ''file_unavailable'', ''context_pin_failed'', ''context_unavailable'',
     ''process_unavailable'', ''process_not_found'', ''process_stale'', ''process_failed'', ''git_unavailable'',
     ''git_remote_missing'', ''git_provider_unavailable'', ''git_auth_missing'', ''git_stale'',
     ''git_action_failed'', ''attention_unavailable'', ''attention_not_found'', ''attention_stale'',
     ''agent_unavailable'', ''agent_not_found'', ''agent_stale'', ''agent_action_failed'',
     ''catalogue_unavailable'', ''catalogue_not_found'', ''catalogue_stale'', ''catalogue_action_failed'']"

section \<open>Command metadata\<close>

definition STREAM_ID_PATTERN :: rx where
  "STREAM_ID_PATTERN = Then (Alt (Lit ''host'') (Lit ''session'')) (Then (Lit '':'') UUID_PATTERN)"

definition controllerCommands :: "string list" where
  "controllerCommands = [''controller.acquire'', ''controller.takeover'', ''controller.release'']"

definition hostCommands :: "string list" where
  "hostCommands = [
     ''controller.acquire'', ''controller.takeover'', ''controller.release'', ''host.display_name.set'',
     ''notification.device.register'', ''notification.device.unregister'', ''session.create'']"

definition leaseFreeCommands :: "string list" where
  "leaseFreeCommands = controllerCommands @ [
     ''session.create'', ''session.delete'', ''notification.device.register'',
     ''notification.device.unregister'']"

definition processCommands :: "string list" where
  "processCommands = [''process.stop'', ''process.restart'', ''process.rerun'']"

definition processStableErrors :: "string list" where
  "processStableErrors = [''process_unavailable'', ''process_not_found'', ''process_stale'', ''process_failed'']"

definition gitCommands :: "string list" where
  "gitCommands = [''git.commit.request'', ''git.push.request'']"

definition gitStableErrors :: "string list" where
  "gitStableErrors = [
     ''git_unavailable'', ''git_remote_missing'', ''git_provider_unavailable'', ''git_auth_missing'',
     ''git_stale'', ''git_action_failed'']"

definition attentionCommands :: "string list" where
  "attentionCommands = [''attention.resolve'']"

definition attentionStableErrors :: "string list" where
  "attentionStableErrors = [''attention_unavailable'', ''attention_not_found'', ''attention_stale'']"

definition agentCommands :: "string list" where
  "agentCommands = [''agent.steer'', ''agent.cancel'', ''agent.adopt'', ''agent.merge'']"

definition agentStableErrors :: "string list" where
  "agentStableErrors = [''agent_unavailable'', ''agent_not_found'', ''agent_stale'', ''agent_action_failed'']"

definition catalogueCommands :: "string list" where
  "catalogueCommands = [''catalogue.set_enabled'']"

definition catalogueStableErrors :: "string list" where
  "catalogueStableErrors = [
     ''catalogue_unavailable'', ''catalogue_not_found'', ''catalogue_stale'', ''catalogue_action_failed'']"

definition baseStableErrors :: "string list" where
  "baseStableErrors = [
     ''invalid_message'', ''unsupported_capability'', ''invalid_state'', ''idempotency_conflict'']"

datatype ownership = Host_owned | Session_owned | Host_or_session

record command_metadata_row =
  md_type :: string
  md_scope :: ownership
  md_requiresLeaseId :: bool
  md_requiredCapability :: string
  md_acceptedStates :: "string list"
  md_semanticHashFields :: "string list"
  md_idempotency :: string
  md_recovery :: string
  md_journaledEffects :: "string list"
  md_stableErrors :: "string list"

definition metadata_of :: "string \<Rightarrow> command_metadata_row" where
  "metadata_of type =
     \<lparr>md_type = type,
      md_scope = (if type \<in> set controllerCommands then Host_or_session
                  else if type \<in> set hostCommands then Host_owned
                  else Session_owned),
      md_requiresLeaseId = (type \<notin> set leaseFreeCommands),
      md_requiredCapability =
        (if type \<in> set processCommands then ''runtime.processes.v1''
         else if type \<in> set catalogueCommands then ''catalogue.v1''
         else if type \<in> set agentCommands then ''agents.v1''
         else if type \<in> set attentionCommands then ''attention.v1''
         else if type \<in> set gitCommands then ''git-ci.v1''
         else ''commands.v1''),
      md_acceptedStates = [''protocol-valid'', ''capability-supported'', ''state-eligible''],
      md_semanticHashFields = [''type'', ''payload''],
      md_idempotency = ''command-id-semantic-payload-sha256'',
      md_recovery = ''accepted-undispatched-dispatch-once;running-at-crash-indeterminate'',
      md_journaledEffects = [''command.state''],
      md_stableErrors =
        (if type \<in> set processCommands then baseStableErrors @ processStableErrors
         else if type \<in> set gitCommands then baseStableErrors @ gitStableErrors
         else if type \<in> set attentionCommands then baseStableErrors @ attentionStableErrors
         else if type \<in> set agentCommands then baseStableErrors @ agentStableErrors
         else if type \<in> set catalogueCommands then baseStableErrors @ catalogueStableErrors
         else baseStableErrors)\<rparr>"

definition COMMAND_METADATA :: "command_metadata_row list" where
  "COMMAND_METADATA = map metadata_of COMMAND_TYPES"

section \<open>Event ownership\<close>

definition hostEventTypes :: "string list" where
  "hostEventTypes = [
     ''host.state'', ''host.degraded'', ''host.draining'', ''host.capacity'', ''host.backup_state'',
     ''host.compatibility'', ''session.summary'', ''session.removed'', ''workspace.summary'',
     ''notification.capability'', ''workspace.tree.snapshot'', ''workspace.file.metadata'',
     ''workspace.file.stale'', ''workspace.file.unavailable'', ''git.summary'', ''git.unavailable'',
     ''recipe.unavailable'', ''plan.unavailable'', ''agent.unavailable'', ''catalogue.snapshot'',
     ''catalogue.unavailable'']"

definition EVENT_STREAM_OWNERSHIP :: "string \<Rightarrow> ownership" where
  "EVENT_STREAM_OWNERSHIP type =
     (if type = ''command.state'' \<or> type = ''error.event'' then Host_or_session
      else if type \<in> set hostEventTypes then Host_owned
      else Session_owned)"

end
