(* ===== verification/Protocol_Content.thy ===== *)
theory Protocol_Content
  imports Protocol_Tables
begin

text \<open>
  The content schemas of packages/protocol-schema/src/index.ts: shared primitives, recipe activity,
  plans, the workspace file browser and the context inspector.
\<close>

section \<open>Shared primitives\<close>

definition UuidSchema :: schema where
  "UuidSchema = matching UUID_PATTERN"

definition DecimalCursorSchema :: schema where
  "DecimalCursorSchema = matching DECIMAL_CURSOR_PATTERN"

definition CapabilitySchema :: schema where
  "CapabilitySchema = TUnion (map lit SUPPORTED_CAPABILITIES)"

definition Uuid :: schema where
  "Uuid = UuidSchema"

definition RevisionTokenSchema :: schema where
  "RevisionTokenSchema = matching (sequence [In ''AZaz'', Rep (In ''AZaz09__..::--'') 0 (Some 127), AtEnd])"

definition CAPABILITY_STATES :: "string list" where
  "CAPABILITY_STATES = [''available'', ''degraded'', ''unavailable'', ''stale'']"

definition CapabilityStatusSchema :: schema where
  "CapabilityStatusSchema = TUnion [
     closed_object [
       (''state'', lit ''available''), (''reason'', TOptional (sized 1 maxReasonLength)),
       (''remediation'', TOptional (sized 1 maxRemediationLength)),
       (''source'', TOptional (sized 1 maxCapabilitySourceLength)),
       (''revision'', TOptional RevisionTokenSchema),
       (''lastRefreshedAt'', TOptional (matching ISO_UTC_PATTERN))],
     closed_object [
       (''state'', lit ''degraded''), (''reason'', sized 1 maxReasonLength),
       (''remediation'', sized 1 maxRemediationLength),
       (''source'', TOptional (sized 1 maxCapabilitySourceLength)),
       (''revision'', TOptional RevisionTokenSchema),
       (''lastRefreshedAt'', TOptional (matching ISO_UTC_PATTERN))],
     closed_object [
       (''state'', lit ''unavailable''), (''reason'', sized 1 maxReasonLength),
       (''remediation'', sized 1 maxRemediationLength),
       (''source'', TOptional (sized 1 maxCapabilitySourceLength)),
       (''revision'', TOptional RevisionTokenSchema),
       (''lastRefreshedAt'', TOptional (matching ISO_UTC_PATTERN))],
     closed_object [
       (''state'', lit ''stale''), (''reason'', sized 1 maxReasonLength),
       (''remediation'', sized 1 maxRemediationLength),
       (''source'', TOptional (sized 1 maxCapabilitySourceLength)),
       (''revision'', TOptional RevisionTokenSchema),
       (''lastRefreshedAt'', TOptional (matching ISO_UTC_PATTERN))]]"

definition BoundsSchema :: schema where
  "BoundsSchema = open_object [
     (''maxItems'', TOptional natural), (''maxBytes'', TOptional natural), (''maxLines'', TOptional natural),
     (''maxDepth'', TOptional natural), (''maxDurationMs'', TOptional natural)]"

definition TruncationSchema :: schema where
  "TruncationSchema = closed_object [
     (''retainedBytes'', natural), (''totalBytes'', natural),
     (''digest'', TOptional (matching (sequence [times 64 (In ''09af''), AtEnd]))), (''isTruncated'', TBoolean)]"

definition TimingSchema :: schema where
  "TimingSchema = closed_object [
     (''startedAt'', matching ISO_UTC_PATTERN), (''updatedAt'', TOptional (matching ISO_UTC_PATTERN)),
     (''finishedAt'', TOptional (matching ISO_UTC_PATTERN)), (''durationMs'', TOptional natural)]"

section \<open>Plan targets and recipe activity\<close>

definition ErrorInfoSchema :: schema where
  "ErrorInfoSchema = closed_object [
     (''code'', TUnion (map lit ERROR_CODES)),
     (''message'', sized 1 maxErrorMessageLength),
     (''retryable'', TBoolean),
     (''recommendedDelayMs'', TOptional (TUnion [natural, TNull]))]"

definition ProviderSummarySchema :: schema where
  "ProviderSummarySchema = closed_object [
     (''kind'', lit ''provider_summary''), (''provider'', sized 1 128), (''model'', TOptional (sized 1 128)),
     (''summary'', sized 1 1024), (''truncation'', TOptional TruncationSchema)]"

definition PlanTargetSchema :: schema where
  "PlanTargetSchema = closed_object [
     (''planId'', sized 1 maxPlanIdLength), (''stepId'', sized 1 maxStepIdLength),
     (''revision'', RevisionTokenSchema)]"

definition RecipeActivitySchema :: schema where
  "RecipeActivitySchema = TUnion [
     closed_object [
       (''kind'', lit ''thinking''),
       (''sessionId'', Uuid),
       (''turnId'', sized 1 maxTurnIdLength),
       (''activityId'', sized 1 maxRecipeActivityIdLength),
       (''ordinal'', natural),
       (''status'', TUnion (map lit [''pending'', ''running'', ''completed'', ''failed'', ''cancelled''])),
       (''timing'', TimingSchema),
       (''title'', sized 1 maxRecipeTitleLength),
       (''providerSummary'', TOptional ProviderSummarySchema),
       (''truncation'', TOptional TruncationSchema)],
     closed_object [
       (''kind'', lit ''tool''),
       (''sessionId'', Uuid),
       (''turnId'', sized 1 maxTurnIdLength),
       (''activityId'', sized 1 maxRecipeActivityIdLength),
       (''ordinal'', natural),
       (''status'', TUnion (map lit [''pending'', ''running'', ''completed'', ''failed'', ''cancelled''])),
       (''timing'', TimingSchema),
       (''title'', sized 1 maxRecipeTitleLength),
       (''toolName'', sized 1 maxToolNameLength),
       (''arguments'', sized 1 maxRecipeArgumentsLength),
       (''output'', sized 1 maxRecipeOutputLength),
       (''errorInfo'', TOptional ErrorInfoSchema),
       (''truncation'', TOptional TruncationSchema)]]"

section \<open>Plans\<close>

definition PlanStepSchema :: schema where
  "PlanStepSchema = closed_object [
     (''stepId'', sized 1 maxStepIdLength),
     (''title'', sized 1 maxRecipeTitleLength),
     (''status'', TUnion (map lit [''pending'', ''running'', ''completed'', ''blocked'', ''skipped''])),
     (''blocker'', TOptional (sized 1 maxPlanBlockerLength)),
     (''timing'', TOptional TimingSchema)]"

definition PlanSnapshotSchema :: schema where
  "PlanSnapshotSchema = closed_object [
     (''planId'', sized 1 maxPlanIdLength), (''revision'', RevisionTokenSchema), (''sessionId'', Uuid),
     (''turnId'', sized 1 maxTurnIdLength), (''source'', sized 1 maxCapabilitySourceLength),
     (''stale'', TBoolean), (''capability'', CapabilityStatusSchema),
     (''steps'', TArray PlanStepSchema None (Some maxPlanSteps) False)]"

definition RECIPE_CAPABILITY :: string where
  "RECIPE_CAPABILITY = ''recipes.v1''"

definition PLAN_CAPABILITY :: string where
  "PLAN_CAPABILITY = ''plans.v1''"

definition RecipeUnavailableSchema :: schema where
  "RecipeUnavailableSchema = closed_object [
     (''capability'', lit RECIPE_CAPABILITY), (''status'', CapabilityStatusSchema)]"

definition PlanUnavailableSchema :: schema where
  "PlanUnavailableSchema = closed_object [
     (''capability'', lit PLAN_CAPABILITY), (''status'', CapabilityStatusSchema)]"

section \<open>Workspace files\<close>

definition FILES_CAPABILITY :: string where
  "FILES_CAPABILITY = ''files.v1''"

definition CONTEXTS_CAPABILITY :: string where
  "CONTEXTS_CAPABILITY = ''contexts.v1''"

definition WORKSPACE_PATH_PATTERN :: rx where
  "WORKSPACE_PATH_PATTERN =
     sequence [NotAhead (Lit ''/''), NotAhead (sequence [many Dot, Lit ''//'']),
       NotAhead (sequence [many Dot, Lit [CHR 0x5C]]), NotAhead (sequence [many Dot,
       Alt (AtStart) (Lit ''/''), Lit ''.'', maybe (Lit ''.''), Alt (Lit ''/'') (AtEnd)]),
       Rep (NotIn [CHR 0x00, CHR 0x1F, CHR 0x7F, CHR 0x7F]) 1 (Some 1024), AtEnd]"

definition WorkspacePathSchema :: schema where
  "WorkspacePathSchema = TString (Some WORKSPACE_PATH_PATTERN) None (Some maxWorkspacePathLength)"

definition LineRangeSchema :: schema where
  "LineRangeSchema = closed_object [
     (''startLine'', TInteger (Some 1) None), (''endLine'', TInteger (Some 1) None),
     (''label'', TOptional (sized 1 64))]"

definition FileNodeSchema :: schema where
  "FileNodeSchema = closed_object [
     (''path'', WorkspacePathSchema),
     (''kind'', TUnion [lit ''file'', lit ''directory'']),
     (''depth'', TInteger (Some 0) (Some (int maxTreeDepth))),
     (''size'', TOptional (TInteger (Some 0) (Some (int maxFileSize)))),
     (''childCount'', TOptional (TInteger (Some 0) (Some (int maxTreePageItems)))),
     (''modifiedAt'', TOptional (matching ISO_UTC_PATTERN)),
     (''sha256'', TOptional (matching (sequence [times 64 (In ''09af''), AtEnd]))),
     (''isBinary'', TOptional TBoolean),
     (''languageHint'', TOptional (sized 1 maxLanguageHintLength))]"

definition FileSearchMatchSchema :: schema where
  "FileSearchMatchSchema = closed_object [
     (''path'', WorkspacePathSchema), (''matchStart'', TOptional natural),
     (''matchLength'', TOptional (TInteger (Some 1) None))]"

definition ContentSearchMatchSchema :: schema where
  "ContentSearchMatchSchema = closed_object [
     (''path'', WorkspacePathSchema), (''line'', TInteger (Some 1) None), (''column'', TInteger (Some 1) None),
     (''matchStart'', natural), (''matchLength'', TInteger (Some 1) None), (''lineText'', sized 0 4096)]"

definition FileMetadataSchema :: schema where
  "FileMetadataSchema = closed_object [
     (''path'', WorkspacePathSchema), (''size'', TInteger (Some 0) (Some (int maxFileSize))),
     (''sha256'', TOptional (matching (sequence [times 64 (In ''09af''), AtEnd]))), (''isBinary'', TBoolean),
     (''modifiedAt'', matching ISO_UTC_PATTERN), (''revision'', RevisionTokenSchema),
     (''lastReadAt'', matching ISO_UTC_PATTERN), (''languageHint'', TOptional (sized 1 maxLanguageHintLength))]"

definition FileReadResultSchema :: schema where
  "FileReadResultSchema = closed_object [
     (''path'', WorkspacePathSchema), (''revision'', RevisionTokenSchema),
     (''rangeStart'', TInteger (Some 1) None), (''rangeEnd'', TInteger (Some 1) None),
     (''totalLines'', natural), (''content'', sized 0 maxFileReadBytes), (''encoding'', lit ''utf-8''),
     (''isTruncated'', TBoolean), (''truncation'', TOptional TruncationSchema),
     (''lastModifiedAt'', matching ISO_UTC_PATTERN)]"

definition FileAttachmentReferenceSchema :: schema where
  "FileAttachmentReferenceSchema = closed_object [
     (''workspaceId'', Uuid), (''path'', WorkspacePathSchema),
     (''ranges'', TOptional (TArray LineRangeSchema None (Some maxPinnedRanges) False)),
     (''digest'', matching (sequence [times 64 (In ''09af''), AtEnd])), (''revision'', RevisionTokenSchema)]"

definition WorkspaceTreeSnapshotEventSchema :: schema where
  "WorkspaceTreeSnapshotEventSchema = closed_object [
     (''workspaceId'', Uuid), (''rootRevision'', RevisionTokenSchema),
     (''changeSet'', TArray WorkspacePathSchema None (Some 1024) False), (''capability'', lit FILES_CAPABILITY),
     (''status'', CapabilityStatusSchema)]"

definition WorkspaceFileMetadataEventSchema :: schema where
  "WorkspaceFileMetadataEventSchema = closed_object [
     (''workspaceId'', Uuid), (''file'', FileMetadataSchema),
     (''previousRevision'', TOptional RevisionTokenSchema), (''capability'', lit FILES_CAPABILITY)]"

definition WorkspaceFileStaleEventSchema :: schema where
  "WorkspaceFileStaleEventSchema = closed_object [
     (''workspaceId'', Uuid), (''path'', WorkspacePathSchema), (''previousRevision'', RevisionTokenSchema),
     (''currentRevision'', RevisionTokenSchema), (''modifiedAt'', matching ISO_UTC_PATTERN),
     (''capability'', lit FILES_CAPABILITY)]"

definition WorkspaceFileUnavailableEventSchema :: schema where
  "WorkspaceFileUnavailableEventSchema = closed_object [
     (''workspaceId'', Uuid), (''capability'', lit FILES_CAPABILITY), (''status'', CapabilityStatusSchema)]"

definition PinnedFileSchema :: schema where
  "PinnedFileSchema = closed_object [
     (''path'', WorkspacePathSchema), (''pinnedAt'', matching ISO_UTC_PATTERN),
     (''ranges'', TOptional (TArray LineRangeSchema None (Some maxPinnedRanges) False)),
     (''revision'', RevisionTokenSchema)]"

section \<open>Context inspector\<close>

definition TOKEN_USAGE_DIGITS_PATTERN :: rx where
  "TOKEN_USAGE_DIGITS_PATTERN =
     sequence [Alt (Lit ''0'') (sequence [In ''19'', Rep (In ''09'') 0 (Some 15)]), AtEnd]"

definition TokenUsageSchema :: schema where
  "TokenUsageSchema = closed_object [
     (''inputTokens'', matching TOKEN_USAGE_DIGITS_PATTERN),
     (''outputTokens'', matching TOKEN_USAGE_DIGITS_PATTERN),
     (''cacheReadTokens'', TOptional (matching TOKEN_USAGE_DIGITS_PATTERN)),
     (''cacheWriteTokens'', TOptional (matching TOKEN_USAGE_DIGITS_PATTERN)),
     (''contextWindowTokens'', TOptional (matching TOKEN_USAGE_DIGITS_PATTERN)),
     (''usagePercent'', TOptional (TNumber (Some 0) (Some 1)))]"

definition ContextSourceSchema :: schema where
  "ContextSourceSchema = closed_object [
     (''sourceId'', sized 1 maxContextSourceIdLength), (''sourceKind'', sized 1 maxContextSourceKindLength),
     (''summary'', sized 0 maxContextSourceSummary), (''stale'', TBoolean),
     (''capability'', CapabilityStatusSchema), (''revision'', TOptional RevisionTokenSchema),
     (''lastRefreshedAt'', TOptional (matching ISO_UTC_PATTERN))]"

definition ContextSnapshotSchema :: schema where
  "ContextSnapshotSchema = closed_object [
     (''sessionId'', Uuid),
     (''revision'', RevisionTokenSchema),
     (''source'', sized 1 maxCapabilitySourceLength),
     (''stale'', TBoolean),
     (''capability'', CapabilityStatusSchema),
     (''model'', TOptional (closed_object [(''provider'', sized 1 128), (''modelId'', sized 1 128)])),
     (''thinkingLevel'', TOptional (sized 1 32)),
     (''instructions'', TOptional (sized 0 maxContextInstructions)),
     (''pinnedFiles'', TOptional (TArray PinnedFileSchema None (Some maxPinnedFiles) False)),
     (''tokenUsage'', TOptional TokenUsageSchema),
     (''compacted'', TOptional TBoolean),
     (''compactRevision'', TOptional RevisionTokenSchema),
     (''compactedAt'', TOptional (matching ISO_UTC_PATTERN)),
     (''sources'', TOptional (TArray ContextSourceSchema None (Some 64) False)),
     (''lastRefreshedAt'', matching ISO_UTC_PATTERN)]"

definition ContextUnavailableEventSchema :: schema where
  "ContextUnavailableEventSchema = closed_object [
     (''sessionId'', Uuid), (''capability'', lit CONTEXTS_CAPABILITY), (''status'', CapabilityStatusSchema)]"

definition ContextFileTargetSchema :: schema where
  "ContextFileTargetSchema = closed_object [
     (''kind'', lit ''file''), (''path'', WorkspacePathSchema),
     (''ranges'', TOptional (TArray LineRangeSchema None (Some maxPinnedRanges) False)),
     (''revision'', TOptional RevisionTokenSchema)]"

section \<open>Paged reads\<close>

definition ContextSourceTargetSchema :: schema where
  "ContextSourceTargetSchema = closed_object [
     (''kind'', lit ''source''), (''sourceId'', sized 1 maxContextSourceIdLength),
     (''revision'', TOptional RevisionTokenSchema)]"

definition ContextAllTargetSchema :: schema where
  "ContextAllTargetSchema = closed_object [(''kind'', lit ''all'')]"

definition ContextMutationTargetSchema :: schema where
  "ContextMutationTargetSchema = TUnion [
     ContextFileTargetSchema, ContextSourceTargetSchema, ContextAllTargetSchema]"

definition ContextMutationPayloadSchema :: schema where
  "ContextMutationPayloadSchema = closed_object [
     (''sessionId'', Uuid), (''expectedRevision'', RevisionTokenSchema),
     (''target'', ContextMutationTargetSchema)]"

definition PageTokenSchema :: schema where
  "PageTokenSchema = TUnion [sized 1 256, TNull]"

definition WorkspaceQuerySchema :: schema where
  "WorkspaceQuerySchema = sized 1 512"

definition WorkspacePathOptional :: schema where
  "WorkspacePathOptional = TOptional WorkspacePathSchema"

definition WorkspaceTreePagePayloadSchema :: schema where
  "WorkspaceTreePagePayloadSchema = closed_object [
     (''workspaceId'', Uuid), (''path'', WorkspacePathOptional),
     (''rootRevision'', TOptional RevisionTokenSchema),
     (''pageSize'', TInteger (Some 1) (Some (int maxTreePageItems))), (''pageToken'', PageTokenSchema)]"

definition WorkspaceFileSearchPayloadSchema :: schema where
  "WorkspaceFileSearchPayloadSchema = closed_object [
     (''workspaceId'', Uuid), (''query'', WorkspaceQuerySchema), (''path'', WorkspacePathOptional),
     (''pageSize'', TOptional (TInteger (Some 1) (Some (int maxFilenameSearchItems)))),
     (''pageToken'', TOptional PageTokenSchema)]"

definition WorkspaceContentSearchPayloadSchema :: schema where
  "WorkspaceContentSearchPayloadSchema = closed_object [
     (''workspaceId'', Uuid), (''query'', WorkspaceQuerySchema), (''path'', WorkspacePathOptional),
     (''pageSize'', TOptional (TInteger (Some 1) (Some (int maxContentSearchLines)))),
     (''pageToken'', TOptional PageTokenSchema)]"

definition WorkspaceFileMetadataPayloadSchema :: schema where
  "WorkspaceFileMetadataPayloadSchema = closed_object [
     (''workspaceId'', Uuid), (''path'', WorkspacePathSchema),
     (''expectedRevision'', TOptional RevisionTokenSchema)]"

definition WorkspaceFileReadPayloadSchema :: schema where
  "WorkspaceFileReadPayloadSchema = closed_object [
     (''workspaceId'', Uuid), (''path'', WorkspacePathSchema), (''rangeStart'', TInteger (Some 1) None),
     (''rangeEnd'', TInteger (Some 1) (Some MAX_SAFE_INTEGER)),
     (''expectedRevision'', TOptional RevisionTokenSchema)]"

definition ContextSnapshotRequestPayloadSchema :: schema where
  "ContextSnapshotRequestPayloadSchema = closed_object [(''sessionId'', Uuid)]"

definition PageResponseFields :: "(string \<times> schema) list" where
  "PageResponseFields = [
     (''workspaceId'', Uuid), (''rootRevision'', RevisionTokenSchema),
     (''nextPageToken'', TOptional PageTokenSchema)]"

definition R3TreePageResponseSchema :: schema where
  "R3TreePageResponseSchema = closed_object (spread_fields PageResponseFields [
     (''path'', WorkspacePathOptional), (''items'', TArray FileNodeSchema None (Some maxTreePageItems) False)])"

definition R3FileSearchResponseSchema :: schema where
  "R3FileSearchResponseSchema = closed_object (spread_fields PageResponseFields [
     (''items'', TArray FileSearchMatchSchema None (Some maxFilenameSearchItems) False)])"

definition R3ContentSearchResponseSchema :: schema where
  "R3ContentSearchResponseSchema = closed_object (spread_fields PageResponseFields [
     (''items'', TArray ContentSearchMatchSchema None (Some maxContentSearchLines) False),
     (''isTruncated'', TBoolean)])"

end
