(* ===== verification/Protocol_Services.thy ===== *)
theory Protocol_Services
  imports Protocol_Content
begin

text \<open>
  The envelope of every message and the schemas of the supervised processes, the Git summary, the
  command catalogue, delegated agents and attention items, of packages/protocol-schema/src/index.ts.
\<close>

section \<open>Envelopes\<close>

definition R3MetadataResponseSchema :: schema where
  "R3MetadataResponseSchema = closed_object [(''workspaceId'', Uuid), (''file'', FileMetadataSchema)]"

definition R3ReadResponseSchema :: schema where
  "R3ReadResponseSchema = closed_object [(''workspaceId'', Uuid), (''result'', FileReadResultSchema)]"

definition Payload :: schema where
  "Payload = open_object []"

definition PiRpcRequestIdSchema :: schema where
  "PiRpcRequestIdSchema = sized 1 128"

definition RawPiCommandSchema :: schema where
  "RawPiCommandSchema = open_object [(''type'', sized 1 128)]"

definition RawPiBodySchema :: schema where
  "RawPiBodySchema = open_object []"

definition PiRpcRequestEnvelopeSchema :: schema where
  "PiRpcRequestEnvelopeSchema = closed_object [
     (''sessionId'', Uuid), (''requestId'', PiRpcRequestIdSchema), (''command'', RawPiCommandSchema)]"

definition PiRpcResponseEnvelopeSchema :: schema where
  "PiRpcResponseEnvelopeSchema = closed_object [
     (''sessionId'', Uuid), (''requestId'', PiRpcRequestIdSchema), (''response'', RawPiBodySchema)]"

definition PiRpcEventEnvelopeSchema :: schema where
  "PiRpcEventEnvelopeSchema = closed_object [(''sessionId'', Uuid), (''event'', RawPiBodySchema)]"

definition ProtocolVersionSchema :: schema where
  "ProtocolVersionSchema = open_object [(''major'', TLiteral (JNum PROTOCOL_MAJOR)), (''minor'', natural)]"

definition Protocol :: schema where
  "Protocol = ProtocolVersionSchema"

definition EnvelopeFields :: "(string \<times> schema) list" where
  "EnvelopeFields = [
     (''protocol'', Protocol), (''messageId'', Uuid), (''type'', TString None (Some 1) None),
     (''sentAt'', matching ISO_UTC_PATTERN), (''payload'', Payload)]"

definition EnvelopeSchema :: schema where
  "EnvelopeSchema = open_object (spread_fields EnvelopeFields [
     (''requestId'', TOptional Uuid), (''commandId'', TOptional Uuid), (''connectionId'', TOptional Uuid),
     (''leaseId'', TOptional Uuid), (''streamId'', TOptional (matching STREAM_ID_PATTERN)),
     (''cursor'', TOptional (matching DECIMAL_CURSOR_PATTERN))])"

definition StreamSchema :: schema where
  "StreamSchema = open_object [
     (''streamId'', matching STREAM_ID_PATTERN), (''cursor'', matching DECIMAL_CURSOR_PATTERN)]"

definition WithOptionalRequest :: "(string \<times> schema) list" where
  "WithOptionalRequest = (spread_fields EnvelopeFields [
     (''requestId'', TOptional Uuid), (''connectionId'', TOptional Uuid)])"

definition ClientEnvelope :: "(string \<times> schema) list" where
  "ClientEnvelope = (spread_fields EnvelopeFields [(''requestId'', Uuid), (''connectionId'', Uuid)])"

definition SessionId :: schema where
  "SessionId = Uuid"

definition R5ProcessId :: schema where
  "R5ProcessId = sized 1 maxProcessIdLength"

section \<open>Processes\<close>

definition R5ProcessStatus :: schema where
  "R5ProcessStatus = TUnion [lit ''running'', lit ''completed'', lit ''failed'', lit ''stopped'']"

definition R5ProcessPort :: schema where
  "R5ProcessPort = closed_object [
     (''port'', TInteger (Some 1) (Some 65535)),
     (''protocol'', TUnion [lit ''tcp'', lit ''udp''])]"

definition R5SupportedActions :: schema where
  "R5SupportedActions = TArray (TUnion [lit ''stop'', lit ''restart'', lit ''rerun'']) None (Some 3) True"

definition ProcessSnapshotSchema :: schema where
  "ProcessSnapshotSchema = closed_object [
     (''sessionId'', SessionId), (''processId'', R5ProcessId), (''revision'', RevisionTokenSchema),
     (''status'', R5ProcessStatus), (''command'', sized 1 maxProcessCommandLength),
     (''startedAt'', matching ISO_UTC_PATTERN), (''capability'', lit ''runtime.processes.v1''),
     (''stale'', TBoolean), (''turnId'', TOptional (sized 1 maxTurnIdLength)),
     (''toolCallId'', TOptional (sized 1 maxTurnIdLength)), (''pid'', TOptional (TInteger (Some 1) None)),
     (''cwd'', TOptional WorkspacePathSchema), (''finishedAt'', TOptional (matching ISO_UTC_PATTERN)),
     (''durationMs'', TOptional natural), (''exitCode'', TOptional (TInteger None None)),
     (''signal'', TOptional (sized 1 64)),
     (''ports'', TOptional (TArray R5ProcessPort None (Some maxProcessPorts) False)),
     (''supportedActions'', R5SupportedActions)]"

definition R5OutputFields :: "(string \<times> schema) list" where
  "R5OutputFields = [
     (''sessionId'', SessionId),
     (''processId'', R5ProcessId),
     (''revision'', RevisionTokenSchema),
     (''stream'', TUnion [lit ''stdout'', lit ''stderr'']),
     (''content'', TString None None (Some maxProcessOutputLength)),
     (''truncation'', TruncationSchema),
     (''cursor'', TOptional DecimalCursorSchema),
     (''pageToken'', TOptional (sized 1 128))]"

definition ProcessOutputSchema :: schema where
  "ProcessOutputSchema = closed_object R5OutputFields"

definition R5ProcessCommand :: schema where
  "R5ProcessCommand = closed_object [
     (''sessionId'', SessionId), (''processId'', R5ProcessId), (''expectedRevision'', RevisionTokenSchema)]"

definition R5ProcessMetadata :: schema where
  "R5ProcessMetadata = closed_object [(''lease'', lit ''session'')]"

definition R5ProcessPayload :: schema where
  "R5ProcessPayload = closed_object (spread_fields (properties R5ProcessCommand) (properties R5ProcessMetadata))"

section \<open>Git and CI\<close>

definition GIT_CI_CAPABILITY :: string where
  "GIT_CI_CAPABILITY = ''git-ci.v1''"

definition EXTERNAL_URL_PATTERN :: rx where
  "EXTERNAL_URL_PATTERN =
     sequence [Lit ''https://'', NotAhead (sequence [many (NotIn ''//??##''), Lit ''@'']),
       Ahead (sequence [Rep (NotIn ''//??##'') 1 (Some 253), Alt (In ''//??##'') (AtEnd)]), In ''AZaz09'',
       maybe (sequence [many (In ''AZaz09..--''), In ''AZaz09'']), maybe (sequence [Lit '':'',
       Rep (In ''09'') 1 (Some 5)]), maybe (sequence [In ''//??##'', many (NotIn [CHR 0x09, CHR 0x0D,
       CHR '' '', CHR '' '', CHR 0xA0, CHR 0xA0, CHR 0x00, CHR 0x1F, CHR 0x7F, CHR 0x7F])]), AtEnd]"

definition ExternalUrlSchema :: schema where
  "ExternalUrlSchema = TString (Some EXTERNAL_URL_PATTERN) None (Some maxExternalUrlLength)"

definition GIT_REPOSITORY_LABEL_PATTERN :: rx where
  "GIT_REPOSITORY_LABEL_PATTERN =
     sequence [NotAhead (Lit ''/''), Rep (In ''AZaz09..__:://--'') 1 (Some 128), AtEnd]"

definition GitRepositoryLabelSchema :: schema where
  "GitRepositoryLabelSchema = TString (Some GIT_REPOSITORY_LABEL_PATTERN) None (Some maxRepositoryLabelLength)"

definition GIT_BRANCH_PATTERN :: rx where
  "GIT_BRANCH_PATTERN =
     sequence [NotAhead (In ''//..''), NotAhead (sequence [many Dot, Alt (Lit ''..'') (Lit [CHR ''@'',
       CHR ''{''])]), NotAhead (sequence [many Dot, Lit ''//'']), Rep (In ''AZaz09..__//--'') 1 (Some 128),
       NotBehind ''.lock'', AtEnd]"

definition GitBranchSchema :: schema where
  "GitBranchSchema = TString (Some GIT_BRANCH_PATTERN) None (Some maxBranchLength)"

definition GIT_WORKING_TREE_STATES :: "string list" where
  "GIT_WORKING_TREE_STATES = [''clean'', ''dirty'', ''unknown'']"

definition GIT_CI_STATES :: "string list" where
  "GIT_CI_STATES = [''success'', ''failure'', ''pending'', ''unknown'']"

definition GIT_ACTIONS :: "string list" where
  "GIT_ACTIONS = [''refresh'', ''commit_through_pi'', ''push_through_pi'', ''open_external'']"

definition GitWorkingTreeStateSchema :: schema where
  "GitWorkingTreeStateSchema = TUnion (map lit GIT_WORKING_TREE_STATES)"

definition GitCiStatusSchema :: schema where
  "GitCiStatusSchema = closed_object [(''state'', TUnion (map lit GIT_CI_STATES))]"

definition GitCheckRunSchema :: schema where
  "GitCheckRunSchema = closed_object [
     (''name'', sized 1 maxCheckNameLength), (''status'', TUnion (map lit GIT_CI_STATES)),
     (''summary'', TOptional (sized 1 maxCheckSummaryLength)),
     (''logSummary'', TOptional (sized 1 maxLogSummaryLength)), (''url'', TOptional ExternalUrlSchema)]"

definition GitFailedChecksSchema :: schema where
  "GitFailedChecksSchema = TArray GitCheckRunSchema None (Some maxFailedChecks) False"

definition GitPullRequestSchema :: schema where
  "GitPullRequestSchema = closed_object [
     (''number'', TInteger (Some 1) (Some MAX_SAFE_INTEGER)), (''title'', sized 1 maxGitPullRequestTitleLength),
     (''url'', ExternalUrlSchema)]"

definition GitLatestCommitSchema :: schema where
  "GitLatestCommitSchema = closed_object [
     (''sha'', TString (Some (sequence [Rep (In ''09af'') 7 (Some 64), AtEnd])) None (Some maxCommitShaLength)),
     (''message'', TOptional (sized 1 maxCommitMessageLength)),
     (''author'', TOptional (sized 1 maxCommitAuthorLength)), (''authoredAt'', matching ISO_UTC_PATTERN),
     (''url'', ExternalUrlSchema)]"

definition GitSummaryFields :: "(string \<times> schema) list" where
  "GitSummaryFields = [
     (''workspaceId'', Uuid), (''revision'', RevisionTokenSchema), (''repositoryUrl'', ExternalUrlSchema),
     (''repository'', GitRepositoryLabelSchema), (''workingTreeState'', GitWorkingTreeStateSchema),
     (''changedCount'', TInteger (Some 0) (Some (int maxGitCount))),
     (''ahead'', TInteger (Some 0) (Some (int maxGitCount))),
     (''behind'', TInteger (Some 0) (Some (int maxGitCount))), (''latestCommit'', GitLatestCommitSchema),
     (''pullRequest'', TOptional GitPullRequestSchema), (''ciStatus'', GitCiStatusSchema),
     (''failedChecks'', GitFailedChecksSchema),
     (''supportedActions'', TArray (TUnion (map lit GIT_ACTIONS)) None (Some (length GIT_ACTIONS)) True),
     (''capability'', lit GIT_CI_CAPABILITY), (''lastRefreshedAt'', matching ISO_UTC_PATTERN)]"

definition GitSummarySchema :: schema where
  "GitSummarySchema = TUnion [
     closed_object (spread_fields GitSummaryFields [
       (''detached'', TLiteral (JBool True)), (''branch'', TNull)]),
     closed_object (spread_fields GitSummaryFields [
       (''detached'', TLiteral (JBool False)), (''branch'', GitBranchSchema)])]"

definition GitUnavailableEventSchema :: schema where
  "GitUnavailableEventSchema = closed_object [
     (''workspaceId'', Uuid), (''capability'', lit GIT_CI_CAPABILITY), (''status'', CapabilityStatusSchema)]"

definition GitConfirmationSchema :: schema where
  "GitConfirmationSchema = closed_object [
     (''confirmationId'', TString (Some (sequence [Rep (In ''AZaz09..__::--'') 1 (Some 128), AtEnd])) (Some 1) (Some maxGitConfirmationIdLength)),
     (''summary'', TOptional (sized 1 maxGitSummaryHintLength))]"

definition GitCommandFields :: "(string \<times> schema) list" where
  "GitCommandFields = [
     (''sessionId'', SessionId), (''workspaceId'', Uuid), (''expectedRevision'', RevisionTokenSchema),
     (''confirmation'', GitConfirmationSchema), (''summaryHint'', TOptional (sized 1 maxGitSummaryHintLength))]"

definition GitCommandPayloadSchema :: schema where
  "GitCommandPayloadSchema = closed_object GitCommandFields"

definition ControllerScope :: schema where
  "ControllerScope = TUnion [
     open_object [(''scope'', lit ''host'')],
     open_object [(''scope'', lit ''session''), (''sessionId'', SessionId)]]"

section \<open>Catalogue\<close>

definition CatalogueEntrySchema :: schema where
  "CatalogueEntrySchema = closed_object [
     (''entryId'', sized 1 128),
     (''kind'', TUnion [
       lit ''skill'', lit ''template'', lit ''extension'', lit ''mcp_server'', lit ''mcp_tool'']),
     (''name'', sized 1 128),
     (''description'', TOptional (TString None None (Some 512))),
     (''invocation'', TOptional (sized 1 256)),
     (''source'', sized 1 128),
     (''availability'', CapabilityStatusSchema),
     (''enabled'', TOptional TBoolean),
     (''requiresInput'', TOptional TBoolean),
     (''canToggle'', TBoolean),
     (''reloadRequired'', TBoolean),
     (''revision'', RevisionTokenSchema)]"

definition CatalogueSnapshotSchema :: schema where
  "CatalogueSnapshotSchema = closed_object [
     (''sessionId'', SessionId), (''revision'', RevisionTokenSchema),
     (''entries'', TArray CatalogueEntrySchema None (Some maxCatalogueEntries) False)]"

definition CatalogueUnavailableSchema :: schema where
  "CatalogueUnavailableSchema = closed_object [
     (''capability'', lit ''catalogue.v1''), (''status'', CapabilityStatusSchema)]"

definition CatalogueSnapshotRequestSchema :: schema where
  "CatalogueSnapshotRequestSchema = closed_object [(''requestId'', Uuid), (''sessionId'', SessionId)]"

definition CatalogueSetEnabledSchema :: schema where
  "CatalogueSetEnabledSchema = closed_object [
     (''sessionId'', SessionId), (''entryId'', sized 1 128), (''enabled'', TBoolean),
     (''expectedRevision'', RevisionTokenSchema), (''confirmed'', TLiteral (JBool True))]"

definition AgentActionSchema :: schema where
  "AgentActionSchema = TUnion [
     lit ''transcript'', lit ''steer'', lit ''cancel'', lit ''compare'', lit ''adopt'', lit ''merge'']"

definition AgentRecordSchema :: schema where
  "AgentRecordSchema = closed_object [
     (''agentId'', sized 1 128),
     (''task'', sized 1 maxAgentTaskLength),
     (''model'', TOptional (sized 1 128)),
     (''state'', TUnion [
       lit ''running'', lit ''blocked'', lit ''needs_input'', lit ''completed'', lit ''failed'',
       lit ''cancelled'', lit ''indeterminate'']),
     (''startedAt'', matching ISO_UTC_PATTERN),
     (''finishedAt'', TOptional (matching ISO_UTC_PATTERN)),
     (''originSessionId'', SessionId),
     (''originTurnId'', sized 1 128),
     (''latestActivity'', TOptional (TString None None (Some maxAgentSummaryLength))),
     (''completionSummary'', TOptional (TString None None (Some maxAgentSummaryLength))),
     (''transcriptRef'', TOptional (sized 1 128)),
     (''worktreeRef'', TOptional (sized 1 256)),
     (''supportedActions'', TArray AgentActionSchema None (Some 6) True),
     (''revision'', RevisionTokenSchema)]"

section \<open>Agents\<close>

definition AgentSnapshotSchema :: schema where
  "AgentSnapshotSchema = closed_object [
     (''revision'', RevisionTokenSchema), (''items'', TArray AgentRecordSchema None (Some maxAgentItems) False)]"

definition AgentUnavailableSchema :: schema where
  "AgentUnavailableSchema = closed_object [
     (''capability'', lit ''agents.v1''), (''status'', CapabilityStatusSchema)]"

definition AgentSnapshotRequestSchema :: schema where
  "AgentSnapshotRequestSchema = closed_object [(''requestId'', Uuid)]"

definition AgentTranscriptPageSchema :: schema where
  "AgentTranscriptPageSchema = closed_object [
     (''agentId'', sized 1 128),
     (''pageSize'', TInteger (Some 1) (Some 100)),
     (''pageToken'', TOptional (TUnion [sized 1 512, TNull]))]"

definition AgentActionPayloadSchema :: schema where
  "AgentActionPayloadSchema = closed_object [
     (''sessionId'', SessionId), (''agentId'', sized 1 128), (''expectedRevision'', RevisionTokenSchema),
     (''instruction'', TOptional (sized 1 1024))]"

definition AttentionCategorySchema :: schema where
  "AttentionCategorySchema = TUnion [
     lit ''needs_input'', lit ''completed'', lit ''failed'', lit ''interrupted'', lit ''background'']"

section \<open>Attention\<close>

definition AttentionItemSchema :: schema where
  "AttentionItemSchema = closed_object [
     (''attentionId'', Uuid), (''sessionId'', SessionId), (''turnId'', sized 1 128),
     (''category'', AttentionCategorySchema), (''occurrence'', matching ISO_UTC_PATTERN),
     (''summary'', sized 1 maxAttentionSummaryLength), (''actionable'', TBoolean),
     (''revision'', RevisionTokenSchema), (''resolved'', TBoolean), (''superseded'', TBoolean)]"

definition AttentionResolvePayloadSchema :: schema where
  "AttentionResolvePayloadSchema = closed_object [
     (''sessionId'', SessionId), (''attentionId'', Uuid), (''expectedRevision'', RevisionTokenSchema)]"

end
