(* ===== verification/Protocol_Messages.thy ===== *)
theory Protocol_Messages
  imports Protocol_Services
begin

text \<open>
  The message schemas of packages/protocol-schema/src/index.ts: one payload table for each family of
  messages, the family's schema, and the validator of the conformance fixtures.
\<close>

section \<open>Commands\<close>

definition CommandPayloads :: "(string \<times> schema) list" where
  "CommandPayloads = [
     (''controller.acquire'', ControllerScope),
     (''controller.takeover'', ControllerScope),
     (''controller.release'', ControllerScope),
     (''host.display_name.set'', open_object [(''displayName'', TString None (Some 1) None)]),
     (''notification.device.register'', open_object [
       (''deviceId'', Uuid), (''platform'', TString None (Some 1) None),
       (''token'', TString None (Some 1) None)]),
     (''notification.device.unregister'', open_object [(''deviceId'', Uuid)]),
     (''session.create'', open_object [
       (''workspaceId'', Uuid), (''workspaceRelativePath'', TOptional (TString None None (Some 4096))),
       (''name'', TOptional (TString None None None)), (''modelIntent'', TOptional (TString None None None)),
       (''modelId'', TOptional (TString None (Some 1) None)),
       (''provider'', TOptional (TString None (Some 1) None))]),
     (''session.activate'', open_object [(''sessionId'', SessionId)]),
     (''session.stop'', open_object [(''sessionId'', SessionId)]),
     (''session.rename'', open_object [(''sessionId'', SessionId), (''name'', TString None (Some 1) None)]),
     (''session.delete'', open_object [(''sessionId'', SessionId)]),
     (''session.restore'', open_object [(''sessionId'', SessionId)]),
     (''session.purge'', open_object [(''sessionId'', SessionId)]),
     (''session.fork'', open_object [(''sessionId'', SessionId), (''entryId'', TString None (Some 1) None)]),
     (''session.clone'', open_object [(''sessionId'', SessionId)]),
     (''session.export'', open_object [(''sessionId'', SessionId), (''format'', lit ''html'')]),
     (''prompt.submit'', open_object [
       (''sessionId'', SessionId),
       (''deliveryMode'', TUnion [lit ''immediate'', lit ''steer'', lit ''follow_up'']),
       (''message'', TString None None None),
       (''attachmentIds'', TArray Uuid None (Some maxAttachmentsPerPrompt) False),
       (''fileRefs'', TOptional (TArray FileAttachmentReferenceSchema None (Some maxFileAttachmentRefs) False)),
       (''planTarget'', TOptional PlanTargetSchema)]),
     (''context.pin'', ContextMutationPayloadSchema),
     (''context.unpin'', ContextMutationPayloadSchema),
     (''context.exclude'', ContextMutationPayloadSchema),
     (''context.refresh'', ContextMutationPayloadSchema),
     (''process.stop'', R5ProcessPayload),
     (''process.restart'', R5ProcessPayload),
     (''process.rerun'', R5ProcessPayload),
     (''git.commit.request'', GitCommandPayloadSchema),
     (''git.push.request'', GitCommandPayloadSchema),
     (''attention.resolve'', AttentionResolvePayloadSchema),
     (''catalogue.set_enabled'', CatalogueSetEnabledSchema),
     (''pi.rpc.request'', PiRpcRequestEnvelopeSchema),
     (''agent.merge'', AgentActionPayloadSchema),
     (''agent.adopt'', AgentActionPayloadSchema),
     (''agent.cancel'', AgentActionPayloadSchema),
     (''agent.steer'', AgentActionPayloadSchema),
     (''turn.abort'', open_object [(''sessionId'', SessionId)]),
     (''queue.remove'', open_object [(''sessionId'', SessionId), (''queueItemId'', Uuid)]),
     (''queue.clear'', open_object [(''sessionId'', SessionId)]),
     (''model.set'', open_object [
       (''sessionId'', SessionId), (''modelId'', TString None (Some 1) None),
       (''provider'', TOptional (TString None (Some 1) None))]),
     (''thinking.set'', open_object [(''sessionId'', SessionId), (''level'', TString None (Some 1) None)]),
     (''steering_mode.set'', open_object [(''sessionId'', SessionId), (''enabled'', TBoolean)]),
     (''follow_up_mode.set'', open_object [(''sessionId'', SessionId), (''enabled'', TBoolean)]),
     (''compaction.start'', open_object [(''sessionId'', SessionId)]),
     (''compaction.auto.set'', open_object [(''sessionId'', SessionId), (''enabled'', TBoolean)]),
     (''retry.auto.set'', open_object [(''sessionId'', SessionId), (''enabled'', TBoolean)]),
     (''retry.abort'', open_object [(''sessionId'', SessionId)]),
     (''extension.respond'', open_object [
       (''sessionId'', SessionId), (''dialogId'', Uuid), (''response'', Payload)])]"

section \<open>Events\<close>

definition LeaseStateFields :: "(string \<times> schema) list" where
  "LeaseStateFields = [
     (''mode'', TString None (Some 1) None), (''leaseId'', TOptional Uuid),
     (''installationId'', TOptional Uuid), (''expiresAt'', TOptional (matching ISO_UTC_PATTERN)),
     (''reclaimableUntil'', TOptional (matching ISO_UTC_PATTERN))]"

definition LeaseStateSchema :: schema where
  "LeaseStateSchema = TUnion [
     open_object (spread_fields LeaseStateFields [(''scope'', lit ''host'')]),
     open_object (spread_fields LeaseStateFields [(''scope'', lit ''session''), (''sessionId'', SessionId)])]"

definition EventPayloads :: "(string \<times> schema) list" where
  "EventPayloads = [
     (''session.summary'', open_object [
       (''sessionId'', SessionId), (''runtimeState'', TString None None None), (''queueCount'', natural),
       (''createdByCommandId'', TOptional Uuid)]),
     (''controller.state'', LeaseStateSchema),
     (''command.state'', open_object [
       (''commandId'', Uuid),
       (''commandType'', TUnion (map lit COMMAND_TYPES)),
       (''state'', TString None None None),
       (''errorCode'', TUnion [TUnion (map lit ERROR_CODES), TNull])]),
     (''tool.output'', open_object [
       (''toolCallId'', sized 1 512), (''retainedBytes'', natural), (''totalBytes'', natural),
       (''digest'', TOptional (TString None None None)), (''isTruncated'', TBoolean)]),
     (''extension.dialog'', open_object [
       (''dialogId'', Uuid),
       (''method'', TUnion [lit ''select'', lit ''confirm'', lit ''input'', lit ''editor'']),
       (''expiresAt'', matching ISO_UTC_PATTERN)]),
     (''queue.snapshot'', open_object [(''items'', TArray Payload None (Some maxQueuedFollowUps) False)]),
     (''recipe.activity'', RecipeActivitySchema),
     (''recipe.unavailable'', RecipeUnavailableSchema),
     (''plan.snapshot'', PlanSnapshotSchema),
     (''plan.unavailable'', PlanUnavailableSchema),
     (''workspace.tree.snapshot'', WorkspaceTreeSnapshotEventSchema),
     (''workspace.file.metadata'', WorkspaceFileMetadataEventSchema),
     (''workspace.file.stale'', WorkspaceFileStaleEventSchema),
     (''workspace.file.unavailable'', WorkspaceFileUnavailableEventSchema),
     (''context.snapshot'', ContextSnapshotSchema),
     (''context.unavailable'', ContextUnavailableEventSchema),
     (''process.snapshot'', ProcessSnapshotSchema),
     (''process.output'', ProcessOutputSchema),
     (''process.unavailable'', closed_object [
       (''sessionId'', SessionId), (''capability'', lit ''runtime.processes.v1''),
       (''status'', CapabilityStatusSchema)]),
     (''process.error'', closed_object [
       (''sessionId'', SessionId), (''processId'', R5ProcessId), (''revision'', RevisionTokenSchema),
       (''error'', ErrorInfoSchema)]),
     (''git.summary'', GitSummarySchema),
     (''git.unavailable'', GitUnavailableEventSchema),
     (''attention.item'', AttentionItemSchema),
     (''agent.snapshot'', AgentSnapshotSchema),
     (''agent.unavailable'', AgentUnavailableSchema),
     (''catalogue.snapshot'', CatalogueSnapshotSchema),
     (''catalogue.unavailable'', CatalogueUnavailableSchema),
     (''pi.rpc.response'', PiRpcResponseEnvelopeSchema),
     (''pi.rpc.event'', PiRpcEventEnvelopeSchema)]"

definition genericEventPayload :: schema where
  "genericEventPayload = open_object [(''sessionId'', TOptional SessionId)]"

section \<open>Controls\<close>

definition ControlPayloads :: "(string \<times> schema) list" where
  "ControlPayloads = [
     (''subscription.set'', open_object [
       (''streams'', TArray (open_object [
         (''streamId'', matching STREAM_ID_PATTERN),
         (''afterCursor'', TOptional (matching DECIMAL_CURSOR_PATTERN)),
         (''detail'', TUnion [lit ''full'', lit ''summary''])]) (Some 1) None False)]),
     (''cursor.ack'', open_object [(''cursors'', TRecord STREAM_ID_PATTERN (matching DECIMAL_CURSOR_PATTERN))]),
     (''controller.renew'', open_object [(''leaseId'', Uuid)]),
     (''host.snapshot.request'', open_object []),
     (''session.snapshot.request'', open_object [(''sessionId'', SessionId)]),
     (''session.list'', open_object [
       (''filter'', TOptional (TString None None None)),
       (''query'', TUnion [TString None None None, TNull]),
       (''sort'', TString None None None),
       (''pageSize'', TInteger (Some 1) (Some (int maxSessionPageSize))),
       (''pageToken'', TUnion [TString None None None, TNull])]),
     (''session.history.page'', open_object [
       (''sessionId'', SessionId),
       (''pageSize'', TInteger (Some 1) (Some (int maxSessionPageSize))),
       (''pageToken'', TUnion [TString None None None, TNull])]),
     (''workspace.list'', open_object []),
     (''workspace.search'', open_object [(''query'', TString None None None)]),
     (''model.list'', open_object [(''sessionId'', TOptional SessionId)]),
     (''command.current'', open_object [(''commandId'', Uuid)]),
     (''workspace.tree.page'', WorkspaceTreePagePayloadSchema),
     (''workspace.file.search'', WorkspaceFileSearchPayloadSchema),
     (''workspace.file.content.search'', WorkspaceContentSearchPayloadSchema),
     (''workspace.file.metadata'', WorkspaceFileMetadataPayloadSchema),
     (''workspace.file.read'', WorkspaceFileReadPayloadSchema),
     (''context.snapshot.request'', ContextSnapshotRequestPayloadSchema),
     (''agent.snapshot.request'', AgentSnapshotRequestSchema),
     (''agent.transcript.page'', AgentTranscriptPageSchema),
     (''catalogue.snapshot.request'', CatalogueSnapshotRequestSchema),
     (''process.snapshot.request'', closed_object [(''sessionId'', SessionId)]),
     (''process.output.page'', closed_object [
       (''sessionId'', SessionId),
       (''processId'', R5ProcessId),
       (''revision'', RevisionTokenSchema),
       (''stream'', TUnion [lit ''stdout'', lit ''stderr'']),
       (''cursor'', TOptional DecimalCursorSchema),
       (''pageToken'', TOptional (sized 1 128))]),
     (''git.summary.request'', closed_object [(''workspaceId'', Uuid)]),
     (''git.summary.cancel'', closed_object [(''targetRequestId'', Uuid)]),
     (''session.events.subscribe'', closed_object [(''sessionId'', SessionId), (''afterSequence'', natural)])]"

definition SubscriptionSchema :: schema where
  "SubscriptionSchema = payload_of ControlPayloads ''subscription.set''"

section \<open>Responses\<close>

definition ResponsePayloads :: "(string \<times> schema) list" where
  "ResponsePayloads = [
     (''hello.accepted'', open_object [
       (''connectionId'', Uuid),
       (''hostId'', Uuid),
       (''hostGeneration'', matching DECIMAL_CURSOR_PATTERN),
       (''hostDisplayName'', TString None None None),
       (''bridgeVersion'', TString None None None),
       (''piVersion'', TString None None None),
       (''serverTime'', matching ISO_UTC_PATTERN),
       (''sessionVisibilityCutoff'', TOptional (matching ISO_UTC_PATTERN)),
       (''capabilities'', TArray (TString None None None) None None False),
       (''limits'', open_object [
         (''maxJsonBytes'', natural), (''maxAttachmentBytes'', natural), (''maxAttachmentsPerPrompt'', natural),
         (''maxPromptAttachmentBytes'', natural), (''maxQueuedFollowUps'', natural),
         (''maxSessionPageSize'', natural), (''maxBackgroundSessionSubscriptions'', natural)])]),
     (''subscription.accepted'', open_object [
       (''streams'', TArray (open_object [
         (''streamId'', matching STREAM_ID_PATTERN),
         (''mode'', TUnion [lit ''replay'', lit ''current'', lit ''snapshot_required''])]) None None False)]),
     (''stream.sync.complete'', open_object [
       (''streamId'', matching STREAM_ID_PATTERN),
       (''currentCursor'', matching DECIMAL_CURSOR_PATTERN),
       (''mode'', TUnion [lit ''replay'', lit ''current'', lit ''snapshot_required''])]),
     (''stream.snapshot.begin'', open_object [
       (''snapshotId'', Uuid), (''streamId'', matching STREAM_ID_PATTERN),
       (''baselineCursor'', matching DECIMAL_CURSOR_PATTERN)]),
     (''stream.snapshot.part'', open_object [
       (''snapshotId'', Uuid), (''part'', natural), (''items'', TArray Payload None None False)]),
     (''stream.snapshot.end'', open_object [(''snapshotId'', Uuid), (''partCount'', TInteger (Some 1) None)]),
     (''command.receipt'', open_object [(''state'', TString None (Some 1) None), (''duplicate'', TBoolean)]),
     (''command.current.result'', open_object [(''commandId'', Uuid), (''state'', TString None None None)]),
     (''controller.renew.result'', open_object [(''leaseId'', Uuid), (''expiresAt'', natural)]),
     (''session.list.result'', open_object [
       (''items'', TArray Payload None None False), (''snapshotRevision'', TString None None None),
       (''nextPageToken'', TOptional (TString None None None))]),
     (''session.history.page.result'', open_object [
       (''items'', TArray Payload None None False), (''snapshotRevision'', TString None None None),
       (''nextPageToken'', TOptional (TString None None None))]),
     (''workspace.list.result'', open_object [(''items'', TArray Payload None None False)]),
     (''workspace.search.result'', open_object [(''items'', TArray Payload None None False)]),
     (''model.list.result'', open_object [(''items'', TArray Payload None None False)]),
     (''workspace.tree.page.result'', R3TreePageResponseSchema),
     (''workspace.file.search.result'', R3FileSearchResponseSchema),
     (''workspace.file.content.search.result'', R3ContentSearchResponseSchema),
     (''workspace.file.metadata.result'', R3MetadataResponseSchema),
     (''workspace.file.read.result'', R3ReadResponseSchema),
     (''catalogue.snapshot.result'', CatalogueSnapshotSchema),
     (''agent.snapshot.result'', AgentSnapshotSchema),
     (''agent.transcript.page.result'', closed_object [
       (''agentId'', sized 1 128), (''items'', TArray Payload None (Some 100) False),
       (''nextPageToken'', TOptional (sized 1 512)), (''isTruncated'', TBoolean)]),
     (''context.snapshot.result'', ContextSnapshotSchema),
     (''process.snapshot.result'', closed_object [
       (''items'', TArray ProcessSnapshotSchema None (Some maxProcessSnapshotItems) False)]),
     (''process.output.page.result'', ProcessOutputSchema),
     (''git.summary.result'', GitSummarySchema),
     (''pi.rpc.response'', PiRpcResponseEnvelopeSchema),
     (''session.events.replay.result'', closed_object [
       (''sessionId'', SessionId),
       (''events'', TArray (closed_object [
         (''eventId'', Uuid),
         (''sessionId'', SessionId),
         (''sequence'', TInteger (Some 1) None),
         (''eventType'', sized 1 128),
         (''occurredAt'', matching ISO_UTC_PATTERN),
         (''data'', open_object [])]) None (Some 1024) False),
       (''latestSequence'', natural),
       (''complete'', TBoolean)]),
     (''session.event'', closed_object [
       (''eventId'', Uuid),
       (''sessionId'', SessionId),
       (''sequence'', TInteger (Some 1) None),
       (''eventType'', sized 1 128),
       (''occurredAt'', matching ISO_UTC_PATTERN),
       (''data'', open_object [])])]"

definition SnapshotSchema :: schema where
  "SnapshotSchema = TUnion [
     payload_of ResponsePayloads ''stream.snapshot.begin'',
     payload_of ResponsePayloads ''stream.snapshot.part'', payload_of ResponsePayloads ''stream.snapshot.end'']"

section \<open>Messages\<close>

definition HelloSchema :: schema where
  "HelloSchema = open_object (spread_fields WithOptionalRequest [
     (''type'', lit ''hello''),
     (''requestId'', Uuid),
     (''payload'', open_object [
       (''expectedHostId'', TOptional Uuid), (''mobileVersion'', TString None (Some 1) None),
       (''platform'', TString None (Some 1) None), (''installationId'', Uuid),
       (''installationCredential'', TString None (Some 1) None),
       (''requiredCapabilities'', TArray CapabilitySchema None None False),
       (''optionalCapabilities'', TArray (TString None None None) None None False)])])"

text \<open>The message schema of one command type.\<close>

definition command_message :: "string \<Rightarrow> schema" where
  "command_message type =
     open_object
       (spread_fields ClientEnvelope
         ([(''commandId'', Uuid)]
          @ (if type \<in> set leaseFreeCommands then [] else [(''leaseId'', Uuid)])
          @ [(''type'', lit type), (''payload'', payload_of CommandPayloads type)]))"

definition CommandSchema :: schema where
  "CommandSchema = TUnion (map command_message COMMAND_TYPES)"

definition SupportedCapability :: schema where
  "SupportedCapability = CapabilitySchema"

definition KnownEventType :: schema where
  "KnownEventType = TUnion (map lit EVENT_TYPES)"

definition OptionalAdditiveEventSchema :: schema where
  "OptionalAdditiveEventSchema = open_object (spread_fields EnvelopeFields [
     (''eventId'', Uuid),
     (''streamId'', matching STREAM_ID_PATTERN),
     (''cursor'', matching DECIMAL_CURSOR_PATTERN),
     (''type'', TIntersect [
       matching (sequence [In ''az'', many (In ''az09__''), some_of (sequence [Lit ''.'', In ''az'', many (In ''az09__'')]), AtEnd]),
       TNot KnownEventType]),
     (''payload'', open_object [
       (''optional'', TLiteral (JBool True)),
       (''requiredCapabilities'', TOptional (TArray SupportedCapability None None False))])])"

definition event_stream_pattern :: "string \<Rightarrow> rx" where
  "event_stream_pattern type =
     (if EVENT_STREAM_OWNERSHIP type = Host_owned then Then (Lit ''host:'') UUID_PATTERN
      else if EVENT_STREAM_OWNERSHIP type = Session_owned then Then (Lit ''session:'') UUID_PATTERN
      else STREAM_ID_PATTERN)"

definition event_message :: "string \<Rightarrow> schema" where
  "event_message type =
     open_object
       (spread_fields EnvelopeFields
         [(''eventId'', Uuid),
          (''streamId'', matching (event_stream_pattern type)),
          (''cursor'', matching DECIMAL_CURSOR_PATTERN),
          (''type'', lit type),
          (''payload'', if type \<in> set (map fst EventPayloads) then payload_of EventPayloads type
                       else genericEventPayload)])"

definition EventSchema :: schema where
  "EventSchema = TUnion (map event_message EVENT_TYPES @ [OptionalAdditiveEventSchema])"

definition control_message :: "string \<Rightarrow> schema" where
  "control_message type =
     open_object (spread_fields ClientEnvelope [(''type'', lit type), (''payload'', payload_of ControlPayloads type)])"

definition ControlSchema :: schema where
  "ControlSchema = TUnion (map control_message CONTROL_TYPES)"

definition response_message :: "string \<Rightarrow> schema" where
  "response_message type =
     open_object
       (spread_fields WithOptionalRequest
         ([(''requestId'', Uuid)]
          @ (if type = ''command.receipt'' then [(''commandId'', Uuid)] else [])
          @ [(''type'', lit type), (''payload'', payload_of ResponsePayloads type)]))"

definition ResponseSchema :: schema where
  "ResponseSchema = TUnion (map response_message RESPONSE_TYPES)"

definition PairingSchema :: schema where
  "PairingSchema = open_object [
     (''kind'', lit ''pi-mob-host''), (''version'', TLiteral (JNum 1)), (''hostId'', Uuid),
     (''displayName'', TString None (Some 1) None), (''endpoint'', matching (Lit ''https://'')),
     (''protocolMajor'', TLiteral (JNum PROTOCOL_MAJOR))]"

definition AttachmentResponseSchema :: schema where
  "AttachmentResponseSchema = open_object [
     (''attachmentId'', Uuid),
     (''sha256'', matching (sequence [times 64 (In ''09af''), AtEnd])),
     (''mimeType'', TUnion [lit ''image/jpeg'', lit ''image/png'']),
     (''bytes'', TInteger (Some 0) (Some (int maxAttachmentBytes))),
     (''width'', TOptional (TInteger (Some 1) None)),
     (''height'', TOptional (TInteger (Some 1) None)),
     (''expiresAt'', matching ISO_UTC_PATTERN)]"

definition ExportMetadataSchema :: schema where
  "ExportMetadataSchema = open_object [
     (''exportId'', Uuid), (''format'', lit ''html''), (''bytes'', natural),
     (''sha256'', matching (sequence [times 64 (In ''09af''), AtEnd])),
     (''expiresAt'', matching ISO_UTC_PATTERN)]"

definition ErrorSchema :: schema where
  "ErrorSchema = open_object (spread_fields WithOptionalRequest [
     (''requestId'', Uuid),
     (''type'', lit ''error''),
     (''payload'', open_object [
       (''code'', TUnion (map lit ERROR_CODES)),
       (''message'', TString None (Some 1) None),
       (''retryable'', TBoolean),
       (''recommendedDelayMs'', TOptional (TUnion [natural, TNull])),
       (''details'', open_object [])])])"

definition FixtureSchema :: schema where
  "FixtureSchema = open_object [
     (''name'', TString None None None),
     (''kind'', TUnion [
       lit ''hello'', lit ''command'', lit ''control'', lit ''event'', lit ''response'', lit ''error'',
       lit ''pairing'', lit ''attachment'', lit ''export'']),
     (''valid'', TBoolean),
     (''message'', open_object [])]"

definition validators :: "(string \<times> schema) list" where
  "validators =
     [(''hello'', HelloSchema), (''command'', CommandSchema), (''event'', EventSchema),
      (''control'', ControlSchema), (''response'', ResponseSchema), (''error'', ErrorSchema),
      (''pairing'', PairingSchema), (''attachment'', AttachmentResponseSchema), (''export'', ExportMetadataSchema)]"

text \<open>\<open>fixture.kind\<close>, \<open>fixture.message\<close> and \<open>fixture.valid\<close> are read after the fixture itself has been checked.\<close>

definition validateFixture :: "(schema \<Rightarrow> json \<Rightarrow> bool) \<Rightarrow> json \<Rightarrow> bool" where
  "validateFixture check v =
     (check FixtureSchema v \<and>
      (case v of
         JObj fixture \<Rightarrow>
           (case (prop_get fixture ''kind'', prop_get fixture ''message'', prop_get fixture ''valid'') of
              (Some (JStr kind), Some message, Some valid) \<Rightarrow>
                JBool (check (payload_of validators kind) message) = valid
            | _ \<Rightarrow> False)
       | _ \<Rightarrow> False))"

end
