(* ===== verification/Protocol.thy ===== *)
theory Protocol
  imports Protocol_Messages Cursor
begin

text \<open>
  What the schemas of packages/protocol-schema/src/index.ts promise: the tables fit together, every
  accepted command, event and control carries the envelope its type requires, closed payloads are
  closed and bounded, and the cursor pattern is the one the store computes with.

  The validator of the TypeBox package is the parameter \<open>check\<close>, constrained by the laws of the locale
  \<open>typebox\<close> only; \<open>schema_check\<close> shows that they can hold.
\<close>

section \<open>Tables\<close>

lemmas command_sets = controllerCommands_def hostCommands_def leaseFreeCommands_def processCommands_def
  gitCommands_def attentionCommands_def agentCommands_def catalogueCommands_def

lemma type_lists_distinct:
  "distinct COMMAND_TYPES" "distinct EVENT_TYPES" "distinct CONTROL_TYPES" "distinct RESPONSE_TYPES"
  "distinct ERROR_CODES" "distinct SUPPORTED_CAPABILITIES"
  by (simp_all add: COMMAND_TYPES_def EVENT_TYPES_def CONTROL_TYPES_def RESPONSE_TYPES_def ERROR_CODES_def
    SUPPORTED_CAPABILITIES_def)

lemma command_payloads_total: "set (map fst CommandPayloads) = set COMMAND_TYPES"
  by (auto simp: CommandPayloads_def COMMAND_TYPES_def)

lemma control_payloads_total: "set (map fst ControlPayloads) = set CONTROL_TYPES"
  by (auto simp: ControlPayloads_def CONTROL_TYPES_def)

lemma response_payloads_total: "set (map fst ResponsePayloads) = set RESPONSE_TYPES"
  by (auto simp: ResponsePayloads_def RESPONSE_TYPES_def)

lemma event_payloads_known: "set (map fst EventPayloads) \<subseteq> set EVENT_TYPES"
  by (simp add: EventPayloads_def EVENT_TYPES_def)

lemma command_sets_known:
  "set leaseFreeCommands \<union> set hostCommands \<union> set processCommands \<union> set gitCommands \<union> set attentionCommands
     \<union> set agentCommands \<union> set catalogueCommands \<subseteq> set COMMAND_TYPES"
  by (simp add: command_sets COMMAND_TYPES_def)

section \<open>Envelopes\<close>

text \<open>The object has the property, and its value satisfies the schema.\<close>

definition carries :: "(schema \<Rightarrow> json \<Rightarrow> bool) \<Rightarrow> obj \<Rightarrow> string \<Rightarrow> schema \<Rightarrow> bool" where
  "carries check ob k s \<longleftrightarrow> (case prop_get ob k of None \<Rightarrow> False | Some x \<Rightarrow> check s x)"

lemmas envelope_fields = ClientEnvelope_def WithOptionalRequest_def EnvelopeFields_def

lemma requires_lease: "md_requiresLeaseId (metadata_of ty) \<longleftrightarrow> ty \<notin> set leaseFreeCommands"
  by (simp add: metadata_of_def)

lemma not_optional [simp]:
  "\<not> is_optional Uuid" "\<not> is_optional Protocol" "\<not> is_optional UuidSchema" "\<not> is_optional SessionId"
  by (simp_all add: Uuid_def UuidSchema_def Protocol_def ProtocolVersionSchema_def SessionId_def)

lemma command_payload_required: "\<not> is_optional (payload_of CommandPayloads ty)" if "ty \<in> set COMMAND_TYPES"
proof -
  have "list_all (\<lambda>s. \<not> is_optional (snd s)) CommandPayloads"
    by (simp add: CommandPayloads_def ControllerScope_def ContextMutationPayloadSchema_def R5ProcessPayload_def
      GitCommandPayloadSchema_def AttentionResolvePayloadSchema_def CatalogueSetEnabledSchema_def
      PiRpcRequestEnvelopeSchema_def AgentActionPayloadSchema_def)
  moreover have "(ty, payload_of CommandPayloads ty) \<in> set CommandPayloads"
    using that by (intro payload_of_entry) (simp only: command_payloads_total)
  ultimately show ?thesis by (fastforce simp only: list_all_iff snd_conv)
qed

context typebox begin

lemma check_carries:
  assumes "check (TObject fs a) (JObj ob)" and "map_of fs k = Some s" and "\<not> is_optional s"
  shows "carries check ob k s"
proof -
  obtain x where "prop_get ob k = Some x" "check s x" using check_field [OF assms] by blast
  then show ?thesis by (simp add: carries_def)
qed

lemma check_command_message:
  assumes "ty \<in> set COMMAND_TYPES"
  shows "check (command_message ty) (JObj ob) \<longleftrightarrow>
     prop_get ob ''type'' = Some (JStr ty)
     \<and> carries check ob ''protocol'' Protocol \<and> carries check ob ''messageId'' Uuid
     \<and> carries check ob ''sentAt'' (matching ISO_UTC_PATTERN)
     \<and> carries check ob ''requestId'' Uuid \<and> carries check ob ''connectionId'' Uuid
     \<and> carries check ob ''commandId'' Uuid
     \<and> (ty \<notin> set leaseFreeCommands \<longrightarrow> carries check ob ''leaseId'' Uuid)
     \<and> carries check ob ''payload'' (payload_of CommandPayloads ty)"
  using command_payload_required [OF assms]
  by (auto simp: command_message_def envelope_fields check_Object carries_def check_Literal split: option.splits)

end

text \<open>
  C18 (command_envelope). A command is accepted exactly when it is an object of one of the command types with the
  protocol header, message, request, connection and command identifiers, the payload of its type, and a lease
  identifier unless the metadata of its type says that it needs none.
\<close>

theorem command_envelope:
  assumes "typebox check"
  shows "check CommandSchema v \<longleftrightarrow>
    (\<exists>ob ty. v = JObj ob \<and> ty \<in> set COMMAND_TYPES \<and> prop_get ob ''type'' = Some (JStr ty)
       \<and> carries check ob ''protocol'' Protocol \<and> carries check ob ''messageId'' Uuid
       \<and> carries check ob ''sentAt'' (matching ISO_UTC_PATTERN)
       \<and> carries check ob ''requestId'' Uuid \<and> carries check ob ''connectionId'' Uuid
       \<and> carries check ob ''commandId'' Uuid
       \<and> (md_requiresLeaseId (metadata_of ty) \<longrightarrow> carries check ob ''leaseId'' Uuid)
       \<and> carries check ob ''payload'' (payload_of CommandPayloads ty))"
    (is "_ \<longleftrightarrow> (\<exists>ob ty. ?message ob ty)")
proof -
  have "check CommandSchema v \<longleftrightarrow> (\<exists>ty \<in> set COMMAND_TYPES. check (command_message ty) v)"
    by (simp add: CommandSchema_def typebox.check_Union [OF assms])
  also have "\<dots> \<longleftrightarrow> (\<exists>ob ty. v = JObj ob \<and> ty \<in> set COMMAND_TYPES \<and> check (command_message ty) (JObj ob))"
    using typebox.check_is_object [OF assms] by (fastforce simp: command_message_def)
  also have "\<dots> \<longleftrightarrow> (\<exists>ob ty. ?message ob ty)"
    by (simp only: typebox.check_command_message [OF assms] requires_lease cong: conj_cong)
  finally show ?thesis .
qed

text \<open>A prompt as a client sends it.\<close>

definition demo_uuid :: string where
  "demo_uuid = ''00000000-0000-4000-8000-000000000001''"

definition demo_prompt :: json where
  "demo_prompt = JObj
     [(''protocol'', JObj [(''major'', JNum 1), (''minor'', JNum 0)]), (''messageId'', JStr demo_uuid),
      (''sentAt'', JStr ''2026-01-02T03:04:05Z''), (''requestId'', JStr demo_uuid),
      (''connectionId'', JStr demo_uuid), (''commandId'', JStr demo_uuid), (''leaseId'', JStr demo_uuid),
      (''type'', JStr ''turn.abort''), (''payload'', JObj [(''sessionId'', JStr demo_uuid)])]"

lemma demo_uuid_ok: "rx_test UUID_PATTERN demo_uuid"
  by (simp add: rx_eval UUID_PATTERN_def demo_uuid_def)

lemma demo_time_ok: "rx_test ISO_UTC_PATTERN ''2026-01-02T03:04:05Z''"
  by (simp add: rx_eval ISO_UTC_PATTERN_def)

lemma check_uuid: "schema_check Uuid (JStr t) \<longleftrightarrow> rx_test UUID_PATTERN t"
  by (simp add: Uuid_def UuidSchema_def len_between_def)

theorem command_envelope_witness:
  "schema_check CommandSchema demo_prompt"
proof -
  have "''turn.abort'' \<in> set COMMAND_TYPES" by (simp add: COMMAND_TYPES_def)
  moreover have "payload_of CommandPayloads ''turn.abort'' = open_object [(''sessionId'', SessionId)]"
    by (simp add: payload_of_def CommandPayloads_def)
  moreover have "schema_check Protocol (JObj [(''major'', JNum 1), (''minor'', JNum 0)])"
    by (simp add: Protocol_def ProtocolVersionSchema_def PROTOCOL_MAJOR_def prop_get_def between_defs)
  ultimately show ?thesis
    unfolding command_envelope [OF reference.typebox_axioms] demo_prompt_def
    by (intro exI [of _ "''turn.abort''"] exI conjI refl)
      (auto simp: prop_get_def carries_def check_uuid demo_uuid_ok demo_time_ok len_between_def SessionId_def)
qed

section \<open>Stream ownership\<close>

context typebox begin

lemma check_event_message:
  "check (event_message ty) (JObj ob) \<Longrightarrow>
     prop_get ob ''type'' = Some (JStr ty) \<and> carries check ob ''streamId'' (matching (event_stream_pattern ty))
     \<and> carries check ob ''cursor'' (matching DECIMAL_CURSOR_PATTERN) \<and> carries check ob ''eventId'' Uuid"
  by (auto simp: event_message_def envelope_fields check_Object carries_def check_Literal split: option.splits)

lemma check_additive_event:
  "check OptionalAdditiveEventSchema (JObj ob) \<Longrightarrow>
     (\<exists>ty. prop_get ob ''type'' = Some (JStr ty) \<and> ty \<notin> set EVENT_TYPES)
     \<and> carries check ob ''streamId'' (matching STREAM_ID_PATTERN)
     \<and> carries check ob ''cursor'' (matching DECIMAL_CURSOR_PATTERN) \<and> carries check ob ''eventId'' Uuid
     \<and> (\<exists>p. prop_get ob ''payload'' = Some (JObj p) \<and> prop_get p ''optional'' = Some (JBool True))"
  by (auto simp: OptionalAdditiveEventSchema_def envelope_fields check_Object carries_def check_Literal
    check_Intersect check_Not check_Union KnownEventType_def check_String split: option.splits)

lemma event_message_object: "check (event_message ty) v \<Longrightarrow> \<exists>ob. v = JObj ob"
  unfolding event_message_def by (rule check_is_object)

lemma additive_event_object: "check OptionalAdditiveEventSchema v \<Longrightarrow> \<exists>ob. v = JObj ob"
  unfolding OptionalAdditiveEventSchema_def by (rule check_is_object)

lemma carries_text: "carries check ob k (matching r) \<Longrightarrow> \<exists>t. prop_get ob k = Some (JStr t) \<and> rx_test r t"
  by (auto simp: carries_def check_String split: option.splits)

end

lemma stream_patterns:
  "rx_test (Then (Lit ''host:'') UUID_PATTERN) t \<Longrightarrow> starts_with ''host:'' t"
  "rx_test (Then (Lit ''session:'') UUID_PATTERN) t \<Longrightarrow> starts_with ''session:'' t"
  by (auto dest: rx_test_literal)

lemma closed_width_uuid: "closed_width UUID_PATTERN = Some 36"
  by (simp add: UUID_PATTERN_def)

lemma event_stream_width: "\<exists>n \<le> 44. closed_width (event_stream_pattern ty) = Some n"
  by (simp add: event_stream_pattern_def STREAM_ID_PATTERN_def closed_width_uuid)

text \<open>
  C19 (event_owner). Every accepted event lies on a stream that owns its type: an event of a host type only on a host
  stream, an event of a session type only on a session stream. Its type is either one of the known ones, or its
  payload declares itself optional, so that a client may ignore it; no such event can pass for a known type. Stream
  identifiers have at most 44 characters.
\<close>

theorem event_owner:
  assumes "typebox check" and "check EventSchema v"
  shows "\<exists>ob ty st. v = JObj ob \<and> prop_get ob ''type'' = Some (JStr ty) \<and> prop_get ob ''streamId'' = Some (JStr st)
    \<and> length st \<le> 44
    \<and> (ty \<in> set EVENT_TYPES \<longrightarrow>
         (EVENT_STREAM_OWNERSHIP ty = Host_owned \<longrightarrow> starts_with ''host:'' st)
         \<and> (EVENT_STREAM_OWNERSHIP ty = Session_owned \<longrightarrow> starts_with ''session:'' st))
    \<and> (ty \<notin> set EVENT_TYPES \<longrightarrow>
         (\<exists>p. prop_get ob ''payload'' = Some (JObj p) \<and> prop_get p ''optional'' = Some (JBool True)))"
proof -
  have "(\<exists>ty \<in> set EVENT_TYPES. check (event_message ty) v) \<or> check OptionalAdditiveEventSchema v"
    using assms(2) by (auto simp: EventSchema_def typebox.check_Union [OF assms(1)])
  then show ?thesis
  proof
    assume "\<exists>ty \<in> set EVENT_TYPES. check (event_message ty) v"
    then obtain ty where ty: "ty \<in> set EVENT_TYPES" "check (event_message ty) v" by blast
    obtain ob where ob: "v = JObj ob"
      using typebox.event_message_object [OF assms(1) ty(2)] by blast
    note m = typebox.check_event_message [OF assms(1) ty(2) [unfolded ob]]
    obtain st where st: "prop_get ob ''streamId'' = Some (JStr st)" "rx_test (event_stream_pattern ty) st"
      using m typebox.carries_text [OF assms(1)] by blast
    have "length st \<le> 44"
      using event_stream_width [of ty] closed_width_test [OF st(2)] by fastforce
    moreover have "EVENT_STREAM_OWNERSHIP ty = Host_owned \<longrightarrow> starts_with ''host:'' st"
      and "EVENT_STREAM_OWNERSHIP ty = Session_owned \<longrightarrow> starts_with ''session:'' st"
      using st(2) stream_patterns by (auto simp: event_stream_pattern_def)
    ultimately show ?thesis using m ob st(1) ty(1) by blast
  next
    assume c: "check OptionalAdditiveEventSchema v"
    obtain ob where ob: "v = JObj ob"
      using typebox.additive_event_object [OF assms(1) c] by blast
    note m = typebox.check_additive_event [OF assms(1) c [unfolded ob]]
    obtain st where st: "prop_get ob ''streamId'' = Some (JStr st)" "rx_test STREAM_ID_PATTERN st"
      using m typebox.carries_text [OF assms(1)] by blast
    have "length st \<le> 44"
      by (rule closed_width_test [OF st(2)]) (simp add: STREAM_ID_PATTERN_def closed_width_uuid)
    with m ob st show ?thesis by blast
  qed
qed

section \<open>Closed payloads\<close>

lemma capability_alternatives:
  "\<forall>s \<in> set (alternatives CapabilityStatusSchema). \<exists>fs st.
     s = closed_object fs \<and> map_of fs ''state'' = Some (lit st) \<and> st \<in> set CAPABILITY_STATES
     \<and> (st = ''available'' \<or>
          map_of fs ''reason'' = Some (sized 1 512) \<and> map_of fs ''remediation'' = Some (sized 1 512))
     \<and> fst ` set fs = {''state'', ''reason'', ''remediation'', ''source'', ''revision'', ''lastRefreshedAt''}"
  by (simp add: CapabilityStatusSchema_def CAPABILITY_STATES_def limit_defs)

context typebox begin

lemma check_sized: "check (sized lo hi) v \<longleftrightarrow> (\<exists>t. v = JStr t \<and> lo \<le> length t \<and> length t \<le> hi)"
  by (simp add: check_String len_between_def)

lemma capability_fields:
  assumes "check CapabilityStatusSchema (JObj ob)"
  shows "\<exists>st. prop_get ob ''state'' = Some (JStr st) \<and> st \<in> set CAPABILITY_STATES
    \<and> (st \<noteq> ''available'' \<longrightarrow>
         carries check ob ''reason'' (sized 1 512) \<and> carries check ob ''remediation'' (sized 1 512))"
    and "fst ` set ob \<subseteq> {''state'', ''reason'', ''remediation'', ''source'', ''revision'', ''lastRefreshedAt''}"
proof -
  obtain s where s: "s \<in> set (alternatives CapabilityStatusSchema)" "check s (JObj ob)"
    using assms unfolding CapabilityStatusSchema_def check_Union by (auto simp only: alternatives.simps)
  obtain fs st where fs: "s = closed_object fs" and st: "map_of fs ''state'' = Some (lit st)" "st \<in> set CAPABILITY_STATES"
    and inc: "st = ''available'' \<or> map_of fs ''reason'' = Some (sized 1 512) \<and> map_of fs ''remediation'' = Some (sized 1 512)"
    and keys: "fst ` set fs = {''state'', ''reason'', ''remediation'', ''source'', ''revision'', ''lastRefreshedAt''}"
    using bspec [OF capability_alternatives s(1)] by (elim exE conjE) (rule that)
  note f = check_field [OF s(2) [unfolded fs]]
  have "prop_get ob ''state'' = Some (JStr st)" using f [OF st(1)] by (simp add: check_Literal)
  moreover have "carries check ob ''reason'' (sized 1 512) \<and> carries check ob ''remediation'' (sized 1 512)"
    if "st \<noteq> ''available''"
  proof -
    have m: "map_of fs ''reason'' = Some (sized 1 512)" "map_of fs ''remediation'' = Some (sized 1 512)"
      using inc that by (simp_all only: simp_thms)
    show ?thesis by (intro conjI check_carries [OF s(2) [unfolded fs]] m) simp_all
  qed
  ultimately show "\<exists>st. prop_get ob ''state'' = Some (JStr st) \<and> st \<in> set CAPABILITY_STATES
    \<and> (st \<noteq> ''available'' \<longrightarrow>
         carries check ob ''reason'' (sized 1 512) \<and> carries check ob ''remediation'' (sized 1 512))"
    using st(2) by blast
  show "fst ` set ob \<subseteq> {''state'', ''reason'', ''remediation'', ''source'', ''revision'', ''lastRefreshedAt''}"
    using s(2) unfolding fs check_Object keys by auto
qed

lemma capability_object: "check CapabilityStatusSchema v \<Longrightarrow> \<exists>ob. v = JObj ob"
  unfolding CapabilityStatusSchema_def check_Union by (auto dest: check_is_object)

lemma carries_sized:
  "carries check ob k (sized 1 n) \<Longrightarrow> \<exists>t. prop_get ob k = Some (JStr t) \<and> t \<noteq> [] \<and> length t \<le> n"
  by (cases "prop_get ob k") (auto simp: carries_def check_sized Suc_le_eq)

end

text \<open>
  A capability status names one of the four states. Whenever it is not available it says why
  and how to repair it, in texts that are not empty, and no status carries any other property.
\<close>

theorem capability_status:
  assumes "typebox check" and "check CapabilityStatusSchema v"
  shows "\<exists>ob st. v = JObj ob \<and> prop_get ob ''state'' = Some (JStr st) \<and> st \<in> set CAPABILITY_STATES
    \<and> (st \<noteq> ''available'' \<longrightarrow>
         (\<exists>why how. prop_get ob ''reason'' = Some (JStr why) \<and> why \<noteq> [] \<and> length why \<le> 512
            \<and> prop_get ob ''remediation'' = Some (JStr how) \<and> how \<noteq> [] \<and> length how \<le> 512))
    \<and> fst ` set ob \<subseteq> {''state'', ''reason'', ''remediation'', ''source'', ''revision'', ''lastRefreshedAt''}"
proof -
  obtain ob where ob: "v = JObj ob" using typebox.capability_object [OF assms] by blast
  note f = typebox.capability_fields [OF assms(1) assms(2) [unfolded ob]]
  from f(1) obtain st where st: "prop_get ob ''state'' = Some (JStr st)" "st \<in> set CAPABILITY_STATES"
    and c: "st \<noteq> ''available'' \<Longrightarrow> carries check ob ''reason'' (sized 1 512)"
      "st \<noteq> ''available'' \<Longrightarrow> carries check ob ''remediation'' (sized 1 512)" by blast
  note t = typebox.carries_sized [OF assms(1)]
  show ?thesis
    by (rule exI [of _ ob], rule exI [of _ st], intro conjI ob st f(2) impI)
      (use t [OF c(1)] t [OF c(2)] in blast)
qed

text \<open>A degraded surface, reported as the bridge reports it.\<close>

definition demo_status :: json where
  "demo_status = JObj
     [(''state'', JStr ''degraded''), (''reason'', JStr ''pi is restarting''), (''remediation'', JStr ''wait'')]"

text \<open>An assistant event on a session stream.\<close>

definition demo_event :: json where
  "demo_event = JObj
     [(''protocol'', JObj [(''major'', JNum 1), (''minor'', JNum 0)]), (''messageId'', JStr demo_uuid),
      (''sentAt'', JStr ''2026-01-02T03:04:05Z''), (''eventId'', JStr demo_uuid),
      (''streamId'', JStr (''session:'' @ demo_uuid)), (''cursor'', JStr ''0''),
      (''type'', JStr ''assistant.delta''), (''payload'', JObj [])]"

lemma demo_event_ok: "schema_check EventSchema demo_event"
proof -
  have ty: "''assistant.delta'' \<in> set EVENT_TYPES" by (simp add: EVENT_TYPES_def)
  have own: "event_stream_pattern ''assistant.delta'' = Then (Lit ''session:'') UUID_PATTERN"
    by (simp add: event_stream_pattern_def EVENT_STREAM_OWNERSHIP_def hostEventTypes_def)
  have pay: "\<not> (''assistant.delta'' \<in> fst ` set EventPayloads)" by (simp add: EventPayloads_def)
  have st: "rx_test (Then (Lit ''session:'') UUID_PATTERN) (''session:'' @ demo_uuid)"
    by (simp add: rx_eval UUID_PATTERN_def demo_uuid_def)
  have cur: "rx_test DECIMAL_CURSOR_PATTERN ''0''"
    by (simp add: rx_eval DECIMAL_CURSOR_PATTERN_def)
  have proto: "schema_check Protocol (JObj [(''major'', JNum 1), (''minor'', JNum 0)])"
    by (simp add: Protocol_def ProtocolVersionSchema_def PROTOCOL_MAJOR_def prop_get_def between_defs)
  have "schema_check (event_message ''assistant.delta'') demo_event"
    unfolding demo_event_def using st
    by (simp add: event_message_def own pay envelope_fields genericEventPayload_def Payload_def proto check_uuid
        demo_uuid_ok demo_time_ok cur len_between_def prop_get_def del: One_nat_def)
  with ty show ?thesis by (auto simp: EventSchema_def list_ex_iff)
qed

theorem event_owner_witness:
  "\<exists>ob st. demo_event = JObj ob \<and> prop_get ob ''streamId'' = Some (JStr st) \<and> length st \<le> 44"
  using event_owner [OF reference.typebox_axioms demo_event_ok] by blast

section \<open>Bounded payloads\<close>

lemmas shared_schemas = Uuid_def UuidSchema_def SessionId_def RevisionTokenSchema_def UUID_PATTERN_def
  ISO_UTC_PATTERN_def DecimalCursorSchema_def CapabilityStatusSchema_def TruncationSchema_def TimingSchema_def
  WorkspacePathSchema_def limit_defs

lemma weight_file: "weight_bound FileReadResultSchema = Some 525678"
  by (simp add: FileReadResultSchema_def shared_schemas)

lemma weight_search: "weight_bound R3ContentSearchResponseSchema = Some 1034478"
  by (simp add: R3ContentSearchResponseSchema_def PageResponseFields_def ContentSearchMatchSchema_def
    PageTokenSchema_def shared_schemas)

lemma weight_context: "weight_bound ContextSnapshotSchema = Some 302638"
  by (simp add: ContextSnapshotSchema_def ContextSourceSchema_def PinnedFileSchema_def LineRangeSchema_def
    TokenUsageSchema_def TOKEN_USAGE_DIGITS_PATTERN_def shared_schemas)

lemma weight_git: "weight_bound GitSummarySchema = Some 120621"
  by (simp add: GitSummarySchema_def GitSummaryFields_def GitLatestCommitSchema_def GitPullRequestSchema_def
    GitCiStatusSchema_def GitFailedChecksSchema_def GitCheckRunSchema_def ExternalUrlSchema_def
    GitRepositoryLabelSchema_def GitWorkingTreeStateSchema_def GIT_CI_CAPABILITY_def GIT_ACTIONS_def GIT_CI_STATES_def
    GitBranchSchema_def GIT_WORKING_TREE_STATES_def shared_schemas)

lemma weight_agents: "weight_bound AgentSnapshotSchema = Some 242064"
  by (simp add: AgentSnapshotSchema_def AgentRecordSchema_def AgentActionSchema_def shared_schemas)

lemma weight_plan: "weight_bound PlanSnapshotSchema = Some 43904"
  by (simp add: PlanSnapshotSchema_def PlanStepSchema_def shared_schemas)

definition bounded_payloads :: "schema list" where
  "bounded_payloads =
     [FileReadResultSchema, R3ContentSearchResponseSchema, ContextSnapshotSchema, GitSummarySchema,
      AgentSnapshotSchema, PlanSnapshotSchema]"

lemma bounded_payloads_fit: "s \<in> set bounded_payloads \<Longrightarrow> \<exists>w \<le> maxJsonBytes. weight_bound s = Some w"
  unfolding bounded_payloads_def
  by (auto simp: weight_file weight_search weight_context weight_git weight_agents weight_plan maxJsonBytes_def)

text \<open>
  The large payloads are bounded by their schemas: every file page, search result, context snapshot,
  Git summary, agent snapshot or plan that is accepted has, with its property names, no more characters than the size
  limit of a message.
\<close>

theorem payload_fits:
  assumes "typebox check" and "s \<in> set bounded_payloads" and "check s v" and "js_value v"
  shows "json_weight v \<le> maxJsonBytes"
proof -
  obtain w where "w \<le> maxJsonBytes" "weight_bound s = Some w" using bounded_payloads_fit [OF assms(2)] by blast
  with typebox.weight_bounded [OF assms(1,3,4)] show ?thesis by fastforce
qed

definition demo_agents :: json where
  "demo_agents = JObj [(''revision'', JStr ''r1''), (''items'', JArr [])]"

section \<open>Cursors\<close>

lemma rx_iter_class_end:
  "(\<exists>p \<in> set (rx_iter (rx_run (In cl)) 0 m (b, s)). snd p = []) \<longleftrightarrow> length s \<le> m \<and> list_all (in_class cl) s"
proof (induction m arbitrary: b s)
  case (Suc m)
  then show ?case by (cases s) auto
qed auto

lemma rx_many_end: "(\<exists>p \<in> set (rx_run (many (In cl)) (b, s)). snd p = []) \<longleftrightarrow> list_all (in_class cl) s"
  using rx_iter_class_end [of cl "length s" b s] by (simp add: rx_run.simps(7))

lemma in_class_digits: "in_class ''09'' c \<longleftrightarrow> is_digit c" "in_class ''19'' c \<longleftrightarrow> is_digit c \<and> c \<noteq> CHR ''0''"
proof -
  have "c \<noteq> CHR ''0'' \<longleftrightarrow> of_char c \<noteq> (48 :: nat)"
    using of_char_eq_iff [of c "CHR ''0''", where 'a = nat] by simp
  then show "in_class ''09'' c \<longleftrightarrow> is_digit c" "in_class ''19'' c \<longleftrightarrow> is_digit c \<and> c \<noteq> CHR ''0''"
    by (auto simp: is_digit_def)
qed

lemma rx_test_end: "rx_test (Then r AtEnd) s \<longleftrightarrow> (\<exists>p \<in> set (rx_run r ([], s)). snd p = [])"
  by (auto simp: rx_test_def)

lemma decimal_pattern_agrees: "rx_test DECIMAL_CURSOR_PATTERN s \<longleftrightarrow> decimal_cursor_pattern s"
proof (cases s)
  case Nil
  then show ?thesis by (simp add: DECIMAL_CURSOR_PATTERN_def rx_test_end starts_with_def decimal_cursor_pattern_def)
next
  case (Cons c cs)
  have "rx_test DECIMAL_CURSOR_PATTERN s \<longleftrightarrow>
      (c = CHR ''0'' \<and> cs = []) \<or>
      (in_class ''19'' c \<and> (\<exists>p \<in> set (rx_run (many (In ''09'')) ([c], cs)). snd p = []))"
    unfolding DECIMAL_CURSOR_PATTERN_def sequence.simps rx_test_end Cons
    by (auto simp: starts_with_def)
  also have "\<dots> \<longleftrightarrow> decimal_cursor_pattern s"
    unfolding rx_many_end in_class_digits list_all_iff decimal_cursor_pattern_def Cons
    by (auto simp del: in_class.simps simp: in_class_digits list_all_iff)
  finally show ?thesis .
qed

text \<open>
  C21 (cursor_order). The cursors the protocol accepts are exactly the canonical decimals, the ones the store accepts;
  on these \<open>compareDecimalCursors\<close> is the order of the numbers, and it refuses every other text.
\<close>

theorem cursor_order:
  assumes "typebox check"
  shows "(check DecimalCursorSchema v \<longleftrightarrow> (\<exists>n. v = JStr (dec n)))
    \<and> (check DecimalCursorSchema (JStr a) \<longleftrightarrow> (\<exists>n. canonicalCursor a = Inr n))
    \<and> compareDecimalCursors (dec m) (dec n) = Inr (sgn (int m - int n))
    \<and> ((\<exists>e. compareDecimalCursors a b = Inl e) \<longleftrightarrow>
          \<not> (check DecimalCursorSchema (JStr a) \<and> check DecimalCursorSchema (JStr b)))"
proof -
  have c: "check DecimalCursorSchema x \<longleftrightarrow> (\<exists>t. x = JStr t \<and> decimal_cursor_pattern t)" for x
    by (simp add: DecimalCursorSchema_def typebox.check_String [OF assms] decimal_pattern_agrees len_between_def)
  have "compareDecimalCursors (dec m) (dec n) = Inr (sgn (int m - int n))"
    using sql_cursor_gt_dec [of n m] sql_cursor_gt_dec [of m n]
    by (auto simp: compareDecimalCursors_def sql_cursor_gt_def sgn_if)
  moreover have "canonicalCursor a = (if decimal_cursor_pattern a then Inr (big_int a)
      else Inl (Store_error Conflict ''cursor is not canonical''))"
    by (simp add: canonicalCursor_def)
  ultimately show ?thesis
    by (auto simp: c decimal_cursor_pattern_iff compareDecimalCursors_def)
qed

theorem cursor_order_witness:
  "schema_check DecimalCursorSchema (JStr (dec 12)) \<and> compareDecimalCursors (dec 9) (dec 12) = Inr (- 1)"
  using cursor_order [OF reference.typebox_axioms, of "JStr (dec 12)" _ 9 12] by auto

end
