(* ===== verification/Canonical.thy ===== *)
theory Canonical
  imports Schema Cursor "HOL-Library.Multiset"
begin

text \<open>
  The canonical text of a command and its hash, \<open>canonicalize\<close>, \<open>canonicalSemanticCommand\<close> and
  \<open>semanticCommandSha256\<close> of packages/protocol-schema/src/index.ts. The hash decides whether a repeated
  command identifier is a retry or a conflict, so two spellings of one command must give one text.

  Unicode normalization (\<open>String.prototype.normalize("NFC")\<close>) and SHA-256 are parameters; of the first
  only that it is idempotent is used.
\<close>

section \<open>Definitions\<close>

definition key_less :: "string \<times> json \<Rightarrow> string \<times> json \<Rightarrow> bool" where
  "key_less a b \<longleftrightarrow> str_less (fst a) (fst b)"

text \<open>Array index keys come first in the property order of a JavaScript object, in numeric order.\<close>

definition array_index_key :: "string \<Rightarrow> bool" where
  "array_index_key k \<longleftrightarrow> decimal_cursor_pattern k \<and> big_int k < 4294967295"

definition index_less :: "string \<times> json \<Rightarrow> string \<times> json \<Rightarrow> bool" where
  "index_less a b \<longleftrightarrow> big_int (fst a) < big_int (fst b)"

text \<open>\<open>Object.fromEntries\<close> of entries with distinct keys.\<close>

definition from_entries :: "obj \<Rightarrow> obj" where
  "from_entries es =
     order_by index_less (filter (\<lambda>e. array_index_key (fst e)) es) @ filter (\<lambda>e. \<not> array_index_key (fst e)) es"

fun adjacent_equal :: "string list \<Rightarrow> bool" where
  "adjacent_equal (a # b # ks) = (a = b \<or> adjacent_equal (b # ks))"
| "adjacent_equal _ = False"

definition duplicate_keys :: exn where
  "duplicate_keys = Type_error ''canonical object contains duplicate NFC-normalized keys''"

fun canonicalize :: "(string \<Rightarrow> string) \<Rightarrow> json \<Rightarrow> exn + json"
and canonicalize_list :: "(string \<Rightarrow> string) \<Rightarrow> json list \<Rightarrow> exn + json list"
and canonicalize_entries :: "(string \<Rightarrow> string) \<Rightarrow> obj \<Rightarrow> exn + obj" where
  "canonicalize nfc (JStr s) = Inr (JStr (nfc s))"
| "canonicalize nfc (JArr xs) = (case canonicalize_list nfc xs of Inl e \<Rightarrow> Inl e | Inr ys \<Rightarrow> Inr (JArr ys))"
| "canonicalize nfc (JObj ob) =
     (case canonicalize_entries nfc ob of
        Inl e \<Rightarrow> Inl e
      | Inr es \<Rightarrow>
          (let entries = order_by key_less es in
           if adjacent_equal (map fst entries) then Inl duplicate_keys
           else Inr (JObj (from_entries entries))))"
| "canonicalize nfc v = Inr v"
| "canonicalize_list nfc [] = Inr []"
| "canonicalize_list nfc (x # xs) =
     (case canonicalize nfc x of
        Inl e \<Rightarrow> Inl e
      | Inr y \<Rightarrow> (case canonicalize_list nfc xs of Inl e \<Rightarrow> Inl e | Inr ys \<Rightarrow> Inr (y # ys)))"
| "canonicalize_entries nfc [] = Inr []"
| "canonicalize_entries nfc (e # es) =
     (case canonicalize nfc (snd e) of
        Inl er \<Rightarrow> Inl er
      | Inr y \<Rightarrow> (case canonicalize_entries nfc es of Inl er \<Rightarrow> Inl er | Inr ys \<Rightarrow> Inr ((nfc (fst e), y) # ys)))"

definition canonicalSemanticCommand :: "(string \<Rightarrow> string) \<Rightarrow> string \<Rightarrow> obj \<Rightarrow> exn + string" where
  "canonicalSemanticCommand nfc type payload =
     map_sum id json_text (canonicalize nfc (JObj [(''payload'', JObj payload), (''type'', JStr type)]))"

definition semanticCommandSha256 :: "(string \<Rightarrow> string) \<Rightarrow> (string \<Rightarrow> string) \<Rightarrow> string \<Rightarrow> obj \<Rightarrow> exn + string" where
  "semanticCommandSha256 nfc sha256 type payload = map_sum id sha256 (canonicalSemanticCommand nfc type payload)"

text \<open>Equal values up to the order of object properties.\<close>

inductive same_json :: "json \<Rightarrow> json \<Rightarrow> bool" where
  same_refl: "same_json v v"
| same_array: "list_all2 same_json xs ys \<Longrightarrow> same_json (JArr xs) (JArr ys)"
| same_object: "length a = length b \<Longrightarrow>
     (\<forall>e \<in> set a. \<exists>y. prop_get b (fst e) = Some y \<and> same_json (snd e) y) \<Longrightarrow> same_json (JObj a) (JObj b)"

section \<open>Sorting by key\<close>

lemma mset_ins_by: "mset (ins_by lt x xs) = add_mset x (mset xs)"
  by (induction xs) auto

lemma mset_order_by [simp]: "mset (order_by lt xs) = mset xs"
  by (induction xs) (simp_all add: mset_ins_by)

lemma mset_from_entries [simp]: "mset (from_entries es) = mset es"
  by (simp add: from_entries_def)

lemma str_less_trans_not: "\<not> str_less x y \<Longrightarrow> \<not> str_less y z \<Longrightarrow> \<not> str_less x z"
proof (induction x z arbitrary: y rule: str_less.induct)
  case (1 ys)
  then show ?case by (cases y; cases ys) auto
next
  case (3 a as c cs)
  then show ?case by (cases y) (auto split: if_splits)
qed simp

lemma sorted_keys: "sorted_wrt (\<lambda>a b. \<not> str_less b a) (map fst (order_by key_less es))"
proof -
  have "sorted_wrt (\<lambda>a b. \<not> key_less b a) (order_by key_less es)"
    by (rule sorted_order_by) (use str_less_trans_not str_less_asym in \<open>unfold key_less_def, blast+\<close>)
  then show ?thesis by (simp add: sorted_wrt_map key_less_def)
qed

lemma adjacent_equal_sorted:
  "sorted_wrt (\<lambda>a b. \<not> str_less b a) ks \<Longrightarrow> adjacent_equal ks \<longleftrightarrow> \<not> distinct ks"
proof (induction ks rule: adjacent_equal.induct)
  case (1 a b ks)
  have "a \<in> set (b # ks) \<Longrightarrow> a = b"
    using "1.prems" str_less_total by fastforce
  with 1 show ?case by auto
qed auto

lemma adjacent_equal_order_by: "adjacent_equal (map fst (order_by key_less es)) \<longleftrightarrow> \<not> distinct (map fst es)"
proof -
  have "mset (map fst (order_by key_less es)) = mset (map fst es)" by (simp only: mset_map mset_order_by)
  then have "distinct (map fst (order_by key_less es)) \<longleftrightarrow> distinct (map fst es)"
    by (metis distinct_count_atmost_1 mset_eq_setD)
  then show ?thesis by (simp add: adjacent_equal_sorted [OF sorted_keys])
qed

text \<open>Entries with distinct keys have one sorted order.\<close>

lemma sorted_unique:
  assumes "distinct (map fst xs)" and "mset xs = mset ys"
  shows "order_by key_less xs = order_by key_less ys"
proof -
  have "sorted_wrt (\<lambda>a b. \<not> key_less b a) xs' \<Longrightarrow> sorted_wrt (\<lambda>a b. \<not> key_less b a) ys' \<Longrightarrow> mset xs' = mset ys'
      \<Longrightarrow> distinct (map fst xs') \<Longrightarrow> xs' = ys'" for xs' ys'
  proof (induction xs' arbitrary: ys')
    case (Cons x xs')
    from Cons.prems(3) obtain y ys2 where ys: "ys' = y # ys2" by (cases ys') auto
    have "y \<in> set (x # xs')" "x \<in> set ys'" using Cons.prems(3) ys by (metis list.set_intros(1) mset_eq_setD)+
    then have "y = x \<or> \<not> key_less y x" "x = y \<or> \<not> key_less x y"
      using Cons.prems(1,2) ys by fastforce+
    then have "fst x = fst y" using str_less_total [of "fst x" "fst y"] by (auto simp: key_less_def)
    moreover have "y \<in> set (x # xs')" by fact
    ultimately have "x = y" using Cons.prems(4) by (auto simp: image_iff)
    moreover have "xs' = ys2"
      by (rule Cons.IH) (use Cons.prems ys \<open>x = y\<close> in simp_all)
    ultimately show ?case using ys by simp
  qed simp
  note u = this
  have s: "sorted_wrt (\<lambda>a b. \<not> key_less b a) (order_by key_less zs)" for zs
    using sorted_keys [of zs] by (simp add: sorted_wrt_map key_less_def)
  have "mset (map fst (order_by key_less xs)) = mset (map fst xs)" by (simp only: mset_map mset_order_by)
  then have "distinct (map fst (order_by key_less xs))"
    using assms(1) by (metis distinct_count_atmost_1 mset_eq_setD)
  with u [OF s s, of xs ys] assms(2) show ?thesis by simp
qed

section \<open>Canonical form\<close>

lemma canonicalize_error: "canonicalize nfc v = Inl e \<Longrightarrow> e = duplicate_keys"
  and "canonicalize_list nfc xs = Inl e \<Longrightarrow> e = duplicate_keys"
  and "canonicalize_entries nfc es = Inl e \<Longrightarrow> e = duplicate_keys"
  by (induction nfc v and nfc xs and nfc es rule: canonicalize_canonicalize_list_canonicalize_entries.induct)
    (auto simp: Let_def split: sum.splits if_splits)

lemma canonicalize_entries_eq:
  "canonicalize_entries nfc es =
     (if \<exists>e \<in> set es. isl (canonicalize nfc (snd e)) then Inl duplicate_keys
      else Inr (map (\<lambda>e. (nfc (fst e), projr (canonicalize nfc (snd e)))) es))"
  by (induction es) (auto split: sum.splits dest: canonicalize_error)

lemma canonicalize_object:
  "canonicalize nfc (JObj ob) =
     (if (\<exists>e \<in> set ob. isl (canonicalize nfc (snd e))) \<or> \<not> distinct (map (\<lambda>e. nfc (fst e)) ob)
      then Inl duplicate_keys
      else Inr (JObj (from_entries
                 (order_by key_less (map (\<lambda>e. (nfc (fst e), projr (canonicalize nfc (snd e)))) ob)))))"
  by (simp add: canonicalize_entries_eq adjacent_equal_order_by comp_def Let_def)

text \<open>Two objects with the same keys and values of one canonical form have one canonical form.\<close>

lemma canonicalize_permuted:
  assumes "distinct (map fst a)" and "distinct (map fst b)" and "length a = length b"
    and "\<forall>e \<in> set a. \<exists>y. prop_get b (fst e) = Some y \<and> canonicalize nfc (snd e) = canonicalize nfc y"
  shows "canonicalize nfc (JObj a) = canonicalize nfc (JObj b)"
proof -
  let ?c = "\<lambda>e. (fst e, canonicalize nfc (snd e))"
  have sub: "?c ` set a \<subseteq> ?c ` set b"
  proof
    fix p assume "p \<in> ?c ` set a"
    then obtain e y where e: "e \<in> set a" "p = ?c e" "prop_get b (fst e) = Some y"
        "canonicalize nfc (snd e) = canonicalize nfc y" using assms(4) by blast
    then have "(fst e, y) \<in> set b" by (simp add: prop_get_def map_of_SomeD)
    then show "p \<in> ?c ` set b" using e by (intro image_eqI [of _ _ "(fst e, y)"]) simp_all
  qed
  have "distinct (map ?c a)" "distinct (map ?c b)"
    using assms(1,2) by (auto simp: distinct_map inj_on_def)
  then have "card (?c ` set a) = length a" "card (?c ` set b) = length b"
    using distinct_card [of "map ?c a"] distinct_card [of "map ?c b"] by simp_all
  then have "?c ` set a = ?c ` set b"
    using assms(3) by (intro card_subset_eq [OF _ sub]) simp_all
  with \<open>distinct (map ?c a)\<close> \<open>distinct (map ?c b)\<close> have m: "mset (map ?c a) = mset (map ?c b)"
    by (intro iffD1 [OF set_eq_iff_mset_eq_distinct]) simp_all
  have "(\<exists>e \<in> set a. isl (canonicalize nfc (snd e))) \<longleftrightarrow> (\<exists>p \<in> ?c ` set a. isl (snd p))" by simp
  also have "\<dots> \<longleftrightarrow> (\<exists>e \<in> set b. isl (canonicalize nfc (snd e)))"
    unfolding \<open>?c ` set a = ?c ` set b\<close> by simp
  finally have isl: "(\<exists>e \<in> set a. isl (canonicalize nfc (snd e))) \<longleftrightarrow> (\<exists>e \<in> set b. isl (canonicalize nfc (snd e)))" .
  have "mset (map (\<lambda>p. (nfc (fst p), projr (snd p))) (map ?c a)) = mset (map (\<lambda>p. (nfc (fst p), projr (snd p))) (map ?c b))"
    using m by (simp only: mset_map)
  then have n: "mset (map (\<lambda>e. (nfc (fst e), projr (canonicalize nfc (snd e)))) a)
      = mset (map (\<lambda>e. (nfc (fst e), projr (canonicalize nfc (snd e)))) b)" by (simp add: comp_def)
  have "mset (map nfc (map fst (map ?c a))) = mset (map nfc (map fst (map ?c b)))"
    using m by (simp only: mset_map)
  then have "mset (map (\<lambda>e. nfc (fst e)) a) = mset (map (\<lambda>e. nfc (fst e)) b)" by (simp add: comp_def)
  then have d: "distinct (map (\<lambda>e. nfc (fst e)) a) \<longleftrightarrow> distinct (map (\<lambda>e. nfc (fst e)) b)"
    by (metis distinct_count_atmost_1 mset_eq_setD)
  have "order_by key_less (map (\<lambda>e. (nfc (fst e), projr (canonicalize nfc (snd e)))) a)
      = order_by key_less (map (\<lambda>e. (nfc (fst e), projr (canonicalize nfc (snd e)))) b)"
    if "distinct (map (\<lambda>e. nfc (fst e)) a)"
    by (rule sorted_unique [OF _ n]) (use that in \<open>simp add: comp_def\<close>)
  then show ?thesis unfolding canonicalize_object isl d by simp
qed

lemma canonicalize_list_cong:
  "list_all2 (\<lambda>x y. canonicalize nfc x = canonicalize nfc y) xs ys \<Longrightarrow> canonicalize_list nfc xs = canonicalize_list nfc ys"
  by (induction rule: list_all2_induct) (auto split: sum.split)

lemma canonicalize_same:
  "same_json v w \<Longrightarrow> js_value v \<Longrightarrow> js_value w \<Longrightarrow> canonicalize nfc v = canonicalize nfc w"
proof (induction rule: same_json.induct)
  case (same_array xs ys)
  then have "list_all2 (\<lambda>x y. canonicalize nfc x = canonicalize nfc y) xs ys"
    by (auto simp: list_all2_conv_all_nth list_all_length)
  then show ?case by (simp add: canonicalize_list_cong)
next
  case (same_object a b)
  show ?case
  proof (rule canonicalize_permuted)
    show "\<forall>e \<in> set a. \<exists>y. prop_get b (fst e) = Some y \<and> canonicalize nfc (snd e) = canonicalize nfc y"
    proof
      fix e assume e: "e \<in> set a"
      then obtain y where y: "prop_get b (fst e) = Some y"
        and ih: "js_value (snd e) \<Longrightarrow> js_value y \<Longrightarrow> canonicalize nfc (snd e) = canonicalize nfc y"
        using same_object.IH by blast
      have "(fst e, y) \<in> set b" using y by (simp add: prop_get_def map_of_SomeD)
      then have "js_value (snd e)" "js_value y"
        using same_object.prems e by (auto simp: list_all_iff)
      with y ih show "\<exists>y. prop_get b (fst e) = Some y \<and> canonicalize nfc (snd e) = canonicalize nfc y" by blast
    qed
  qed (use same_object in simp_all)
qed simp

lemma order_by_from_entries:
  "distinct (map fst es) \<Longrightarrow> from_entries (order_by key_less (from_entries (order_by key_less es))) = from_entries (order_by key_less es)"
proof -
  assume d: "distinct (map fst es)"
  have "order_by key_less es = order_by key_less (from_entries (order_by key_less es))"
    by (rule sorted_unique [OF d]) simp
  then show ?thesis by simp
qed

text \<open>The result is a fixed point: keys and texts are normalized, entries sorted.\<close>

lemma canonicalize_normal_object:
  assumes "\<forall>e \<in> set fs. nfc (fst e) = fst e \<and> canonicalize nfc (snd e) = Inr (snd e)" and "distinct (map fst fs)"
  shows "canonicalize nfc (JObj (from_entries (order_by key_less fs))) = Inr (JObj (from_entries (order_by key_less fs)))"
proof -
  let ?ob = "from_entries (order_by key_less fs)"
  have s: "set ?ob = set fs" by (metis mset_from_entries mset_order_by set_mset_mset)
  have n: "\<And>e. e \<in> set ?ob \<Longrightarrow> nfc (fst e) = fst e \<and> canonicalize nfc (snd e) = Inr (snd e)"
    using assms(1) by (simp add: s)
  have m: "map (\<lambda>e. (nfc (fst e), projr (canonicalize nfc (snd e)))) ?ob = ?ob"
    by (rule map_idI) (simp add: n)
  have k: "map (\<lambda>e. nfc (fst e)) ?ob = map fst ?ob" by (rule map_cong [OF refl]) (simp add: n)
  have "mset (map fst ?ob) = mset (map fst fs)" by (simp only: mset_map mset_from_entries mset_order_by)
  then have "distinct (map fst ?ob)" using assms(2) by (metis distinct_count_atmost_1 mset_eq_setD)
  then show ?thesis
    unfolding canonicalize_object m k using n by (auto simp: order_by_from_entries [OF assms(2)])
qed

lemma canonicalize_idem:
  "canonicalize nfc v = Inr w \<Longrightarrow> (\<And>s. nfc (nfc s) = nfc s) \<Longrightarrow> canonicalize nfc w = Inr w"
  "canonicalize_list nfc xs = Inr ys \<Longrightarrow> (\<And>s. nfc (nfc s) = nfc s) \<Longrightarrow> canonicalize_list nfc ys = Inr ys"
  "canonicalize_entries nfc es = Inr fs \<Longrightarrow> (\<And>s. nfc (nfc s) = nfc s)
    \<Longrightarrow> \<forall>e \<in> set fs. nfc (fst e) = fst e \<and> canonicalize nfc (snd e) = Inr (snd e)"
proof (induction nfc v and nfc xs and nfc es arbitrary: w and ys and fs
    rule: canonicalize_canonicalize_list_canonicalize_entries.induct)
  case (3 nfc ob)
  then obtain fs where fs: "canonicalize_entries nfc ob = Inr fs" "distinct (map fst fs)"
      "w = JObj (from_entries (order_by key_less fs))"
    by (auto simp: Let_def adjacent_equal_order_by split: sum.splits if_splits)
  then show ?case using canonicalize_normal_object [OF "3.IH" [OF fs(1) "3.prems"(2)] fs(2)] by simp
next
  case (2 nfc xs)
  obtain ys where ys: "canonicalize_list nfc xs = Inr ys" "w = JArr ys"
    using "2.prems"(1) by (auto split: sum.splits)
  with "2.IH" [OF ys(1) "2.prems"(2)] show ?case by simp
next
  case (6 nfc x xs)
  obtain y zs where y: "canonicalize nfc x = Inr y" "canonicalize_list nfc xs = Inr zs" "ys = y # zs"
    using "6.prems"(1) by (auto split: sum.splits)
  with "6.IH"(1) [OF y(1) "6.prems"(2)] "6.IH"(2) [OF y(1,2) "6.prems"(2)] show ?case by simp
next
  case (8 nfc e es)
  obtain y zs where y: "canonicalize nfc (snd e) = Inr y" "canonicalize_entries nfc es = Inr zs"
      "fs = (nfc (fst e), y) # zs"
    using "8.prems"(1) by (auto split: sum.splits)
  have "canonicalize nfc y = Inr y" by (rule "8.IH"(1) [OF y(1) "8.prems"(2)])
  moreover have "\<forall>e \<in> set zs. nfc (fst e) = fst e \<and> canonicalize nfc (snd e) = Inr (snd e)"
    by (rule "8.IH"(2) [OF y(1,2) "8.prems"(2)])
  ultimately show ?case unfolding y(3) using "8.prems"(2) [of "fst e"] by simp
qed simp_all

text \<open>
  C20 (semantic_hash). Two spellings of one command, differing in the order of properties at any depth only, have one
  canonical text and one hash, and canonicalization is a normal form: applied again it changes nothing.
\<close>

theorem semantic_hash:
  assumes "same_json (JObj p) (JObj q)" and "js_value (JObj p)" and "js_value (JObj q)"
    and "\<And>s. nfc (nfc s) = nfc s"
  shows "semanticCommandSha256 nfc sha256 ty p = semanticCommandSha256 nfc sha256 ty q
    \<and> canonicalSemanticCommand nfc ty p = canonicalSemanticCommand nfc ty q
    \<and> (\<forall>w. canonicalize nfc (JObj p) = Inr w \<longrightarrow> canonicalize nfc w = Inr w)"
proof -
  let ?m = "\<lambda>p. JObj [(''payload'', JObj p), (''type'', JStr ty)]"
  have "same_json (?m p) (?m q)"
    by (rule same_object) (use assms(1) in \<open>auto simp: prop_get_def intro: same_refl\<close>)
  then have "canonicalize nfc (?m p) = canonicalize nfc (?m q)"
    by (rule canonicalize_same) (use assms(2,3) in simp_all)
  then show ?thesis
    unfolding semanticCommandSha256_def canonicalSemanticCommand_def
    using canonicalize_idem(1) [OF _ assms(4)] by (auto simp del: canonicalize.simps)
qed

theorem semantic_hash_witness:
  "semanticCommandSha256 id id ''turn.abort'' [(''sessionId'', JStr ''a''), (''n'', JNum 1)]
     = semanticCommandSha256 id id ''turn.abort'' [(''n'', JNum 1), (''sessionId'', JStr ''a'')]"
proof -
  have "same_json (JObj [(''sessionId'', JStr ''a''), (''n'', JNum 1)]) (JObj [(''n'', JNum 1), (''sessionId'', JStr ''a'')])"
    by (rule same_object) (auto simp: prop_get_def intro: same_refl)
  from semantic_hash [OF this, of id id "''turn.abort''"] show ?thesis by simp
qed

end
