(* ===== verification/Canonical_Log.thy ===== *)
theory Canonical_Log
  imports Journal Dates
begin

text \<open>
  The canonical session-event log, packages/bridge/src/session-events: the closed set of event
  types and the envelope check of canonical-event.ts, and the store of canonical-session-store.ts,
  which numbers the events of every session 1, 2, 3, \<open>\<dots>\<close> in its own tables.
\<close>

section \<open>Event types and envelopes\<close>

definition CANONICAL_EVENT_TYPES :: "string list" where
  "CANONICAL_EVENT_TYPES =
     [''session.state'', ''session.metadata'', ''user.message.created'', ''turn.started'', ''turn.settled'',
      ''turn.aborted'', ''turn.failed'', ''turn.indeterminate'', ''turn.waiting_for_input'', ''turn.retrying'',
      ''turn.compacting'', ''turn.accepted'', ''turn.queued'', ''assistant.started'', ''assistant.delta'',
      ''assistant.content.replaced'', ''assistant.message.completed'', ''assistant.completed'',
      ''reasoning.started'', ''reasoning.delta'', ''reasoning.completed'', ''tool.started'', ''tool.output'',
      ''tool.progress.replaced'', ''tool.completed'', ''tool.failed'', ''tool.cancelled'', ''extension.dialog'',
      ''extension.notify'', ''extension.status'', ''extension.widget'', ''extension.title'',
      ''extension.editor_prefill'', ''queue.snapshot'', ''model.state'', ''context.state'', ''retry.state'',
      ''compaction.state'', ''error.event'']"

definition CANONICAL_TRANSCRIPT_EVENT_TYPES :: "string list" where
  "CANONICAL_TRANSCRIPT_EVENT_TYPES =
     [''user.message.created'', ''turn.started'', ''turn.waiting_for_input'', ''turn.settled'', ''turn.aborted'',
      ''turn.failed'', ''assistant.started'', ''assistant.delta'', ''assistant.content.replaced'',
      ''assistant.message.completed'', ''assistant.completed'', ''tool.started'', ''tool.output'',
      ''tool.progress.replaced'', ''tool.completed'', ''tool.failed'', ''tool.cancelled'']"

definition isCanonicalEventType :: "string \<Rightarrow> bool" where
  "isCanonicalEventType v \<longleftrightarrow> v \<in> set CANONICAL_EVENT_TYPES"

definition isCanonicalTranscriptEventType :: "string \<Rightarrow> bool" where
  "isCanonicalTranscriptEventType v \<longleftrightarrow> v \<in> set CANONICAL_TRANSCRIPT_EVENT_TYPES"

definition CANONICAL_MAX_SEQUENCE :: int where
  "CANONICAL_MAX_SEQUENCE = 9007199254740991"

definition text_within :: "nat \<Rightarrow> json option \<Rightarrow> bool" where
  "text_within n v = (case v of Some (JStr t) \<Rightarrow> t \<noteq> [] \<and> length t \<le> n | _ \<Rightarrow> False)"

text \<open>The first violated rule, \<open>None\<close> for a valid envelope.\<close>

definition validateCanonicalEnvelope :: "obj \<Rightarrow> string option" where
  "validateCanonicalEnvelope env =
     (if \<not> text_within 128 (prop_get env ''eventId'')
      then Some ''eventId must be a non-empty string up to 128 characters''
      else if \<not> text_within 128 (prop_get env ''sessionId'')
      then Some ''sessionId must be a non-empty string up to 128 characters''
      else if \<not> (case prop_get env ''sequence'' of Some (JNum n) \<Rightarrow> 1 \<le> n \<and> n \<le> CANONICAL_MAX_SEQUENCE | _ \<Rightarrow> False)
      then Some ''sequence must be an integer in 1..MAX_SAFE_INTEGER''
      else if \<not> (case prop_get env ''type'' of Some (JStr t) \<Rightarrow> isCanonicalEventType t | _ \<Rightarrow> False)
      then Some ''type must be one of the closed canonical event types''
      else if \<not> text_within 64 (prop_get env ''occurredAt'')
      then Some ''occurredAt must be a non-empty string''
      else if \<not> (case prop_get env ''payload'' of Some (JObj _) \<Rightarrow> True | _ \<Rightarrow> False)
      then Some ''payload must be a plain object''
      else None)"

section \<open>Reading\<close>

text \<open>The rows of a session with a condition on the sequence, by \<open>ORDER BY sequence\<close>.\<close>

definition canon_rows :: "store \<Rightarrow> string \<Rightarrow> (nat \<Rightarrow> bool) \<Rightarrow> canon_row list" where
  "canon_rows s i P =
     order_by (\<lambda>a b. cn_sequence a < cn_sequence b)
       (filter (\<lambda>r. cn_session r = i \<and> P (cn_sequence r)) (canon_events s))"

definition readAfter :: "store \<Rightarrow> string \<Rightarrow> int \<Rightarrow> int option \<Rightarrow> exn + canon_row list" where
  "readAfter s i after limit =
     (if i = [] then Inl (Js_error ''sessionId is required'')
      else if after < 0 then Inl (Js_error ''after must be a non-negative integer'')
      else let rows = canon_rows s i (\<lambda>n. after < int n) in
           Inr (case limit of None \<Rightarrow> rows | Some l \<Rightarrow> take (nat (min (max 0 l) 4096)) rows))"

definition readRange :: "store \<Rightarrow> string \<Rightarrow> int \<Rightarrow> int \<Rightarrow> exn + canon_row list" where
  "readRange s i lo hi =
     (if i = [] then Inl (Js_error ''sessionId is required'')
      else if lo < 1 then Inl (Js_error ''fromInclusive must be >= 1'')
      else if hi < lo then Inl (Js_error ''toInclusive must be >= fromInclusive'')
      else Inr (canon_rows s i (\<lambda>n. lo \<le> int n \<and> int n \<le> hi)))"

definition last_sequence :: "store \<Rightarrow> string \<Rightarrow> nat" where
  "last_sequence s i = (case map_of (canon_sequences s) i of None \<Rightarrow> 0 | Some n \<Rightarrow> n)"

definition latestSequence :: "store \<Rightarrow> string \<Rightarrow> exn + nat" where
  "latestSequence s i = (if i = [] then Inl (Js_error ''sessionId is required'') else Inr (last_sequence s i))"

definition findBySource :: "store \<Rightarrow> string \<Rightarrow> string \<Rightarrow> exn + canon_row option" where
  "findBySource s i src =
     (if i = [] then Inl (Js_error ''sessionId is required'')
      else if src = [] then Inl (Js_error ''sourceEventId is required'')
      else Inr (find (\<lambda>r. cn_session r = i \<and> cn_source r = Some src) (canon_events s)))"

definition count_events :: "store \<Rightarrow> string \<Rightarrow> exn + nat" where
  "count_events s i =
     (if i = [] then Inl (Js_error ''sessionId is required'')
      else Inr (length (filter (\<lambda>r. cn_session r = i) (canon_events s))))"

text \<open>
  \<open>checkIntegrity\<close>: the issues found, as kind and position. A payload is stored as the object it is,
  so the checks of its text cannot fail in the model.
\<close>

definition checkIntegrity :: "store \<Rightarrow> string \<Rightarrow> exn + (string \<times> string) list" where
  "checkIntegrity s i =
     (if i = [] then Inl (Js_error ''sessionId is required'')
      else
        (let rows = canon_rows s i (\<lambda>_. True); latest = last_sequence s i in
         Inr (concat (map (\<lambda>(row, index).
                (if cn_sequence row \<noteq> index + 1 then [(''sequence_gap'', dec (cn_sequence row))] else [])
                @ (if isCanonicalEventType (cn_type row) then [] else [(''event_type'', cn_id row)]))
              (zip rows [0..<length rows]))
            @ (if latest \<noteq> length rows then [(''sequence_index'', dec latest)] else []))))"

section \<open>Appending\<close>

record canon_input =
  ca_session :: string
  ca_type :: string
  ca_payload :: obj
  ca_source :: "string option"
  ca_event :: "string option"
  ca_occurred :: "string option"

text \<open>The upsert that adds one to the counter of the session, starting at one.\<close>

fun bump :: "string \<Rightarrow> (string \<times> nat) list \<Rightarrow> (string \<times> nat) list" where
  "bump i [] = [(i, 1)]"
| "bump i ((j, n) # cs) = (if j = i then (j, n + 1) # cs else (j, n) # bump i cs)"

definition bumpSequence :: "string \<Rightarrow> nat tx" where
  "bumpSequence i s =
     (let s' = s\<lparr>canon_sequences := bump i (canon_sequences s)\<rparr> in Inr (last_sequence s' i, s'))"

definition insert_canon :: "canon_row \<Rightarrow> unit tx" where
  "insert_canon r s =
     (if \<exists>x \<in> set (canon_events s). cn_id x = cn_id r
      then Inl (Sqlite_error ''UNIQUE constraint failed: canonical_session_events.event_id'')
      else if \<exists>x \<in> set (canon_events s). cn_session x = cn_session r \<and> cn_sequence x = cn_sequence r
      then Inl (Sqlite_error ''UNIQUE constraint failed: canonical_session_events.sequence'')
      else Inr ((), s\<lparr>canon_events := canon_events s @ [r]\<rparr>))"

definition append_new_tx :: "canon_input \<Rightarrow> (canon_row \<times> bool) tx" where
  "append_new_tx inp =
     tx_bind (case ca_event inp of Some e \<Rightarrow> tx_return e | None \<Rightarrow> uuid) (\<lambda>eventId.
     tx_bind (tx_read clock) (\<lambda>now.
     tx_bind (bumpSequence (ca_session inp)) (\<lambda>seq.
       let occurred = (case ca_occurred inp of Some t \<Rightarrow> t | None \<Rightarrow> isoTime now);
           row = \<lparr>cn_session = ca_session inp, cn_sequence = seq, cn_id = eventId, cn_source = ca_source inp,
                  cn_type = ca_type inp, cn_occurred = occurred, cn_payload = ca_payload inp, cn_created = now\<rparr> in
       case validateCanonicalEnvelope
              [(''eventId'', JStr eventId), (''sessionId'', JStr (ca_session inp)), (''sequence'', JNum (int seq)),
               (''type'', JStr (ca_type inp)), (''occurredAt'', JStr occurred), (''payload'', JObj (ca_payload inp))] of
         Some problem \<Rightarrow> tx_throw (Js_error (''invalid canonical envelope: '' @ problem))
       | None \<Rightarrow> tx_bind (insert_canon row) (\<lambda>_. tx_return (row, False)))))"

definition append_tx :: "canon_input \<Rightarrow> (canon_row \<times> bool) tx" where
  "append_tx inp =
     (case ca_source inp of
        None \<Rightarrow> append_new_tx inp
      | Some src \<Rightarrow> (\<lambda>s.
          case findBySource s (ca_session inp) src of
            Inl e \<Rightarrow> Inl e
          | Inr (Some existing) \<Rightarrow> Inr ((existing, True), s)
          | Inr None \<Rightarrow> append_new_tx inp s))"

text \<open>The event and whether it was already there; only an event that is new is passed to the commit listeners.\<close>

definition append_canonical :: "canon_input \<Rightarrow> store \<Rightarrow> (exn + canon_row \<times> bool) \<times> store" where
  "append_canonical inp s =
     (if \<not> isCanonicalEventType (ca_type inp)
      then (Inl (Js_error (''canonical event type is not in the closed set: '' @ ca_type inp)), s)
      else if ca_session inp = [] \<or> 128 < length (ca_session inp)
      then (Inl (Js_error ''sessionId must be a non-empty string up to 128 characters''), s)
      else if \<not> sessionExists s (ca_session inp)
      then (Inl (Js_error (''session is not provisioned: '' @ ca_session inp)), s)
      else transaction (append_tx inp) s)"

text \<open>\<open>encodeCanonicalEnvelope\<close> and the frame of replay and live delivery, \<open>toWireEvent\<close>.\<close>

definition encodeCanonicalEnvelope :: "canon_row \<Rightarrow> obj" where
  "encodeCanonicalEnvelope r =
     [(''eventId'', JStr (cn_id r)), (''sessionId'', JStr (cn_session r)), (''sequence'', JNum (int (cn_sequence r))),
      (''type'', JStr (cn_type r)), (''occurredAt'', JStr (cn_occurred r)), (''payload'', JObj (cn_payload r))]"

section \<open>The log of a session is numbered without a hole\<close>

definition session_log :: "store \<Rightarrow> string \<Rightarrow> canon_row list" where
  "session_log s i = filter (\<lambda>r. cn_session r = i) (canon_events s)"

definition numbered :: "nat \<Rightarrow> canon_row list \<Rightarrow> bool" where
  "numbered n rows \<longleftrightarrow> map cn_sequence rows = [Suc n..<Suc n + length rows]"

definition canon_ok :: "store \<Rightarrow> bool" where
  "canon_ok s \<longleftrightarrow> (\<forall>i. numbered 0 (session_log s i) \<and> last_sequence s i = length (session_log s i))
     \<and> distinct (map cn_id (canon_events s)) \<and> (\<forall>r \<in> set (canon_events s). isCanonicalEventType (cn_type r))"

lemma numbered_Nil [simp]: "numbered n []"
  by (simp add: numbered_def)

lemma numbered_Cons: "numbered n (r # rs) \<longleftrightarrow> cn_sequence r = Suc n \<and> numbered (Suc n) rs"
  by (auto simp: numbered_def upt_conv_Cons simp del: upt_Suc)

lemma numbered_append: "numbered n (xs @ ys) \<longleftrightarrow> numbered n xs \<and> numbered (n + length xs) ys"
  by (induction xs arbitrary: n) (simp_all add: numbered_Cons)

lemma numbered_drop: "numbered n xs \<Longrightarrow> numbered (n + k) (drop k xs)" if "k \<le> length xs"
  using that numbered_append [of n "take k xs" "drop k xs"] by simp

lemma numbered_take: "numbered n xs \<Longrightarrow> numbered n (take k xs)"
  using numbered_append [of n "take k xs" "drop k xs"] by simp

lemma numbered_range: "numbered n xs \<Longrightarrow> r \<in> set xs \<Longrightarrow> n < cn_sequence r \<and> cn_sequence r \<le> n + length xs"
  by (induction xs arbitrary: n) (fastforce simp: numbered_Cons)+

lemma numbered_sorted: "numbered n xs \<Longrightarrow> order_by (\<lambda>a b. cn_sequence a < cn_sequence b) xs = xs"
proof (rule order_by_id)
  assume "numbered n xs"
  then have "sorted_wrt (\<le>) (map cn_sequence xs)" unfolding numbered_def by (metis sorted_upt)
  then show "sorted_wrt (\<lambda>x y. \<not> cn_sequence y < cn_sequence x) xs"
    by (simp add: sorted_wrt_map not_less)
qed

lemma numbered_filter: "numbered n xs \<Longrightarrow> filter (\<lambda>r. n + k < cn_sequence r) xs = drop k xs"
proof (induction xs arbitrary: n k)
  case (Cons r rs)
  then show ?case
  proof (cases k)
    case 0
    have "n < cn_sequence x" if "x \<in> set (r # rs)" for x using numbered_range [OF Cons.prems that] by simp
    then show ?thesis using 0 by (simp add: filter_id_conv)
  next
    case (Suc m)
    with Cons.prems Cons.IH [of "Suc n" m] show ?thesis by (simp add: numbered_Cons)
  qed
qed simp

lemma canon_okD:
  assumes "canon_ok s"
  shows "numbered 0 (session_log s i)" "last_sequence s i = length (session_log s i)"
  using assms by (auto simp: canon_ok_def)

lemma canon_ok_db: "db_of t = db_of s \<Longrightarrow> canon_ok s \<Longrightarrow> canon_ok t"
  by (metis canon_ok_def db_of_sel(18,19) last_sequence_def session_log_def)

lemma canon_rows_after:
  assumes "canon_ok s"
  shows "canon_rows s i (\<lambda>n. int k < int n) = drop k (session_log s i)"
proof -
  have "filter (\<lambda>r. cn_session r = i \<and> int k < int (cn_sequence r)) (canon_events s)
      = filter (\<lambda>r. 0 + k < cn_sequence r) (session_log s i)"
    by (simp add: session_log_def conj_commute)
  also have "\<dots> = drop k (session_log s i)" by (rule numbered_filter [OF canon_okD(1) [OF assms]])
  finally have f: "filter (\<lambda>r. cn_session r = i \<and> int k < int (cn_sequence r)) (canon_events s)
      = drop k (session_log s i)" .
  have "order_by (\<lambda>a b. cn_sequence a < cn_sequence b) (drop k (session_log s i)) = drop k (session_log s i)"
  proof (cases "k \<le> length (session_log s i)")
    case True
    then show ?thesis using numbered_sorted [OF numbered_drop [OF True canon_okD(1) [OF assms]]] by simp
  qed simp
  then show ?thesis unfolding canon_rows_def f .
qed

lemma readAfter_log:
  "canon_ok s \<Longrightarrow> i \<noteq> [] \<Longrightarrow> readAfter s i (int k) (Some (int b)) = Inr (take (min b 4096) (drop k (session_log s i)))"
proof -
  assume "canon_ok s" "i \<noteq> []"
  moreover have "nat (min (max 0 (int b)) 4096) = min b 4096" by linarith
  ultimately show ?thesis using canon_rows_after [of s i k] by (simp add: readAfter_def Let_def)
qed

section \<open>Appending keeps it so\<close>

lemma map_of_bump: "map_of (bump i cs) j =
    (if j = i then Some (case map_of cs i of None \<Rightarrow> 1 | Some n \<Rightarrow> n + 1) else map_of cs j)"
  by (induction i cs rule: bump.induct) auto

lemma last_sequence_bump:
  "last_sequence (s\<lparr>canon_sequences := bump i (canon_sequences s)\<rparr>) j
     = (if j = i then Suc (last_sequence s i) else last_sequence s j)"
  by (simp add: last_sequence_def map_of_bump split: option.splits)

lemma last_sequence_bumped:
  assumes "canon_sequences t = canon_sequences s"
  shows "last_sequence (t\<lparr>canon_sequences := bump i (canon_sequences s)\<rparr>) j
     = (if j = i then Suc (last_sequence s i) else last_sequence s j)"
  using last_sequence_bump [where s = s and i = i and j = j] by (simp add: last_sequence_def)

lemma valid_envelope_type:
  "validateCanonicalEnvelope [(''eventId'', JStr e), (''sessionId'', JStr i), (''sequence'', JNum n), (''type'', JStr t),
     (''occurredAt'', JStr occ), (''payload'', JObj p)] = None \<Longrightarrow> isCanonicalEventType t"
  by (simp add: validateCanonicalEnvelope_def prop_get_def split: if_splits)

lemma append_new_tx_Inr:
  assumes "append_new_tx inp s = Inr (r, s')"
  shows "\<exists>row. r = (row, False) \<and> canon_events s' = canon_events s @ [row] \<and> cn_session row = ca_session inp
     \<and> cn_sequence row = Suc (last_sequence s (ca_session inp)) \<and> cn_source row = ca_source inp
     \<and> cn_type row = ca_type inp \<and> cn_payload row = ca_payload inp
     \<and> canon_sequences s' = bump (ca_session inp) (canon_sequences s)
     \<and> cn_id row \<notin> cn_id ` set (canon_events s) \<and> isCanonicalEventType (cn_type row)"
proof -
  have u: "\<exists>e t. (case ca_event inp of Some e \<Rightarrow> tx_return e | None \<Rightarrow> uuid) s = Inr (e, t)
      \<and> canon_events t = canon_events s \<and> canon_sequences t = canon_sequences s"
    by (cases "ca_event inp") (simp_all add: uuid_def)
  obtain e t where t: "(case ca_event inp of Some e \<Rightarrow> tx_return e | None \<Rightarrow> uuid) s = Inr (e, t)"
    "canon_events t = canon_events s" "canon_sequences t = canon_sequences s"
    using u by (elim exE conjE) (rule that)
  define i where "i = ca_session inp"
  define occurred where "occurred = (case ca_occurred inp of Some x \<Rightarrow> x | None \<Rightarrow> isoTime (clock t))"
  define row where "row = \<lparr>cn_session = i, cn_sequence = Suc (last_sequence s i), cn_id = e,
    cn_source = ca_source inp, cn_type = ca_type inp, cn_occurred = occurred, cn_payload = ca_payload inp,
    cn_created = clock t\<rparr>"
  define t' where "t' = t\<lparr>canon_sequences := bump i (canon_sequences s)\<rparr>"
  have ls: "last_sequence t' i = Suc (last_sequence s i)" by (simp add: t'_def last_sequence_bumped [OF t(3)])
  have r: "insert_canon row t' = Inr ((), s') \<and> r = (row, False) \<and> isCanonicalEventType (ca_type inp)"
    using assms unfolding append_new_tx_def tx_bind_Inr [of "case ca_event inp of Some e \<Rightarrow> tx_return e | None \<Rightarrow> uuid", OF t(1)]
    by (auto simp: tx_bind_def bumpSequence_def Let_def t(3) i_def [symmetric] occurred_def [symmetric]
        row_def [symmetric] t'_def [symmetric] ls dest!: valid_envelope_type split: option.splits sum.splits)
  show ?thesis
    by (rule exI [of _ row]) (use r t in \<open>auto simp: insert_canon_def row_def t'_def i_def split: if_splits\<close>)
qed

lemma append_new_row:
  assumes "append_new_tx inp s = Inr ((row, dup), s')"
  shows "\<not> dup" "canon_events s' = canon_events s @ [row]" "cn_session row = ca_session inp"
    "cn_sequence row = Suc (last_sequence s (ca_session inp))" "cn_source row = ca_source inp"
    "cn_type row = ca_type inp" "cn_payload row = ca_payload inp"
    "canon_sequences s' = bump (ca_session inp) (canon_sequences s)" "cn_id row \<notin> cn_id ` set (canon_events s)"
    "isCanonicalEventType (cn_type row)"
  using append_new_tx_Inr [OF assms] by auto

lemma find_source:
  assumes "findBySource s i src = Inr (Some row)"
  shows "row \<in> set (canon_events s)" "cn_session row = i" "cn_source row = Some src"
  using assms by (auto simp: findBySource_def find_Some_iff split: if_splits)

lemma find_source_None:
  assumes "findBySource s i src = Inr None" "x \<in> set (canon_events s)" "cn_session x = i"
  shows "cn_source x \<noteq> Some src"
  using assms by (auto simp: findBySource_def find_None_iff split: if_splits)

lemma append_tx_dup:
  assumes "append_tx inp s = Inr ((row, True), s')"
  shows "s' = s" "\<exists>src. ca_source inp = Some src \<and> findBySource s (ca_session inp) src = Inr (Some row)"
proof -
  have n: "append_new_tx inp s \<noteq> Inr ((row, True), s')" using append_new_row(1) by blast
  obtain src where src: "ca_source inp = Some src" using assms n by (cases "ca_source inp") (simp_all add: append_tx_def)
  obtain f where f: "findBySource s (ca_session inp) src = Inr f"
    using assms src by (cases "findBySource s (ca_session inp) src") (simp_all add: append_tx_def)
  have "f = Some row \<and> s' = s" using assms n by (cases f) (simp_all add: append_tx_def src f)
  then show "s' = s" "\<exists>src. ca_source inp = Some src \<and> findBySource s (ca_session inp) src = Inr (Some row)"
    using src f by auto
qed

lemma append_tx_new:
  assumes "append_tx inp s = Inr ((row, False), s')"
  shows "append_new_tx inp s = Inr ((row, False), s')"
    "ca_source inp = Some src \<Longrightarrow> findBySource s (ca_session inp) src = Inr None"
proof -
  have "append_new_tx inp s = Inr ((row, False), s')
      \<and> (\<forall>src. ca_source inp = Some src \<longrightarrow> findBySource s (ca_session inp) src = Inr None)"
  proof (cases "ca_source inp")
    case None
    then show ?thesis using assms by (simp add: append_tx_def)
  next
    case (Some src)
    obtain f where f: "findBySource s (ca_session inp) src = Inr f"
      using assms Some by (cases "findBySource s (ca_session inp) src") (simp_all add: append_tx_def)
    show ?thesis using assms by (cases f) (simp_all add: append_tx_def Some f)
  qed
  then show "append_new_tx inp s = Inr ((row, False), s')"
    "ca_source inp = Some src \<Longrightarrow> findBySource s (ca_session inp) src = Inr None" by auto
qed

lemma append_new_ok:
  assumes "canon_ok s" and "append_new_tx inp s = Inr ((row, False), s')"
  shows "canon_ok s'" "session_log s' j = (if j = ca_session inp then session_log s j @ [row] else session_log s j)"
proof -
  note a = append_new_row [OF assms(2)]
  have log: "session_log s' j = (if j = ca_session inp then session_log s j @ [row] else session_log s j)" for j
    by (simp add: session_log_def a(2,3))
  have lst: "last_sequence s' j = (if j = ca_session inp then Suc (last_sequence s (ca_session inp)) else last_sequence s j)" for j
    using last_sequence_bumped [of s' s "ca_session inp" j] last_sequence_bump [of "ca_session inp" s j]
    by (simp add: last_sequence_def a(8))
  have q: "cn_sequence row = Suc (length (session_log s (ca_session inp)))"
    using a(4) canon_okD(2) [OF assms(1)] by simp
  have "numbered 0 (session_log s' j) \<and> last_sequence s' j = length (session_log s' j)" for j
    using canon_okD [OF assms(1), of j] canon_okD(2) [OF assms(1), of "ca_session inp"]
    by (cases "j = ca_session inp") (simp_all add: log lst numbered_append numbered_Cons q)
  moreover have "distinct (map cn_id (canon_events s')) \<and> (\<forall>r \<in> set (canon_events s'). isCanonicalEventType (cn_type r))"
    using a(9,10) assms(1) by (simp add: a(2) canon_ok_def)
  ultimately show "canon_ok s'" by (simp add: canon_ok_def)
  show "session_log s' j = (if j = ca_session inp then session_log s j @ [row] else session_log s j)" by (rule log)
qed

lemma append_canonical_run:
  "append_canonical inp s = (r, s') \<Longrightarrow> (\<exists>e. r = Inl e) \<and> s' = s \<or> transaction (append_tx inp) s = (r, s')"
  by (auto simp: append_canonical_def split: if_split_asm)

lemma append_canonical_cases:
  assumes "append_canonical inp s = (r, s')"
  obtains (failed) e where "r = Inl e" "db_of s' = db_of s"
  | (known) row src where "r = Inr (row, True)" "s' = s" "ca_source inp = Some src"
      "findBySource s (ca_session inp) src = Inr (Some row)"
  | (new) row where "r = Inr (row, False)" "append_new_tx inp s = Inr ((row, False), s')"
      "\<And>src. ca_source inp = Some src \<Longrightarrow> findBySource s (ca_session inp) src = Inr None"
proof (cases r)
  case (Inl e)
  have "db_of s' = db_of s"
    using append_canonical_run [OF assms] transaction_atomic [of "append_tx inp" s r s'] Inl by auto
  then show ?thesis using failed Inl by blast
next
  case (Inr p)
  obtain row dup where p: "p = (row, dup)" by (cases p)
  have "append_tx inp s = Inr ((row, dup), s')"
    using append_canonical_run [OF assms] transaction_Inr_iff [of "append_tx inp" s "(row, dup)" s'] Inr
    by (simp add: p)
  then have dup: "dup \<Longrightarrow> append_tx inp s = Inr ((row, True), s')" "\<not> dup \<Longrightarrow> append_tx inp s = Inr ((row, False), s')"
    by simp_all
  show ?thesis
  proof (cases dup)
    case True
    with append_tx_dup [OF dup(1)] show ?thesis using known [of row] Inr p by blast
  next
    case False
    with append_tx_new [OF dup(2)] show ?thesis using new [of row] Inr p by blast
  qed
qed

lemma append_canonical_ok:
  assumes "canon_ok s"
  shows "canon_ok (snd (append_canonical inp s))"
proof -
  obtain r s' where eq: "append_canonical inp s = (r, s')" by (cases "append_canonical inp s")
  from eq have "canon_ok s'"
  proof (cases rule: append_canonical_cases)
    case failed
    show ?thesis by (rule canon_ok_db [OF failed(2) assms])
  next
    case known
    then show ?thesis using assms by simp
  next
    case new
    show ?thesis by (rule append_new_ok(1) [OF assms new(2)])
  qed
  then show ?thesis by (simp add: eq)
qed

lemma appends_ok: "canon_ok s \<Longrightarrow> canon_ok (fold (\<lambda>inp t. snd (append_canonical inp t)) inputs s)"
  by (induction inputs arbitrary: s) (simp_all add: append_canonical_ok)

lemma integrity_ok:
  assumes "canon_ok s" "i \<noteq> []"
  shows "checkIntegrity s i = Inr []"
proof -
  have eq: "canon_rows s i (\<lambda>_. True) = session_log s i"
    using numbered_sorted [OF canon_okD(1) [OF assms(1)], of i] by (simp add: canon_rows_def session_log_def)
  have row: "cn_sequence r = n + 1 \<and> isCanonicalEventType (cn_type r)"
    if z: "(r, n) \<in> set (zip (session_log s i) [0..<length (session_log s i)])" for r n
  proof -
    have n: "n < length (session_log s i)" "r = session_log s i ! n" using z by (auto simp: set_zip)
    have "map cn_sequence (session_log s i) ! n = n + 1"
      using canon_okD(1) [OF assms(1), of i] n(1) unfolding numbered_def by (simp del: upt_Suc)
    moreover have "r \<in> set (canon_events s)" using nth_mem [OF n(1)] n(2) by (simp add: session_log_def)
    ultimately show ?thesis using n assms(1) by (simp add: canon_ok_def)
  qed
  have "concat (map (\<lambda>(row, index).
                (if cn_sequence row \<noteq> index + 1 then [(''sequence_gap'', dec (cn_sequence row))] else [])
                @ (if isCanonicalEventType (cn_type row) then [] else [(''event_type'', cn_id row)]))
              (zip (session_log s i) [0..<length (session_log s i)])) = []"
    using row by (auto simp: concat_eq_Nil_conv)
  then show ?thesis using assms canon_okD(2) [OF assms(1), of i] by (simp add: checkIntegrity_def eq Let_def)
qed

section \<open>Properties\<close>

text \<open>
  C27 (canon_append). An append to the canonical log either fails and leaves every table as it was, or
  finds the event its source identity names and changes nothing, or adds exactly one event at the end
  of the log of its session, with the next sequence number, after every event of the session, and only
  when no event of the session has that source identity; the logs of the other sessions stay.
\<close>

theorem canon_append:
  assumes "canon_ok s" and "append_canonical inp s = (r, s')"
  shows "canon_ok s' \<and>
    (case r of
       Inl e \<Rightarrow> db_of s' = db_of s
     | Inr (row, True) \<Rightarrow> s' = s \<and> row \<in> set (session_log s (ca_session inp)) \<and> ca_source inp \<noteq> None
         \<and> cn_source row = ca_source inp
     | Inr (row, False) \<Rightarrow>
         session_log s' (ca_session inp) = session_log s (ca_session inp) @ [row]
         \<and> (\<forall>j. j \<noteq> ca_session inp \<longrightarrow> session_log s' j = session_log s j)
         \<and> cn_sequence row = length (session_log s (ca_session inp)) + 1
         \<and> cn_type row = ca_type inp \<and> cn_payload row = ca_payload inp \<and> cn_source row = ca_source inp
         \<and> (ca_source inp \<noteq> None \<longrightarrow> cn_source row \<notin> cn_source ` set (session_log s (ca_session inp))))"
proof -
  have ok: "canon_ok s'" using append_canonical_ok [OF assms(1), of inp] by (simp add: assms(2))
  from assms(2) show ?thesis
  proof (cases rule: append_canonical_cases)
    case failed
    then show ?thesis using ok by simp
  next
    case (known row src)
    then show ?thesis using ok find_source [OF known(4)] by (simp add: session_log_def)
  next
    case (new row)
    note a = append_new_row [OF new(2)]
    have "cn_source row \<notin> cn_source ` set (session_log s (ca_session inp))" if "ca_source inp \<noteq> None"
      using that new(3) find_source_None [of s "ca_session inp"] by (auto simp: a(5) session_log_def)
    then show ?thesis
      using ok append_new_ok(2) [OF assms(1) new(2)] a(3-7) canon_okD(2) [OF assms(1)] by (simp add: new(1))
  qed
qed

text \<open>
  However many events are appended to a sound log, and whichever of the appends
  fail, the integrity check of every session finds nothing to report.
\<close>

theorem canon_integrity:
  assumes "canon_ok s" and "i \<noteq> []"
  shows "checkIntegrity (fold (\<lambda>inp t. snd (append_canonical inp t)) inputs s) i = Inr []"
  by (rule integrity_ok [OF appends_ok [OF assms(1)] assms(2)])

definition demo_canon_input :: canon_input where
  "demo_canon_input = \<lparr>ca_session = ''a'', ca_type = ''turn.started'', ca_payload = [(''turnId'', JStr ''t'')],
     ca_source = Some ''src'', ca_event = Some ''e'', ca_occurred = Some ''2024-01-01''\<rparr>"

lemma demo_canon_ok: "canon_ok demo_store"
  by (simp add: canon_ok_def session_log_def last_sequence_def demo_store_def empty_store_def)

lemma demo_canon_append:
  "\<exists>s'. append_canonical demo_canon_input demo_store
     = (Inr (\<lparr>cn_session = ''a'', cn_sequence = 1, cn_id = ''e'', cn_source = Some ''src'', cn_type = ''turn.started'',
              cn_occurred = ''2024-01-01'', cn_payload = [(''turnId'', JStr ''t'')], cn_created = 1000\<rparr>, False), s')"
proof -
  have e: "canon_events demo_store = []" "canon_sequences demo_store = []"
    by (simp_all add: demo_store_def empty_store_def)
  show ?thesis
    by (simp add: append_canonical_def demo_canon_input_def isCanonicalEventType_def CANONICAL_EVENT_TYPES_def
        sessionExists_def transaction_eq append_tx_def findBySource_def e append_new_tx_def tx_bind_def tx_return_def
        bumpSequence_def last_sequence_def validateCanonicalEnvelope_def text_within_def prop_get_def
        CANONICAL_MAX_SEQUENCE_def insert_canon_def session_row_of_def Let_def)
qed

theorem canon_append_witness:
  "\<exists>row s'. append_canonical demo_canon_input demo_store = (Inr (row, False), s') \<and> session_log s' ''a'' = [row]"
proof -
  obtain row s' where eq: "append_canonical demo_canon_input demo_store = (Inr (row, False), s')"
    using demo_canon_append by blast
  have "session_log demo_store ''a'' = []" by (simp add: session_log_def demo_store_def empty_store_def)
  with canon_append [OF demo_canon_ok eq] eq show ?thesis by (auto simp: demo_canon_input_def)
qed

end
