(* ===== verification/Canonical_Transport.thy ===== *)
theory Canonical_Transport
  imports Canonical_Log Protocol_Tables "HOL-Library.AList" "HOL-Library.Sublist"
begin

text \<open>
  The transport of the canonical log, session-events/canonical-event-transport.ts: the
  subscriptions of the connections, the paged replay of a session's log, and the live delivery of
  the events committed after it.
\<close>

section \<open>State\<close>

text \<open>
  The callback of a subscription is the connection itself: what it is called with is part of the
  result of the operation that calls it.
\<close>

record subscription =
  su_last :: int
  su_replay :: bool
  su_pending :: "canon_row list"

record transport =
  tr_batch :: nat
  tr_limit :: nat
  tr_listening :: bool
  tr_subs :: "(string \<times> (string \<times> subscription) list) list"

definition DEFAULT_REPLAY_BATCH_SIZE :: nat where
  "DEFAULT_REPLAY_BATCH_SIZE = 256"

definition DEFAULT_REPLAY_MAX_BYTES :: nat where
  "DEFAULT_REPLAY_MAX_BYTES = 512 * 1024"

definition DEFAULT_PENDING_LIMIT :: nat where
  "DEFAULT_PENDING_LIMIT = 1024"

definition new_transport :: "nat option \<Rightarrow> nat option \<Rightarrow> transport" where
  "new_transport batch limit =
     \<lparr>tr_batch = (case batch of Some b \<Rightarrow> b | None \<Rightarrow> DEFAULT_REPLAY_BATCH_SIZE),
      tr_limit = (case limit of Some l \<Rightarrow> l | None \<Rightarrow> DEFAULT_PENDING_LIMIT),
      tr_listening = True, tr_subs = []\<rparr>"

definition sub_of :: "transport \<Rightarrow> string \<Rightarrow> string \<Rightarrow> subscription option" where
  "sub_of t c i = (case map_of (tr_subs t) c of None \<Rightarrow> None | Some m \<Rightarrow> map_of m i)"

definition put_sub :: "string \<Rightarrow> string \<Rightarrow> subscription \<Rightarrow> transport \<Rightarrow> transport" where
  "put_sub c i su t =
     t\<lparr>tr_subs := AList.update c (AList.update i su (case map_of (tr_subs t) c of Some m \<Rightarrow> m | None \<Rightarrow> [])) (tr_subs t)\<rparr>"

section \<open>Wire frames\<close>

definition toWireEvent :: "canon_row \<Rightarrow> obj" where
  "toWireEvent r =
     [(''eventId'', JStr (cn_id r)), (''sessionId'', JStr (cn_session r)), (''sequence'', JNum (int (cn_sequence r))),
      (''eventType'', JStr (cn_type r)), (''occurredAt'', JStr (cn_occurred r)), (''data'', JObj (cn_payload r))]"

definition toWireEnvelope :: "canon_row \<Rightarrow> obj" where
  "toWireEnvelope r =
     (let env = encodeCanonicalEnvelope r; field = (\<lambda>k. case prop_get env k of Some v \<Rightarrow> v | None \<Rightarrow> JNull) in
      [(''eventId'', field ''eventId''), (''sessionId'', field ''sessionId''), (''sequence'', field ''sequence''),
       (''eventType'', field ''type''), (''occurredAt'', field ''occurredAt''), (''data'', field ''payload'')])"

definition protocol_version :: json where
  "protocol_version = JObj [(''major'', JNum PROTOCOL_MAJOR), (''minor'', JNum PROTOCOL_MINOR)]"

definition buildLiveMessage :: "obj \<Rightarrow> string option \<Rightarrow> string \<Rightarrow> string \<Rightarrow> obj" where
  "buildLiveMessage event requestId messageId sentAt =
     [(''protocol'', protocol_version), (''messageId'', JStr messageId)]
     @ (case requestId of Some r \<Rightarrow> [(''requestId'', JStr r)] | None \<Rightarrow> [])
     @ [(''type'', JStr ''session.event''), (''sentAt'', JStr sentAt), (''payload'', JObj event)]"

definition toWireMessage :: "obj \<Rightarrow> string option \<Rightarrow> string \<Rightarrow> string \<Rightarrow> obj" where
  "toWireMessage event requestId messageId sentAt =
     [(''protocol'', protocol_version), (''messageId'', JStr messageId)]
     @ (case requestId of Some r \<Rightarrow> [(''requestId'', JStr r)] | None \<Rightarrow> [])
     @ [(''type'', JStr ''session.event''), (''sentAt'', JStr sentAt), (''payload'', JObj event)]"

record replay_result =
  rr_session :: string
  rr_events :: "obj list"
  rr_latest :: nat
  rr_complete :: bool

definition buildReplayResultMessage :: "replay_result \<Rightarrow> string \<Rightarrow> string \<Rightarrow> string \<Rightarrow> obj" where
  "buildReplayResultMessage res requestId messageId sentAt =
     [(''protocol'', protocol_version), (''messageId'', JStr messageId), (''requestId'', JStr requestId),
      (''type'', JStr ''session.events.replay.result''), (''sentAt'', JStr sentAt),
      (''payload'', JObj [(''sessionId'', JStr (rr_session res)), (''events'', JArr (map JObj (rr_events res))),
         (''latestSequence'', JNum (int (rr_latest res))), (''complete'', JBool (rr_complete res))])]"

section \<open>Replay\<close>

text \<open>The variables of the replay loop: \<open>replay\<close>, \<open>replayBytes\<close> and \<open>cursor\<close>.\<close>

record replay_state =
  rs_events :: "obj list"
  rs_bytes :: nat
  rs_cursor :: int

definition appendRecord :: "canon_row \<Rightarrow> replay_state \<Rightarrow> replay_state option" where
  "appendRecord r st =
     (let wire = toWireEvent r; bytes = length (json_text (JObj wire)) in
      if rs_events st \<noteq> [] \<and> DEFAULT_REPLAY_MAX_BYTES < rs_bytes st + bytes then None
      else Some \<lparr>rs_events = rs_events st @ [wire], rs_bytes = rs_bytes st + bytes, rs_cursor = int (cn_sequence r)\<rparr>)"

text \<open>The loop over the page: whether it met a gap, and its variables at the end.\<close>

fun replay_page :: "canon_row list \<Rightarrow> replay_state \<Rightarrow> bool \<times> replay_state" where
  "replay_page [] st = (False, st)"
| "replay_page (r # rs) st =
     (if int (cn_sequence r) \<noteq> rs_cursor st + 1 then (True, st)
      else case appendRecord r st of None \<Rightarrow> (False, st) | Some st' \<Rightarrow> replay_page rs st')"

text \<open>The loop over the buffered events in the order of their sequence.\<close>

fun drain :: "canon_row list \<Rightarrow> canon_row list \<Rightarrow> replay_state \<Rightarrow> bool \<times> canon_row list \<times> replay_state" where
  "drain [] retained st = (False, retained, st)"
| "drain (r # rs) retained st =
     (if int (cn_sequence r) \<le> rs_cursor st then drain rs retained st
      else if int (cn_sequence r) \<noteq> rs_cursor st + 1 then (True, retained, st)
      else case appendRecord r st of
             None \<Rightarrow> drain rs (retained @ [r]) st
           | Some st' \<Rightarrow> drain rs retained st')"

definition replay_gap :: exn where
  "replay_gap = Js_error ''canonical replay detected a sequence gap''"

definition replay_into :: "string \<Rightarrow> string \<Rightarrow> int \<Rightarrow> subscription \<Rightarrow> canon_row list \<Rightarrow> store \<Rightarrow> transport
    \<Rightarrow> (exn + replay_result) \<times> transport" where
  "replay_into c i after su page s t =
     (case replay_page page \<lparr>rs_events = [], rs_bytes = 0, rs_cursor = after\<rparr> of
        (True, st) \<Rightarrow> (Inl replay_gap, put_sub c i
           (su\<lparr>su_last := (if rs_events st = [] then su_last su else rs_cursor st), su_replay := False\<rparr>) t)
      | (False, st) \<Rightarrow>
          let (gap, pending, st') =
                (if length (rs_events st) = length page \<and> length (rs_events st) < tr_batch t
                 then drain (sort_key cn_sequence (su_pending su)) [] st
                 else (False, su_pending su, st));
              su' = su\<lparr>su_last := (if rs_events st' = [] then su_last su else rs_cursor st')\<rparr> in
          if gap then (Inl replay_gap, put_sub c i (su'\<lparr>su_replay := False\<rparr>) t)
          else let latest = last_sequence s i;
                   complete = ((\<forall>r \<in> set pending. int (cn_sequence r) \<le> rs_cursor st') \<and> int latest \<le> rs_cursor st') in
               (Inr \<lparr>rr_session = i, rr_events = rs_events st', rr_latest = latest, rr_complete = complete\<rparr>,
                put_sub c i (su'\<lparr>su_pending := pending, su_replay := \<not> complete\<rparr>) t))"

definition subscribe :: "string \<Rightarrow> string \<Rightarrow> int \<Rightarrow> store \<Rightarrow> transport \<Rightarrow> (exn + replay_result) \<times> transport" where
  "subscribe c i after s t =
     (if after < 0 then (Inl (Js_error ''afterSequence must be a non-negative integer''), t)
      else if c = [] then (Inl (Js_error ''connectionId is required''), t)
      else if i = [] then (Inl (Js_error ''sessionId is required''), t)
      else
        let fresh = \<lparr>su_last = after, su_replay = True, su_pending = []\<rparr>;
            existing = (case sub_of t c i of Some su \<Rightarrow> if su_replay su then Some su else None | None \<Rightarrow> None) in
        if \<exists>su \<in> set_option existing. after \<noteq> su_last su
        then (Inl (Js_error ''canonical replay cursor does not match the active replay''), t)
        else
          let su = (case existing of Some su \<Rightarrow> su | None \<Rightarrow> fresh) in
          case readAfter s i after (Some (int (tr_batch t))) of
            Inl e \<Rightarrow> (Inl e, put_sub c i su t)
          | Inr page \<Rightarrow> replay_into c i after su page s t)"

section \<open>Live delivery\<close>

definition deliver_one :: "nat \<Rightarrow> canon_row \<Rightarrow> subscription \<Rightarrow> bool \<times> subscription" where
  "deliver_one limit ev su =
     (if su_replay su
      then (False, su\<lparr>su_pending := (if limit \<le> length (su_pending su) then tl (su_pending su) else su_pending su) @ [ev]\<rparr>)
      else if int (cn_sequence ev) \<le> su_last su then (False, su)
      else if int (cn_sequence ev) \<noteq> su_last su + 1 then (False, su\<lparr>su_last := int (cn_sequence ev) - 1\<rparr>)
      else (True, su\<lparr>su_last := int (cn_sequence ev)\<rparr>))"

text \<open>The connections the event is handed to, in the order of the map, and the transport after it.\<close>

definition deliverLive :: "canon_row \<Rightarrow> transport \<Rightarrow> string list \<times> transport" where
  "deliverLive ev t =
     (concat (map (\<lambda>(c, m). case map_of m (cn_session ev) of None \<Rightarrow> []
                     | Some su \<Rightarrow> if fst (deliver_one (tr_limit t) ev su) then [c] else []) (tr_subs t)),
      t\<lparr>tr_subs := map (\<lambda>(c, m). (c, case map_of m (cn_session ev) of None \<Rightarrow> m
                     | Some su \<Rightarrow> AList.update (cn_session ev) (snd (deliver_one (tr_limit t) ev su)) m)) (tr_subs t)\<rparr>)"

definition disconnect :: "string \<Rightarrow> transport \<Rightarrow> transport" where
  "disconnect c t = t\<lparr>tr_subs := AList.delete c (tr_subs t)\<rparr>"

definition connectionSubscriptionCount :: "transport \<Rightarrow> string \<Rightarrow> nat" where
  "connectionSubscriptionCount t c = (case map_of (tr_subs t) c of None \<Rightarrow> 0 | Some m \<Rightarrow> length m)"

definition totalSubscriptionCount :: "transport \<Rightarrow> nat" where
  "totalSubscriptionCount t = sum_list (map (length \<circ> snd) (tr_subs t))"

definition close_transport :: "transport \<Rightarrow> transport" where
  "close_transport t = t\<lparr>tr_listening := False, tr_subs := []\<rparr>"

text \<open>An append with the transport as its commit listener.\<close>

definition commit_event :: "canon_input \<Rightarrow> store \<times> transport \<Rightarrow> (canon_row \<times> string list) option \<times> store \<times> transport" where
  "commit_event inp st =
     (let (r, s') = append_canonical inp (fst st) in
      case r of
        Inr (row, False) \<Rightarrow>
          (if tr_listening (snd st)
           then let (cs, t') = deliverLive row (snd st) in (Some (row, cs), s', t')
           else (Some (row, []), s', snd st))
      | _ \<Rightarrow> (None, s', snd st))"

section \<open>Subscriptions in the map\<close>

lemma sub_of_put_sub [simp]:
  "sub_of (put_sub c i su t) c' i' = (if c' = c \<and> i' = i then Some su else sub_of t c' i')"
  by (auto simp: sub_of_def put_sub_def update_conv' split: option.splits)

lemma put_sub_sel [simp]:
  "tr_batch (put_sub c i su t) = tr_batch t" "tr_limit (put_sub c i su t) = tr_limit t"
  "tr_listening (put_sub c i su t) = tr_listening t"
  by (simp_all add: put_sub_def)

definition keys_distinct :: "transport \<Rightarrow> bool" where
  "keys_distinct t \<longleftrightarrow> distinct (map fst (tr_subs t))"

lemma keys_distinct_put_sub [simp]: "keys_distinct t \<Longrightarrow> keys_distinct (put_sub c i su t)"
  by (simp add: keys_distinct_def put_sub_def distinct_update)

lemma keys_distinct_disconnect [simp]: "keys_distinct t \<Longrightarrow> keys_distinct (disconnect c t)"
  by (simp add: keys_distinct_def disconnect_def distinct_delete)

lemma sub_of_disconnect [simp]: "sub_of (disconnect c t) c' i = (if c' = c then None else sub_of t c' i)"
  by (simp add: sub_of_def disconnect_def delete_conv' split: option.splits)

lemma disconnect_sel [simp]:
  "tr_batch (disconnect c t) = tr_batch t" "tr_listening (disconnect c t) = tr_listening t"
  by (simp_all add: disconnect_def)

lemma map_of_map_pair: "map_of (map (\<lambda>(k, v). (k, f k v)) al) k = map_option (f k) (map_of al k)"
  by (induction al) auto

lemma deliverLive_sel [simp]:
  "tr_batch (snd (deliverLive ev t)) = tr_batch t" "tr_listening (snd (deliverLive ev t)) = tr_listening t"
  by (simp_all add: deliverLive_def)

lemma keys_distinct_deliverLive [simp]: "keys_distinct (snd (deliverLive ev t)) = keys_distinct t"
  by (simp add: keys_distinct_def deliverLive_def comp_def case_prod_unfold)

lemma sub_of_deliverLive:
  "sub_of (snd (deliverLive ev t)) c i =
     (if i = cn_session ev then map_option (\<lambda>su. snd (deliver_one (tr_limit t) ev su)) (sub_of t c i) else sub_of t c i)"
  by (cases "map_of (tr_subs t) c")
    (auto simp: sub_of_def deliverLive_def map_of_map_pair update_conv' split: option.splits)

lemma filter_concat_keys:
  assumes "distinct (map fst al)"
  shows "filter (\<lambda>x. x = c) (concat (map (\<lambda>(k, v). if P k v then [k] else []) al))
     = (case map_of al c of None \<Rightarrow> [] | Some v \<Rightarrow> if P c v then [c] else [])"
  using assms
proof (induction al)
  case (Cons kv al)
  then show ?case by (cases kv) (auto split: option.splits simp: map_of_eq_None_iff dest!: map_of_SomeD, force+)
qed simp

lemma deliverLive_to:
  assumes "keys_distinct t"
  shows "filter (\<lambda>x. x = c) (fst (deliverLive ev t)) =
     (case sub_of t c (cn_session ev) of None \<Rightarrow> [] | Some su \<Rightarrow> if fst (deliver_one (tr_limit t) ev su) then [c] else [])"
proof -
  let ?P = "\<lambda>(k::string) m. (case map_of m (cn_session ev) of None \<Rightarrow> False | Some su \<Rightarrow> fst (deliver_one (tr_limit t) ev su))"
  have "fst (deliverLive ev t) = concat (map (\<lambda>(k, m). if ?P k m then [k] else []) (tr_subs t))"
    unfolding deliverLive_def by (simp add: case_prod_unfold) (intro arg_cong [where f = concat] map_cong refl, simp split: option.splits)
  then show ?thesis
    using filter_concat_keys [of "tr_subs t" c ?P] assms
    by (simp add: keys_distinct_def sub_of_def split: option.splits)
qed

section \<open>A page of the replay\<close>

lemma appendRecord_fields:
  assumes "appendRecord r st = Some st'"
  shows "rs_events st' = rs_events st @ [toWireEvent r]" "rs_cursor st' = int (cn_sequence r)"
  using assms by (auto simp: appendRecord_def Let_def split: if_splits)

lemma appendRecord_first: "rs_events st = [] \<Longrightarrow> appendRecord r st \<noteq> None"
  by (simp add: appendRecord_def Let_def)

lemma replay_page_numbered:
  assumes "numbered k page" "rs_cursor st = int k"
  obtains m st' where "replay_page page st = (False, st')" "m \<le> length page"
    "rs_events st' = rs_events st @ map toWireEvent (take m page)" "rs_cursor st' = int (k + m)"
    "rs_events st = [] \<Longrightarrow> page \<noteq> [] \<Longrightarrow> 0 < m"
  using assms
proof (induction page arbitrary: k st thesis)
  case Nil
  show ?case by (rule Nil.prems(1) [of st 0]) (use Nil.prems in auto)
next
  case (Cons r rs)
  have r: "cn_sequence r = Suc k" "numbered (Suc k) rs" using Cons.prems(2) by (simp_all add: numbered_Cons)
  show ?case
  proof (cases "appendRecord r st")
    case None
    then have "rs_events st \<noteq> []" using appendRecord_first by blast
    with None r Cons.prems(3) show ?thesis by (intro Cons.prems(1) [of st 0]) simp_all
  next
    case (Some st1)
    note f = appendRecord_fields [OF Some]
    obtain m st' where m: "replay_page rs st1 = (False, st')" "m \<le> length rs"
      "rs_events st' = rs_events st1 @ map toWireEvent (take m rs)" "rs_cursor st' = int (Suc k + m)"
      using Cons.IH [OF _ r(2), of st1] f r(1) by metis
    show ?thesis
      by (rule Cons.prems(1) [of st' "Suc m"]) (use Some m f r Cons.prems(3) in simp_all)
  qed
qed

lemma drain_behind: "\<forall>r \<in> set rs. int (cn_sequence r) \<le> rs_cursor st \<Longrightarrow> drain rs ret st = (False, ret, st)"
  by (induction rs) auto

section \<open>A client of the feed\<close>

text \<open>
  One client \<open>c\<close> follows one session \<open>i\<close> from the sequence \<open>start\<close>: it keeps the frames it has been
  given, asks for the events after the last of them, and does nothing else with the session. The
  world around it is the store, the transport and what the client has seen. Other clients subscribe
  as they like, connections close, events of any session are appended, and the other operations of
  the store do whatever they do to the other tables.
\<close>

record world =
  w_store :: store
  w_transport :: transport
  w_seen :: "obj list"

definition frame_sequence :: "obj \<Rightarrow> int" where
  "frame_sequence f = (case prop_get f ''sequence'' of Some (JNum n) \<Rightarrow> n | _ \<Rightarrow> 0)"

definition client_cursor :: "nat \<Rightarrow> obj list \<Rightarrow> int" where
  "client_cursor start seen = (if seen = [] then int start else frame_sequence (last seen))"

definition sync_client :: "string \<Rightarrow> string \<Rightarrow> nat \<Rightarrow> world \<Rightarrow> (exn + bool) \<times> world" where
  "sync_client c i start w =
     (case subscribe c i (client_cursor start (w_seen w)) (w_store w) (w_transport w) of
        (Inl e, t) \<Rightarrow> (Inl e, w\<lparr>w_transport := t\<rparr>)
      | (Inr res, t) \<Rightarrow> (Inr (rr_complete res), w\<lparr>w_transport := t, w_seen := w_seen w @ rr_events res\<rparr>))"

definition append_world :: "string \<Rightarrow> string \<Rightarrow> canon_input \<Rightarrow> world \<Rightarrow> world" where
  "append_world c i inp w =
     (case commit_event inp (w_store w, w_transport w) of
        (out, s, t) \<Rightarrow> \<lparr>w_store = s, w_transport = t,
          w_seen = w_seen w @ (case out of Some (row, cs) \<Rightarrow>
              (if cn_session row = i then map (\<lambda>_. toWireEvent row) (filter (\<lambda>x. x = c) cs) else [])
            | None \<Rightarrow> [])\<rparr>)"

inductive feed_step :: "string \<Rightarrow> string \<Rightarrow> nat \<Rightarrow> world \<Rightarrow> world \<Rightarrow> bool" for c i start where
  appended: "feed_step c i start w (append_world c i inp w)"
| synced: "feed_step c i start w (snd (sync_client c i start w))"
| other_synced: "(c', i') \<noteq> (c, i) \<Longrightarrow>
    feed_step c i start w (w\<lparr>w_transport := snd (subscribe c' i' n (w_store w) (w_transport w))\<rparr>)"
| disconnected: "feed_step c i start w (w\<lparr>w_transport := disconnect c' (w_transport w)\<rparr>)"
| other_store: "canon_events s = canon_events (w_store w) \<Longrightarrow> canon_sequences s = canon_sequences (w_store w) \<Longrightarrow>
    feed_step c i start w (w\<lparr>w_store := s\<rparr>)"

inductive feed_reach :: "string \<Rightarrow> string \<Rightarrow> nat \<Rightarrow> world \<Rightarrow> world \<Rightarrow> bool" for c i start w0 where
  start: "feed_reach c i start w0 w0"
| step: "feed_reach c i start w0 w \<Longrightarrow> feed_step c i start w w' \<Longrightarrow> feed_reach c i start w0 w'"

definition feed_start :: "string \<Rightarrow> string \<Rightarrow> nat \<Rightarrow> world \<Rightarrow> bool" where
  "feed_start c i start w \<longleftrightarrow> c \<noteq> [] \<and> i \<noteq> [] \<and> canon_ok (w_store w) \<and> tr_subs (w_transport w) = []
     \<and> tr_listening (w_transport w) \<and> 1 \<le> tr_batch (w_transport w) \<and> tr_batch (w_transport w) \<le> 4096
     \<and> w_seen w = [] \<and> start \<le> length (session_log (w_store w) i)"

text \<open>What holds in every world: the position of the client is that of its subscription.\<close>

definition feed_sub_ok :: "canon_row list \<Rightarrow> nat \<Rightarrow> subscription \<Rightarrow> bool" where
  "feed_sub_ok log pos su \<longleftrightarrow> su_last su = int pos
     \<and> (if su_replay su then \<forall>r \<in> set (su_pending su). cn_sequence r \<le> length log else pos = length log)"

definition feed_ok :: "string \<Rightarrow> string \<Rightarrow> nat \<Rightarrow> world \<Rightarrow> bool" where
  "feed_ok c i start w \<longleftrightarrow>
     (let log = session_log (w_store w) i; pos = start + length (w_seen w) in
      canon_ok (w_store w) \<and> keys_distinct (w_transport w) \<and> tr_listening (w_transport w)
      \<and> 1 \<le> tr_batch (w_transport w) \<and> tr_batch (w_transport w) \<le> 4096 \<and> pos \<le> length log
      \<and> prefix (w_seen w) (map toWireEvent (drop start log))
      \<and> (\<forall>su. sub_of (w_transport w) c i = Some su \<longrightarrow> feed_sub_ok log pos su))"

section \<open>One subscription request\<close>

lemma replay_into_log:
  assumes log_def: "log = session_log s i" and "canon_ok s" "feed_sub_ok log pos su" "su_replay su" "pos \<le> length log" "1 \<le> tr_batch t"
  obtains m res su' where
    "replay_into c i (int pos) su (take (tr_batch t) (drop pos log)) s t = (Inr res, put_sub c i su' t)"
    "rr_events res = map toWireEvent (take m (drop pos log))" "pos + m \<le> length log" "pos < length log \<Longrightarrow> 0 < m"
    "rr_complete res \<longleftrightarrow> pos + m = length log" "feed_sub_ok log (pos + m) su'"
proof -
  let ?page = "take (tr_batch t) (drop pos log)"
  let ?st0 = "\<lparr>rs_events = [], rs_bytes = 0, rs_cursor = int pos\<rparr>"
  have num: "numbered pos ?page"
    using numbered_take numbered_drop [OF assms(5) canon_okD(1) [OF assms(2), of i, folded log_def]] by simp
  have ls: "last_sequence s i = length log" using canon_okD(2) [OF assms(2)] by (simp add: log_def)
  have c0: "rs_cursor ?st0 = int pos" by simp
  obtain m st where m0: "replay_page ?page ?st0 = (False, st)" "m \<le> length ?page"
    "rs_events st = rs_events ?st0 @ map toWireEvent (take m ?page)" "rs_cursor st = int (pos + m)"
    "rs_events ?st0 = [] \<Longrightarrow> ?page \<noteq> [] \<Longrightarrow> 0 < m"
    by (rule replay_page_numbered [OF num c0]) (rule that; simp)
  note m = m0(1,2) m0(3) [simplified replay_state.select_convs append_Nil] m0(4) m0(5) [OF replay_state.select_convs(1)]
  have len: "length (rs_events st) = m" using m(2) unfolding m(3) length_map length_take [of m] by (rule min_absorb2)
  have le: "pos + m \<le> length log" using m(2) assms(5) unfolding length_take length_drop by linarith
  have pend: "\<forall>r \<in> set (su_pending su). cn_sequence r \<le> length log"
    and last: "su_last su = int pos" using assms(3,4) by (simp_all add: feed_sub_ok_def)
  define short where "short \<longleftrightarrow> m = length ?page \<and> m < tr_batch t"
  have end_: "short \<Longrightarrow> pos + m = length log" using assms(5) by (auto simp: short_def)
  have dr: "short \<Longrightarrow> drain (sort_key cn_sequence (su_pending su)) [] st = (False, [], st)"
    using pend end_ by (intro drain_behind) (simp add: m(4))
  define pending where "pending = (if short then [] else su_pending su)"
  let ?complete = "(\<forall>r \<in> set pending. int (cn_sequence r) \<le> rs_cursor st) \<and> int (length log) \<le> rs_cursor st"
  define su' where "su' = su\<lparr>su_last := int (pos + m), su_pending := pending, su_replay := \<not> ?complete\<rparr>"
  define res where "res = \<lparr>rr_session = i, rr_events = rs_events st, rr_latest = length log, rr_complete = ?complete\<rparr>"
  have cursor: "(if rs_events st = [] then su_last su else rs_cursor st) = int (pos + m)"
    using len by (auto simp: m(4) last)
  have complete: "?complete = (pos + m = length log)"
    using le pend by (auto simp: m(4) pending_def)
  have cond: "(length (rs_events st) = length ?page \<and> length (rs_events st) < tr_batch t) = short"
    by (simp only: short_def len)
  have eq: "replay_into c i (int pos) su ?page s t = (Inr res, put_sub c i su' t)"
    unfolding replay_into_def m(1) prod.case bool.case cond
    by (cases short) (simp_all add: dr Let_def cursor ls res_def su'_def pending_def)
  have ev: "rr_events res = map toWireEvent (take m (drop pos log))"
  proof -
    have "m \<le> tr_batch t" using m(2) by simp
    then show ?thesis by (simp add: res_def m(3) min_absorb1)
  qed
  have pos: "0 < m" if "pos < length log"
    using that m(5) assms(6) by simp
  have ok: "feed_sub_ok log (pos + m) su'" using pend unfolding su'_def complete by (simp add: feed_sub_ok_def pending_def)
  have "rr_complete res = (pos + m = length log)" unfolding res_def complete by simp
  from that [OF eq ev le pos this ok] show ?thesis .
qed

lemma prefix_taken: "prefix xs (map f ys) \<Longrightarrow> xs = map f (take (length xs) ys)"
  by (metis append_eq_conv_conj prefix_def take_map)

lemma client_position:
  assumes "feed_ok c i start w"
  shows "client_cursor start (w_seen w) = int (start + length (w_seen w))"
proof (cases "w_seen w = []")
  case False
  let ?log = "session_log (w_store w) i" and ?n = "length (w_seen w)"
  have seen0: "prefix (w_seen w) (map toWireEvent (drop start ?log))" and le: "start + ?n \<le> length ?log"
    and ok: "canon_ok (w_store w)" using assms by (simp_all add: feed_ok_def Let_def)
  note seen = prefix_taken [OF seen0] le
  have n: "0 < ?n" using False by simp
  have k: "start + ?n - 1 < length ?log" using seen(2) n by linarith
  have "last (w_seen w) = w_seen w ! (?n - 1)" by (rule last_conv_nth [OF False])
  also have "\<dots> = map toWireEvent (take ?n (drop start ?log)) ! (?n - 1)" using seen(1) by simp
  also have "\<dots> = toWireEvent (?log ! (start + (?n - 1)))" using n k by simp
  also have "start + (?n - 1) = start + ?n - 1" using n by linarith
  finally have l: "last (w_seen w) = toWireEvent (?log ! (start + ?n - 1))" by simp
  have "map cn_sequence ?log ! (start + ?n - 1) = start + ?n"
    using canon_okD(1) [OF ok, of i] k n unfolding numbered_def by (simp del: upt_Suc)
  then have "cn_sequence (?log ! (start + ?n - 1)) = start + ?n" using k by simp
  then show ?thesis
    using False by (simp add: client_cursor_def l frame_sequence_def prop_get_def toWireEvent_def)
qed (simp add: client_cursor_def)

lemma sync_client_ok:
  assumes "feed_ok c i start w" "c \<noteq> []" "i \<noteq> []"
  obtains complete w' where "sync_client c i start w = (Inr complete, w')" "feed_ok c i start w'" "w_store w' = w_store w"
    "complete \<longleftrightarrow> start + length (w_seen w') = length (session_log (w_store w) i)"
    "start + length (w_seen w) < length (session_log (w_store w) i) \<Longrightarrow> length (w_seen w) < length (w_seen w')"
proof -
  let ?s = "w_store w" and ?t = "w_transport w"
  define log where "log = session_log ?s i"
  define n where "n = length (w_seen w)"
  define pos where "pos = start + n"
  note ok = assms(1) [unfolded feed_ok_def Let_def, folded log_def n_def, folded pos_def]
  have cur: "client_cursor start (w_seen w) = int pos" using client_position [OF assms(1)] by (simp add: pos_def n_def)
  from ok have b: "1 \<le> tr_batch ?t" "tr_batch ?t \<le> 4096" "pos \<le> length log" "canon_ok ?s"
    and subs: "\<forall>su. sub_of ?t c i = Some su \<longrightarrow> feed_sub_ok log pos su"
    and seen0: "prefix (w_seen w) (map toWireEvent (drop start log))"
    and rest: "keys_distinct ?t" "tr_listening ?t" by simp_all
  have page: "readAfter ?s i (int pos) (Some (int (tr_batch ?t))) = Inr (take (tr_batch ?t) (drop pos log))"
    using readAfter_log [OF b(4) assms(3), of pos "tr_batch ?t"] b(2) by (simp add: log_def min_def)
  define existing where "existing = (case sub_of ?t c i of Some su \<Rightarrow> if su_replay su then Some su else None | None \<Rightarrow> None)"
  define su where "su = (case existing of Some su \<Rightarrow> su | None \<Rightarrow> \<lparr>su_last = int pos, su_replay = True, su_pending = []\<rparr>)"
  have su: "feed_sub_ok log pos su" "su_replay su" "\<not> (\<exists>su \<in> set_option existing. int pos \<noteq> su_last su)"
  proof -
    have "(\<exists>su0. existing = Some su0 \<and> feed_sub_ok log pos su0 \<and> su_replay su0) \<or> existing = None"
      using subs by (cases "sub_of ?t c i") (simp_all add: existing_def)
    then show "feed_sub_ok log pos su" "su_replay su" "\<not> (\<exists>su \<in> set_option existing. int pos \<noteq> su_last su)"
      by (auto simp: su_def feed_sub_ok_def)
  qed
  obtain m res su' where m:
    "replay_into c i (int pos) su (take (tr_batch ?t) (drop pos log)) ?s ?t = (Inr res, put_sub c i su' ?t)"
    "rr_events res = map toWireEvent (take m (drop pos log))" "pos + m \<le> length log" "pos < length log \<Longrightarrow> 0 < m"
    "rr_complete res \<longleftrightarrow> pos + m = length log" "feed_sub_ok log (pos + m) su'"
    by (rule replay_into_log [OF log_def b(4) su(1,2) b(3,1)]) (rule that; (assumption | simp))
  have sub: "subscribe c i (int pos) ?s ?t = (Inr res, put_sub c i su' ?t)"
    using su(3) m(1) assms(2,3)
    by (simp add: subscribe_def existing_def [symmetric] Let_def page su_def)
  let ?w = "w\<lparr>w_transport := put_sub c i su' ?t, w_seen := w_seen w @ rr_events res\<rparr>"
  have eq: "sync_client c i start w = (Inr (rr_complete res), ?w)" by (simp add: sync_client_def cur sub)
  have len: "length (w_seen ?w) = n + m" using m(3) by (simp add: m(2) n_def min_absorb2)
  have "w_seen w = map toWireEvent (take n (drop start log))" using prefix_taken [OF seen0] by (simp add: n_def)
  then have "w_seen ?w = map toWireEvent (take n (drop start log)) @ map toWireEvent (take m (drop pos log))"
    by (simp add: m(2))
  also have "\<dots> = map toWireEvent (take (n + m) (drop start log))"
    unfolding take_add pos_def by (simp add: add.commute)
  finally have seen: "prefix (w_seen ?w) (map toWireEvent (drop start log))" by (simp add: map_mono_prefix take_is_prefix)
  have fin: "feed_ok c i start ?w"
    unfolding feed_ok_def Let_def len using b rest seen m(3,6) by (simp add: log_def [symmetric] pos_def add.assoc)
  show ?thesis
  proof (rule that [OF eq fin])
    show "rr_complete res \<longleftrightarrow> start + length (w_seen ?w) = length (session_log ?s i)"
      using m(5) unfolding len by (simp add: log_def [symmetric] pos_def add.assoc)
    show "length (w_seen w) < length (w_seen ?w)" if "start + length (w_seen w) < length (session_log ?s i)"
      using that m(4) unfolding len by (simp add: log_def [symmetric] pos_def n_def)
  qed simp
qed

section \<open>Every step keeps the client in place\<close>

lemma feed_ok_transport:
  assumes "feed_ok c i start w" "keys_distinct t" "tr_listening t" "tr_batch t = tr_batch (w_transport w)"
    "sub_of t c i = sub_of (w_transport w) c i \<or> sub_of t c i = None"
  shows "feed_ok c i start (w\<lparr>w_transport := t\<rparr>)"
  using assms unfolding feed_ok_def Let_def world.simps
  by (elim conjE disjE; intro conjI allI impI) simp_all

lemma subscribe_frame:
  shows "tr_batch (snd (subscribe c i n s t)) = tr_batch t" "tr_listening (snd (subscribe c i n s t)) = tr_listening t"
    "keys_distinct t \<Longrightarrow> keys_distinct (snd (subscribe c i n s t))"
    "(c', i') \<noteq> (c, i) \<Longrightarrow> sub_of (snd (subscribe c i n s t)) c' i' = sub_of t c' i'"
proof -
  have r: "\<exists>su'. snd (replay_into c i n su page s t) = put_sub c i su' t" for su page
  proof -
    obtain g st where g: "replay_page page \<lparr>rs_events = [], rs_bytes = 0, rs_cursor = n\<rparr> = (g, st)" by fastforce
    show ?thesis by (cases g) (auto simp: replay_into_def g Let_def split: prod.splits)
  qed
  have "snd (subscribe c i n s t) = t \<or> (\<exists>su'. snd (subscribe c i n s t) = put_sub c i su' t)"
    unfolding subscribe_def Let_def using r by (auto split: sum.splits)
  then show "tr_batch (snd (subscribe c i n s t)) = tr_batch t" "tr_listening (snd (subscribe c i n s t)) = tr_listening t"
    "keys_distinct t \<Longrightarrow> keys_distinct (snd (subscribe c i n s t))"
    "(c', i') \<noteq> (c, i) \<Longrightarrow> sub_of (snd (subscribe c i n s t)) c' i' = sub_of t c' i'" by auto
qed

lemma feed_ok_disconnect:
  "feed_ok c i start w \<Longrightarrow> feed_ok c i start (w\<lparr>w_transport := disconnect c' (w_transport w)\<rparr>)"
  by (rule feed_ok_transport) (simp_all add: feed_ok_def Let_def)

lemma feed_ok_other:
  "feed_ok c i start w \<Longrightarrow> (c', i') \<noteq> (c, i) \<Longrightarrow>
   feed_ok c i start (w\<lparr>w_transport := snd (subscribe c' i' n (w_store w) (w_transport w))\<rparr>)"
  by (rule feed_ok_transport) (simp_all add: feed_ok_def Let_def subscribe_frame(1-3), rule disjI1, rule subscribe_frame(4), auto)

lemma feed_ok_store:
  assumes "feed_ok c i start w" "canon_events s = canon_events (w_store w)" "canon_sequences s = canon_sequences (w_store w)"
  shows "feed_ok c i start (w\<lparr>w_store := s\<rparr>)"
proof -
  have "session_log s j = session_log (w_store w) j" for j by (simp add: session_log_def assms(2))
  moreover have "canon_ok s = canon_ok (w_store w)"
    by (simp add: canon_ok_def session_log_def last_sequence_def assms(2,3))
  ultimately show ?thesis using assms(1) unfolding feed_ok_def Let_def
    by (elim conjE; intro conjI allI impI) simp_all
qed

text \<open>An event of the session reaches the client once if it is caught up, and is buffered for it otherwise.\<close>

lemma deliver_one_ok:
  assumes "feed_sub_ok log pos su" "cn_sequence row = Suc (length log)"
  shows "fst (deliver_one limit row su) = (\<not> su_replay su)"
    "feed_sub_ok (log @ [row]) (if su_replay su then pos else Suc pos) (snd (deliver_one limit row su))"
proof -
  have "r \<in> set (tl (su_pending su)) \<Longrightarrow> r \<in> set (su_pending su)" for r by (cases "su_pending su") auto
  then show "fst (deliver_one limit row su) = (\<not> su_replay su)"
    "feed_sub_ok (log @ [row]) (if su_replay su then pos else Suc pos) (snd (deliver_one limit row su))"
    using assms by (auto simp: deliver_one_def feed_sub_ok_def le_Suc_eq split: if_splits)
qed

lemma feed_ok_new:
  assumes "feed_ok c i start w" "append_new_tx inp (w_store w) = Inr ((row, False), s')"
  shows "feed_ok c i start \<lparr>w_store = s', w_transport = snd (deliverLive row (w_transport w)),
     w_seen = w_seen w @ (if cn_session row = i
        then map (\<lambda>_. toWireEvent row) (filter (\<lambda>x. x = c) (fst (deliverLive row (w_transport w)))) else [])\<rparr>"
proof -
  let ?t = "w_transport w"
  define log where "log = session_log (w_store w) i"
  define pos where "pos = start + length (w_seen w)"
  from assms(1) have ok: "canon_ok (w_store w)" "keys_distinct ?t" "tr_listening ?t" "1 \<le> tr_batch ?t" "tr_batch ?t \<le> 4096"
    "pos \<le> length log" "prefix (w_seen w) (map toWireEvent (drop start log))"
    and sub: "\<And>su. sub_of ?t c i = Some su \<Longrightarrow> feed_sub_ok log pos su"
    by (simp_all add: feed_ok_def Let_def log_def pos_def)
  note n = append_new_row [OF assms(2)] and o = append_new_ok [OF ok(1) assms(2)]
  have log': "session_log s' i = (if cn_session row = i then log @ [row] else log)"
    using o(2) [of i] n(3) by (simp add: log_def)
  show ?thesis
  proof (cases "cn_session row = i")
    case False
    then show ?thesis
      using ok o(1) sub unfolding feed_ok_def Let_def world.simps log'
      by (simp add: sub_of_deliverLive pos_def [symmetric])
  next
    case True
    have seq: "cn_sequence row = Suc (length log)"
      using n(3,4) canon_okD(2) [OF ok(1)] True by (simp add: log_def)
    have start: "start \<le> length log" using ok(6) by (simp add: pos_def)
    show ?thesis
    proof (cases "\<exists>su. sub_of ?t c i = Some su \<and> \<not> su_replay su")
      case live: True
      then obtain su where su: "sub_of ?t c i = Some su" "\<not> su_replay su" by (elim exE conjE) (rule that)
      note d = deliver_one_ok [OF sub [OF su(1)] seq, of "tr_limit ?t"]
      have full: "pos = length log" using sub [OF su(1)] su(2) by (simp add: feed_sub_ok_def)
      have "w_seen w = map toWireEvent (take (length (w_seen w)) (drop start log))" by (rule prefix_taken [OF ok(7)])
      also have "\<dots> = map toWireEvent (drop start log)" using full by (simp add: pos_def)
      finally have seen: "w_seen w = map toWireEvent (drop start log)" .
      show ?thesis
        using ok o(1) d su start full unfolding feed_ok_def Let_def world.simps log'
        by (simp add: sub_of_deliverLive deliverLive_to True seen)
    next
      case quiet: False
      have none: "filter (\<lambda>x. x = c) (fst (deliverLive row ?t)) = []"
        using quiet deliver_one_ok(1) [OF sub seq] by (auto simp: deliverLive_to [OF ok(2)] True split: option.splits)
      have "feed_sub_ok (log @ [row]) pos (snd (deliver_one (tr_limit ?t) row su))" if "sub_of ?t c i = Some su" for su
        using deliver_one_ok(2) [OF sub [OF that] seq] quiet that by (metis (full_types))
      then show ?thesis
        using ok o(1) start prefix_order.trans [OF ok(7), of "map toWireEvent (drop start (log @ [row]))"]
        unfolding feed_ok_def Let_def world.simps log'
        by (auto simp: sub_of_deliverLive none True pos_def [symmetric])
    qed
  qed
qed

lemma db_of_canon: "db_of s' = db_of s \<Longrightarrow> canon_events s' = canon_events s \<and> canon_sequences s' = canon_sequences s"
  by (metis db_of_sel(18,19))

lemma feed_ok_append:
  assumes "feed_ok c i start w"
  shows "feed_ok c i start (append_world c i inp w)"
proof -
  obtain r s' where eq: "append_canonical inp (w_store w) = (r, s')" by (cases "append_canonical inp (w_store w)")
  have same: "append_world c i inp w = w\<lparr>w_store := s'\<rparr>" if "commit_event inp (w_store w, w_transport w) = (None, s', w_transport w)"
    using that by (simp add: append_world_def)
  from eq show ?thesis
  proof (cases rule: append_canonical_cases)
    case (failed e)
    then have "append_world c i inp w = w\<lparr>w_store := s'\<rparr>" by (intro same) (simp add: commit_event_def eq)
    then show ?thesis using feed_ok_store [OF assms, of s'] db_of_canon [OF failed(2)] by simp
  next
    case (known row src)
    then have "append_world c i inp w = w\<lparr>w_store := s'\<rparr>" by (intro same) (simp add: commit_event_def eq)
    then show ?thesis using feed_ok_store [OF assms, of s'] known(2) by simp
  next
    case (new row)
    have l: "tr_listening (w_transport w)" using assms by (simp add: feed_ok_def Let_def)
    have "append_world c i inp w = \<lparr>w_store = s', w_transport = snd (deliverLive row (w_transport w)),
       w_seen = w_seen w @ (if cn_session row = i
          then map (\<lambda>_. toWireEvent row) (filter (\<lambda>x. x = c) (fst (deliverLive row (w_transport w)))) else [])\<rparr>"
      by (simp add: append_world_def commit_event_def eq new(1) l case_prod_unfold Let_def)
    then show ?thesis using feed_ok_new [OF assms new(2)] by simp
  qed
qed

lemma feed_start_ok:
  assumes "feed_start c i start w"
  shows "feed_ok c i start w" "c \<noteq> []" "i \<noteq> []"
  using assms by (simp_all add: feed_start_def feed_ok_def Let_def keys_distinct_def sub_of_def)

lemma feed_reach_ok:
  assumes "feed_start c i start w0" "feed_reach c i start w0 w"
  shows "feed_ok c i start w"
  using assms(2)
proof induction
  case start
  show ?case by (rule feed_start_ok(1) [OF assms(1)])
next
  case (step w w')
  from step.hyps(2) show ?case
  proof cases
    case appended
    then show ?thesis using feed_ok_append [OF step.IH] by simp
  next
    case synced
    then show ?thesis using sync_client_ok [OF step.IH feed_start_ok(2,3) [OF assms(1)]] by (metis snd_conv)
  next
    case other_synced
    then show ?thesis using feed_ok_other [OF step.IH] by simp
  next
    case disconnected
    then show ?thesis using feed_ok_disconnect [OF step.IH] by simp
  next
    case other_store
    then show ?thesis using feed_ok_store [OF step.IH] by simp
  qed
qed

lemma feed_ok_caught_up:
  assumes "feed_ok c i start w" "start + length (w_seen w) = length (session_log (w_store w) i)"
  shows "w_seen w = map toWireEvent (drop start (session_log (w_store w) i))"
proof -
  have "prefix (w_seen w) (map toWireEvent (drop start (session_log (w_store w) i)))"
    using assms(1) by (simp add: feed_ok_def Let_def)
  from prefix_taken [OF this] have "w_seen w = map toWireEvent (take (length (w_seen w)) (drop start (session_log (w_store w) i)))" .
  also have "\<dots> = map toWireEvent (drop start (session_log (w_store w) i))" using assms(2) by simp
  finally show ?thesis .
qed

lemma resync_catches_up:
  assumes "feed_ok c i start w" "c \<noteq> []" "i \<noteq> []"
  shows "\<exists>k \<le> length (session_log (w_store w) i) - (start + length (w_seen w)).
     let w' = ((\<lambda>w. snd (sync_client c i start w)) ^^ k) w in
     fst (sync_client c i start w') = Inr True
     \<and> w_seen (snd (sync_client c i start w')) = map toWireEvent (drop start (session_log (w_store w) i))"
  using assms(1)
proof (induction "length (session_log (w_store w) i) - (start + length (w_seen w))" arbitrary: w rule: less_induct)
  case less
  let ?f = "\<lambda>w. snd (sync_client c i start w)"
  obtain complete w1 where s: "sync_client c i start w = (Inr complete, w1)" "feed_ok c i start w1" "w_store w1 = w_store w"
    "complete \<longleftrightarrow> start + length (w_seen w1) = length (session_log (w_store w) i)"
    "start + length (w_seen w) < length (session_log (w_store w) i) \<Longrightarrow> length (w_seen w) < length (w_seen w1)"
    by (rule sync_client_ok [OF less.prems assms(2,3)]) (rule that; (assumption | simp))
  show ?case
  proof (cases complete)
    case True
    have "w_seen w1 = map toWireEvent (drop start (session_log (w_store w) i))"
      using feed_ok_caught_up [OF s(2)] s(3,4) True by simp
    then show ?thesis by (intro exI [of _ 0]) (simp add: s(1) True)
  next
    case False
    have le: "start + length (w_seen w1) \<le> length (session_log (w_store w) i)"
      "start + length (w_seen w) \<le> length (session_log (w_store w) i)"
      using s(2,3) less.prems by (simp_all add: feed_ok_def Let_def)
    have grow: "length (w_seen w) < length (w_seen w1) \<or> start + length (w_seen w) = length (session_log (w_store w) i)"
      using s(5) le(2) by linarith
    have "length (w_seen w) \<le> length (w_seen w1)"
      using s(1) by (auto simp: sync_client_def split: prod.splits sum.splits)
    then have lt: "length (session_log (w_store w1) i) - (start + length (w_seen w1))
        < length (session_log (w_store w) i) - (start + length (w_seen w))"
      using grow le s(4) False unfolding s(3) by linarith
    obtain k where k: "k \<le> length (session_log (w_store w1) i) - (start + length (w_seen w1))"
      "let w' = (?f ^^ k) w1 in fst (sync_client c i start w') = Inr True
         \<and> w_seen (snd (sync_client c i start w')) = map toWireEvent (drop start (session_log (w_store w1) i))"
      using less.hyps [OF lt s(2)] by blast
    have "(?f ^^ Suc k) w = (?f ^^ k) w1" by (simp only: funpow_Suc_right o_apply s(1) snd_conv)
    moreover have "Suc k \<le> length (session_log (w_store w) i) - (start + length (w_seen w))" using k(1) lt by linarith
    ultimately show ?thesis using k(2) by (intro exI [of _ "Suc k"]) (simp only: s(3) simp_thms)
  qed
qed

section \<open>Properties\<close>

text \<open>
  C25 (canonical_delivery). Whatever else happens - events of this and other sessions are appended or
  refused, other clients subscribe, connections close and come back, other operations change the
  store - a client that always asks for the events after the last one it was given has been given
  exactly the events of its session after its starting point, each once and in order, up to some
  point; while its subscription is live it has been given all of them; and a subscription request of
  it is never refused.
\<close>

theorem canonical_delivery:
  assumes "feed_start c i start w0" and "feed_reach c i start w0 w"
  shows "prefix (w_seen w) (map toWireEvent (drop start (session_log (w_store w) i)))
    \<and> (\<forall>su. sub_of (w_transport w) c i = Some su \<and> \<not> su_replay su \<longrightarrow>
         w_seen w = map toWireEvent (drop start (session_log (w_store w) i)))
    \<and> (\<exists>complete w'. sync_client c i start w = (Inr complete, w'))"
proof (intro conjI allI impI)
  note ok = feed_reach_ok [OF assms]
  show "prefix (w_seen w) (map toWireEvent (drop start (session_log (w_store w) i)))"
    using ok by (simp add: feed_ok_def Let_def)
  show "w_seen w = map toWireEvent (drop start (session_log (w_store w) i))"
    if "sub_of (w_transport w) c i = Some su \<and> \<not> su_replay su" for su
    using that ok by (intro feed_ok_caught_up [OF ok]) (simp add: feed_ok_def Let_def feed_sub_ok_def)
  show "\<exists>complete w'. sync_client c i start w = (Inr complete, w')"
    by (rule sync_client_ok [OF ok feed_start_ok(2,3) [OF assms(1)]]) (intro exI, assumption)
qed

text \<open>
  C26 (canonical_catchup). From any such world, repeating the subscription request ends with a page that
  is marked complete, after at most as many further requests as events are missing, and the client
  then has every event of the session after its starting point.
\<close>

theorem canonical_catchup:
  assumes "feed_start c i start w0" and "feed_reach c i start w0 w"
  shows "\<exists>k \<le> length (session_log (w_store w) i) - (start + length (w_seen w)).
     let w' = ((\<lambda>w. snd (sync_client c i start w)) ^^ k) w in
     fst (sync_client c i start w') = Inr True
     \<and> w_seen (snd (sync_client c i start w')) = map toWireEvent (drop start (session_log (w_store w) i))"
  by (rule resync_catches_up [OF feed_reach_ok [OF assms] feed_start_ok(2,3) [OF assms(1)]])

definition demo_world :: world where
  "demo_world = \<lparr>w_store = demo_store, w_transport = new_transport None None, w_seen = []\<rparr>"

lemma demo_world_start: "feed_start ''c'' ''a'' 0 demo_world"
  by (simp add: feed_start_def demo_world_def demo_canon_ok new_transport_def DEFAULT_REPLAY_BATCH_SIZE_def)

lemma demo_world_reach: "feed_reach ''c'' ''a'' 0 demo_world (append_world ''c'' ''a'' demo_canon_input demo_world)"
  by (rule feed_reach.step [OF feed_reach.start feed_step.appended])

theorem canonical_delivery_witness:
  "\<exists>complete w'. sync_client ''c'' ''a'' 0 (append_world ''c'' ''a'' demo_canon_input demo_world) = (Inr complete, w')"
  using canonical_delivery [OF demo_world_start demo_world_reach] by blast

theorem canonical_catchup_witness:
  "\<exists>k. let w' = ((\<lambda>w. snd (sync_client ''c'' ''a'' 0 w)) ^^ k) (append_world ''c'' ''a'' demo_canon_input demo_world) in
     fst (sync_client ''c'' ''a'' 0 w') = Inr True"
  using canonical_catchup [OF demo_world_start demo_world_reach] by (auto simp: Let_def)

end
