(* ===== verification/Store_Backend.thy ===== *)
theory Store_Backend
  imports Store_Base
begin

text \<open>
  The backend of a session in core/store.ts: which session of which agent backend a bridge session
  stands for (\<open>session_backend_refs\<close>), and the migration of a session from one backend to another
  (\<open>session_migrations\<close>), a small durable state machine with an explicit unknown outcome.
\<close>

section \<open>Input checks\<close>

definition boundedIdentifier :: "string \<Rightarrow> string \<Rightarrow> nat \<Rightarrow> exn option" where
  "boundedIdentifier v name limit =
     (if length v < 1 \<or> limit < length v \<or> list_ex is_control v
      then Some (Store_error Conflict (name @ '' is invalid'')) else None)"

definition reportSafeReason :: "string option \<Rightarrow> string option" where
  "reportSafeReason = map_option (\<lambda>v. take 500 (map (\<lambda>c. if is_control c then CHR '' '' else c) v))"

text \<open>The checks of an operation's arguments, in order; the first that fails is thrown.\<close>

definition first_problem :: "exn option list \<Rightarrow> exn option" where
  "first_problem ps = (case filter (\<lambda>p. p \<noteq> None) ps of [] \<Rightarrow> None | p # _ \<Rightarrow> p)"

definition checked_tx :: "exn option list \<Rightarrow> 'a tx \<Rightarrow> store \<Rightarrow> (exn + 'a) \<times> store" where
  "checked_tx ps m s = (case first_problem ps of Some e \<Rightarrow> (Inl e, s) | None \<Rightarrow> transaction m s)"

definition at_or_now :: "int option \<Rightarrow> store \<Rightarrow> int" where
  "at_or_now at s = (case at of Some t \<Rightarrow> t | None \<Rightarrow> clock s)"

section \<open>Backend references\<close>

definition ref_of :: "store \<Rightarrow> string \<Rightarrow> ref_row option" where
  "ref_of s i = find (\<lambda>r. rf_session r = i) (backend_refs s)"

definition ref_owner :: "store \<Rightarrow> string \<Rightarrow> string \<Rightarrow> ref_row option" where
  "ref_owner s kind b = find (\<lambda>r. rf_kind r = kind \<and> rf_backend r = b) (backend_refs s)"

definition backendSession :: "store \<Rightarrow> string \<Rightarrow> exn + ref_row option" where
  "backendSession s i =
     (case boundedIdentifier i ''bridge session ID'' 256 of Some e \<Rightarrow> Inl e | None \<Rightarrow> Inr (ref_of s i))"

definition taken_by_other :: "store \<Rightarrow> string \<Rightarrow> string \<Rightarrow> string \<Rightarrow> bool" where
  "taken_by_other s kind b i = (case ref_owner s kind b of Some r \<Rightarrow> rf_session r \<noteq> i | None \<Rightarrow> False)"

definition ref_or_io :: "string \<Rightarrow> string \<Rightarrow> ref_row tx" where
  "ref_or_io i msg s = (case ref_of s i of Some r \<Rightarrow> Inr (r, s) | None \<Rightarrow> Inl (Store_error Io msg))"

definition ensureBackendSession_tx :: "string \<Rightarrow> string \<Rightarrow> string \<Rightarrow> string \<Rightarrow> int option \<Rightarrow> ref_row tx" where
  "ensureBackendSession_tx i kind b file at s0 =
     (let t = at_or_now at s0;
          s = (if sessionExists s0 i then s0
               else s0\<lparr>sessions := sessions s0 @ [\<lparr>sn_id = i, sn_state = [], sn_created = t, sn_updated = t\<rparr>]\<rparr>) in
      case ref_of s i of
        Some existing \<Rightarrow>
          if rf_kind existing \<noteq> kind \<or> rf_file existing \<noteq> file
          then Inl (Store_error Conflict ''bridge session backend reference conflicts'')
          else if taken_by_other s kind b i
          then Inl (Store_error Conflict ''backend session reference is already assigned'')
          else if rf_backend existing = b then Inr (existing, s)
          else ref_or_io i ''backend reference missing after update''
                 (s\<lparr>backend_refs := map (\<lambda>r. if rf_session r = i then r\<lparr>rf_backend := b, rf_updated := t\<rparr> else r) (backend_refs s)\<rparr>)
      | None \<Rightarrow>
          if taken_by_other s kind b i
          then Inl (Store_error Conflict ''backend session reference is already assigned'')
          else ref_or_io i ''backend reference missing after insert''
                 (s\<lparr>backend_refs := backend_refs s @
                    [\<lparr>rf_session = i, rf_kind = kind, rf_backend = b, rf_file = file, rf_created = t, rf_updated = t\<rparr>]\<rparr>))"

definition ensureBackendSession :: "string \<Rightarrow> string \<Rightarrow> string \<Rightarrow> string \<Rightarrow> int option \<Rightarrow> store \<Rightarrow> (exn + ref_row) \<times> store" where
  "ensureBackendSession i kind b file at =
     checked_tx [boundedIdentifier i ''bridge session ID'' 256, boundedIdentifier kind ''backend kind'' 32,
                 boundedIdentifier b ''backend session ID'' 256, boundedIdentifier file ''backend session file'' 4096]
       (ensureBackendSession_tx i kind b file at)"

section \<open>Migrations\<close>

definition migration_of :: "store \<Rightarrow> string \<Rightarrow> migration_row option" where
  "migration_of s i = find (\<lambda>m. mg_session m = i) (migrations s)"

definition backendMigration :: "store \<Rightarrow> string \<Rightarrow> exn + migration_row option" where
  "backendMigration s i =
     (case boundedIdentifier i ''bridge session ID'' 256 of Some e \<Rightarrow> Inl e | None \<Rightarrow> Inr (migration_of s i))"

definition migration_or_io :: "string \<Rightarrow> string \<Rightarrow> migration_row tx" where
  "migration_or_io i msg s = (case migration_of s i of Some m \<Rightarrow> Inr (m, s) | None \<Rightarrow> Inl (Store_error Io msg))"

text \<open>\<open>UPDATE session_migrations SET \<dots> WHERE bridge_session_id=? AND migration_id=? AND \<dots>\<close>.\<close>

definition update_migrations :: "string \<Rightarrow> string \<Rightarrow> (migration_row \<Rightarrow> bool) \<Rightarrow> (migration_row \<Rightarrow> migration_row) \<Rightarrow> store \<Rightarrow> store" where
  "update_migrations i k P f s =
     s\<lparr>migrations := map (\<lambda>m. if mg_session m = i \<and> mg_id m = k \<and> P m then f m else m) (migrations s)\<rparr>"

definition beginBackendMigration_tx :: "string \<Rightarrow> string \<Rightarrow> string \<Rightarrow> string \<Rightarrow> bool \<Rightarrow> int option \<Rightarrow> migration_row tx" where
  "beginBackendMigration_tx i k src dst retryable at s =
     (let t = at_or_now at s in
      if \<not> sessionExists s i then Inl (Store_error Not_found ''session not found'')
      else case migration_of s i of
        Some m \<Rightarrow>
          if mg_id m \<noteq> k \<or> mg_from m \<noteq> src \<or> mg_to m \<noteq> dst
          then Inl (Store_error Conflict ''bridge session already has a different migration'')
          else Inr (m, s)
      | None \<Rightarrow>
          if \<exists>m \<in> set (migrations s). mg_id m = k then Inl (Store_error Conflict ''migration ID is already in use'')
          else migration_or_io i ''migration row missing after insert''
            (s\<lparr>migrations := migrations s @
               [\<lparr>mg_session = i, mg_id = k, mg_from = src, mg_to = dst, mg_state = Running, mg_outcome = None,
                 mg_reason = None, mg_attempt = 1, mg_retryable = retryable, mg_started = t, mg_completed = None,
                 mg_updated = t\<rparr>]\<rparr>))"

definition beginBackendMigration :: "string \<Rightarrow> string \<Rightarrow> string \<Rightarrow> string \<Rightarrow> bool \<Rightarrow> int option \<Rightarrow> store \<Rightarrow> (exn + migration_row) \<times> store" where
  "beginBackendMigration i k src dst retryable at =
     checked_tx [boundedIdentifier i ''bridge session ID'' 256, boundedIdentifier k ''migration ID'' 256,
                 boundedIdentifier src ''source backend kind'' 32, boundedIdentifier dst ''target backend kind'' 32,
                 if src = dst then Some (Store_error Conflict ''migration source and target backends must differ'') else None]
       (beginBackendMigration_tx i k src dst retryable at)"

text \<open>The lookup every later operation starts with.\<close>

definition prior_migration :: "string \<Rightarrow> string \<Rightarrow> (migration_row \<Rightarrow> migration_row tx) \<Rightarrow> migration_row tx" where
  "prior_migration i k f s =
     (case migration_of s i of
        Some m \<Rightarrow> if mg_id m \<noteq> k then Inl (Store_error Not_found ''migration not found'') else f m s
      | None \<Rightarrow> Inl (Store_error Not_found ''migration not found''))"

definition migration_checks :: "string \<Rightarrow> string \<Rightarrow> exn option list" where
  "migration_checks i k = [boundedIdentifier i ''bridge session ID'' 256, boundedIdentifier k ''migration ID'' 256]"

text \<open>The row an outcome leaves, shared by completion and recovery; the outcome is succeeded or failed.\<close>

definition settled :: "bool \<Rightarrow> string option \<Rightarrow> bool \<Rightarrow> int \<Rightarrow> migration_row \<Rightarrow> migration_row" where
  "settled ok reason retryable t m =
     m\<lparr>mg_state := (if ok then Completed else Failed), mg_outcome := Some (if ok then Succeeded else Outcome_failed),
       mg_reason := reportSafeReason reason, mg_retryable := (\<not> ok \<and> retryable), mg_completed := Some t, mg_updated := t\<rparr>"

definition completeBackendMigration :: "string \<Rightarrow> string \<Rightarrow> bool \<Rightarrow> string option \<Rightarrow> bool \<Rightarrow> int option \<Rightarrow> store \<Rightarrow> (exn + migration_row) \<times> store" where
  "completeBackendMigration i k ok reason retryable at =
     checked_tx (migration_checks i k) (prior_migration i k (\<lambda>m s.
       if mg_state m = Indeterminate
       then Inl (Store_error Conflict ''indeterminate migration requires explicit recovery'')
       else if mg_state m = Completed \<or> mg_state m = Failed
       then if mg_outcome m = Some (if ok then Succeeded else Outcome_failed) then Inr (m, s)
            else Inl (Store_error Conflict ''migration outcome conflicts with durable outcome'')
       else migration_or_io i ''migration row missing after completion''
              (update_migrations i k (\<lambda>m. mg_state m = Running) (settled ok reason retryable (at_or_now at s)) s)))"

definition markBackendMigrationIndeterminate :: "string \<Rightarrow> string \<Rightarrow> string \<Rightarrow> int option \<Rightarrow> store \<Rightarrow> (exn + migration_row) \<times> store" where
  "markBackendMigrationIndeterminate i k reason at =
     checked_tx (migration_checks i k) (prior_migration i k (\<lambda>m s.
       if mg_state m = Indeterminate then Inr (m, s)
       else if mg_state m \<noteq> Running then Inl (Store_error Conflict ''terminal migration cannot become indeterminate'')
       else migration_or_io i ''migration row missing after transition''
              (update_migrations i k (\<lambda>m. mg_state m = Running)
                 (\<lambda>m. m\<lparr>mg_state := Indeterminate, mg_outcome := Some Unknown, mg_reason := reportSafeReason (Some reason),
                        mg_completed := None, mg_updated := at_or_now at s\<rparr>) s)))"

definition recoverBackendMigration :: "string \<Rightarrow> string \<Rightarrow> bool \<Rightarrow> string \<Rightarrow> bool \<Rightarrow> int option \<Rightarrow> store \<Rightarrow> (exn + migration_row) \<times> store" where
  "recoverBackendMigration i k ok reason retryable at =
     checked_tx (migration_checks i k) (prior_migration i k (\<lambda>m s.
       if mg_state m \<noteq> Indeterminate
       then if mg_outcome m = Some (if ok then Succeeded else Outcome_failed) then Inr (m, s)
            else Inl (Store_error Conflict ''migration is not indeterminate'')
       else migration_or_io i ''migration row missing after recovery''
              (update_migrations i k (\<lambda>m. mg_state m = Indeterminate) (settled ok (Some reason) retryable (at_or_now at s)) s)))"

definition retryBackendMigration :: "string \<Rightarrow> string \<Rightarrow> int option \<Rightarrow> store \<Rightarrow> (exn + migration_row) \<times> store" where
  "retryBackendMigration i k at =
     checked_tx (migration_checks i k) (prior_migration i k (\<lambda>m s.
       if mg_state m = Running then Inr (m, s)
       else if mg_state m = Indeterminate
       then Inl (Store_error Conflict ''indeterminate migration requires explicit recovery'')
       else if mg_state m \<noteq> Failed \<or> \<not> mg_retryable m then Inl (Store_error Conflict ''migration is not retryable'')
       else migration_or_io i ''migration row missing after retry''
              (update_migrations i k (\<lambda>m. mg_state m = Failed \<and> mg_retryable m)
                 (\<lambda>m. m\<lparr>mg_state := Running, mg_outcome := None, mg_reason := None, mg_attempt := mg_attempt m + 1,
                        mg_completed := None, mg_updated := at_or_now at s\<rparr>) s)))"

section \<open>The abstract machine\<close>

text \<open>
  What a migration is to its owner: nothing yet, or its identity with a phase and the number of the attempt.
  \<open>migration_spec\<close> is what each operation does to the migration of the session it addresses, or that it is refused.
\<close>

datatype phase = In_progress | Succeeded_for_good | Failed_for_good | Failed_retryable | Unknown_outcome

type_synonym migration_view = "(string \<times> string \<times> string \<times> phase \<times> nat) option"

datatype migration_op =
    Begin string string string string bool "int option"
  | Complete string string bool "string option" bool "int option"
  | Lose string string string "int option"
  | Recover string string bool string bool "int option"
  | Retry string string "int option"

fun run_migration :: "migration_op \<Rightarrow> store \<Rightarrow> (exn + migration_row) \<times> store" where
  "run_migration (Begin i k src dst r at) = beginBackendMigration i k src dst r at"
| "run_migration (Complete i k ok why r at) = completeBackendMigration i k ok why r at"
| "run_migration (Lose i k why at) = markBackendMigrationIndeterminate i k why at"
| "run_migration (Recover i k ok why r at) = recoverBackendMigration i k ok why r at"
| "run_migration (Retry i k at) = retryBackendMigration i k at"

fun op_session :: "migration_op \<Rightarrow> string" where
  "op_session (Begin i k src dst r at) = i"
| "op_session (Complete i k ok why r at) = i"
| "op_session (Lose i k why at) = i"
| "op_session (Recover i k ok why r at) = i"
| "op_session (Retry i k at) = i"

definition outcome_phase :: "bool \<Rightarrow> bool \<Rightarrow> phase" where
  "outcome_phase ok retryable = (if ok then Succeeded_for_good else if retryable then Failed_retryable else Failed_for_good)"

text \<open>An outcome reported again is accepted when it is the one recorded.\<close>

definition same_outcome :: "bool \<Rightarrow> phase \<Rightarrow> bool" where
  "same_outcome ok p \<longleftrightarrow> (if ok then p = Succeeded_for_good else p = Failed_for_good \<or> p = Failed_retryable)"

fun migration_spec :: "migration_op \<Rightarrow> migration_view \<Rightarrow> migration_view option" where
  "migration_spec (Begin i k src dst r at) v =
     (case v of None \<Rightarrow> Some (Some (k, src, dst, In_progress, 1))
      | Some (k', src', dst', p, n) \<Rightarrow> if k' = k \<and> src' = src \<and> dst' = dst then Some v else None)"
| "migration_spec (Complete i k ok why r at) v =
     (case v of None \<Rightarrow> None
      | Some (k', src, dst, p, n) \<Rightarrow>
          if k' \<noteq> k then None
          else if p = In_progress then Some (Some (k, src, dst, outcome_phase ok r, n))
          else if same_outcome ok p then Some v else None)"
| "migration_spec (Lose i k why at) v =
     (case v of None \<Rightarrow> None
      | Some (k', src, dst, p, n) \<Rightarrow>
          if k' = k \<and> (p = In_progress \<or> p = Unknown_outcome) then Some (Some (k, src, dst, Unknown_outcome, n)) else None)"
| "migration_spec (Recover i k ok why r at) v =
     (case v of None \<Rightarrow> None
      | Some (k', src, dst, p, n) \<Rightarrow>
          if k' \<noteq> k then None
          else if p = Unknown_outcome then Some (Some (k, src, dst, outcome_phase ok r, n))
          else if same_outcome ok p then Some v else None)"
| "migration_spec (Retry i k at) v =
     (case v of None \<Rightarrow> None
      | Some (k', src, dst, p, n) \<Rightarrow>
          if k' \<noteq> k then None
          else if p = In_progress then Some v
          else if p = Failed_retryable then Some (Some (k, src, dst, In_progress, Suc n)) else None)"

definition row_phase :: "migration_row \<Rightarrow> phase" where
  "row_phase m = (case mg_state m of
     Running \<Rightarrow> In_progress | Completed \<Rightarrow> Succeeded_for_good
   | Failed \<Rightarrow> (if mg_retryable m then Failed_retryable else Failed_for_good) | Indeterminate \<Rightarrow> Unknown_outcome)"

definition migration_view :: "store \<Rightarrow> string \<Rightarrow> migration_view" where
  "migration_view s i = map_option (\<lambda>m. (mg_id m, mg_from m, mg_to m, row_phase m, mg_attempt m)) (migration_of s i)"

text \<open>The keys and the CHECK constraint of the table.\<close>

definition row_consistent :: "migration_row \<Rightarrow> bool" where
  "row_consistent m \<longleftrightarrow> 1 \<le> mg_attempt m \<and> (case mg_state m of
     Running \<Rightarrow> mg_outcome m = None \<and> mg_completed m = None
   | Completed \<Rightarrow> mg_outcome m = Some Succeeded \<and> mg_completed m \<noteq> None
   | Failed \<Rightarrow> mg_outcome m = Some Outcome_failed \<and> mg_completed m \<noteq> None
   | Indeterminate \<Rightarrow> mg_outcome m = Some Unknown \<and> mg_completed m = None)"

definition migrations_ok :: "store \<Rightarrow> bool" where
  "migrations_ok s \<longleftrightarrow> distinct (map mg_session (migrations s)) \<and> distinct (map mg_id (migrations s))
     \<and> (\<forall>m \<in> set (migrations s). row_consistent m)"

text \<open>The arguments are in bounds and, for a new migration, the session exists and the identifier is free.\<close>

fun op_checks :: "migration_op \<Rightarrow> exn option list" where
  "op_checks (Begin i k src dst r at) =
     [boundedIdentifier i ''bridge session ID'' 256, boundedIdentifier k ''migration ID'' 256,
      boundedIdentifier src ''source backend kind'' 32, boundedIdentifier dst ''target backend kind'' 32,
      if src = dst then Some (Store_error Conflict ''migration source and target backends must differ'') else None]"
| "op_checks (Complete i k ok why r at) = migration_checks i k"
| "op_checks (Lose i k why at) = migration_checks i k"
| "op_checks (Recover i k ok why r at) = migration_checks i k"
| "op_checks (Retry i k at) = migration_checks i k"

definition op_possible :: "store \<Rightarrow> migration_op \<Rightarrow> bool" where
  "op_possible s op \<longleftrightarrow>
     (case op of Begin i k src dst r at \<Rightarrow>
        sessionExists s i \<and> (migration_of s i = None \<longrightarrow> k \<notin> mg_id ` set (migrations s)) | _ \<Rightarrow> True)"

section \<open>Operations refine the abstract machine\<close>

lemma migration_of_SomeD: "migration_of s i = Some m \<Longrightarrow> m \<in> set (migrations s) \<and> mg_session m = i"
  unfolding migration_of_def using find_SomeD by fast

lemma update_migrations_ok:
  assumes ok: "migrations_ok s" and m: "migration_of s i = Some m" "mg_id m = k" "P m"
    and f: "\<And>x. mg_session (f x) = mg_session x" "\<And>x. mg_id (f x) = mg_id x" "row_consistent (f m)"
  shows "migrations_ok (update_migrations i k P f s)"
    "migration_of (update_migrations i k P f s) j = (if j = i then Some (f m) else migration_of s j)"
proof -
  let ?g = "\<lambda>m. if mg_session m = i \<and> mg_id m = k \<and> P m then f m else m"
  have uniq: "x = m" if "x \<in> set (migrations s)" "mg_session x = i" for x
    using that migration_of_SomeD [OF m(1)] ok find_unique [of mg_session "migrations s"]
    by (metis migrations_ok_def option.inject)
  have keys: "map mg_session (map ?g (migrations s)) = map mg_session (migrations s)"
    "map mg_id (map ?g (migrations s)) = map mg_id (migrations s)"
    using f(1,2) by simp_all
  have "\<forall>x \<in> set (map ?g (migrations s)). row_consistent x"
    using uniq f(3) ok by (auto simp: migrations_ok_def)
  then show "migrations_ok (update_migrations i k P f s)"
  proof -
    have "migrations (update_migrations i k P f s) = map ?g (migrations s)" by (simp add: update_migrations_def)
    then show ?thesis
      using ok \<open>\<forall>x \<in> set (map ?g (migrations s)). row_consistent x\<close> unfolding migrations_ok_def by (simp only: keys)
  qed
  have g: "mg_session (?g x) = mg_session x" for x using f(1) by simp
  have "migration_of (update_migrations i k P f s) j = map_option ?g (migration_of s j)"
    unfolding migration_of_def update_migrations_def using find_map_key [of mg_session ?g j "migrations s"] g by simp
  also have "\<dots> = (if j = i then Some (f m) else migration_of s j)"
  proof (cases "j = i")
    case True
    then show ?thesis using m migration_of_SomeD [OF m(1)] by simp
  next
    case False
    then show ?thesis by (cases "migration_of s j") (use migration_of_SomeD [of s j] in auto)
  qed
  finally show "migration_of (update_migrations i k P f s) j = (if j = i then Some (f m) else migration_of s j)" .
qed

text \<open>
  A transaction body that does to the migrations what the specification says: it throws where that refuses, and
  otherwise returns the new row of the session, whose view is the specified one, and leaves every other row alone.
\<close>

definition refines_op :: "migration_op \<Rightarrow> migration_row tx \<Rightarrow> store \<Rightarrow> bool" where
  "refines_op op m s \<longleftrightarrow>
     (case m s of
        Inl e \<Rightarrow> \<not> op_possible s op \<or> migration_spec op (migration_view s (op_session op)) = None
      | Inr (a, s') \<Rightarrow> op_possible s op \<and> migrations_ok s'
          \<and> (\<forall>j. migration_of s' j = (if j = op_session op then Some a else migration_of s j))
          \<and> migration_spec op (migration_view s (op_session op)) = Some (migration_view s' (op_session op)))"

lemma refines_update:
  assumes ok: "migrations_ok s" and pos: "op_possible s op" and m: "migration_of s i = Some a" "mg_id a = k" "P a"
    and f: "\<And>x. mg_session (f x) = mg_session x" "\<And>x. mg_id (f x) = mg_id x" "row_consistent (f a)"
    and i: "op_session op = i" and run: "m s = migration_or_io i msg (update_migrations i k P f s)"
    and spec: "migration_spec op (migration_view s i) = Some (Some (mg_id (f a), mg_from (f a), mg_to (f a), row_phase (f a), mg_attempt (f a)))"
  shows "refines_op op m s"
proof -
  note u = update_migrations_ok [where f = f and P = P, OF ok m f]
  show ?thesis using u(1) spec pos by (simp add: refines_op_def run migration_or_io_def u(2) i migration_view_def)
qed

lemma settled_sel [simp]:
  "mg_session (settled ok reason r t m) = mg_session m" "mg_id (settled ok reason r t m) = mg_id m"
  "mg_from (settled ok reason r t m) = mg_from m" "mg_to (settled ok reason r t m) = mg_to m"
  "mg_attempt (settled ok reason r t m) = mg_attempt m"
  by (simp_all add: settled_def)

lemma prior_refines:
  assumes "migrations_ok s"
    and "migration_of s (op_session op) = None \<Longrightarrow> migration_spec op None = None"
    and "\<And>a. migration_of s (op_session op) = Some a \<Longrightarrow> mg_id a \<noteq> k \<Longrightarrow> migration_spec op (migration_view s (op_session op)) = None"
    and "\<And>a. migration_of s (op_session op) = Some a \<Longrightarrow> mg_id a = k \<Longrightarrow> row_consistent a \<Longrightarrow> refines_op op (f a) s"
  shows "refines_op op (prior_migration (op_session op) k f) s"
proof (cases "migration_of s (op_session op)")
  case None
  then show ?thesis using assms(2) by (simp add: refines_op_def prior_migration_def migration_view_def)
next
  case (Some a)
  have "row_consistent a" using migration_of_SomeD [OF Some] assms(1) by (simp add: migrations_ok_def)
  then show ?thesis using assms(3,4) Some by (cases "mg_id a = k") (simp_all add: refines_op_def prior_migration_def)
qed

lemma begin_refines:
  assumes ok: "migrations_ok s"
  shows "refines_op (Begin i k src dst r at) (beginBackendMigration_tx i k src dst r at) s"
proof (cases "sessionExists s i \<and> migration_of s i = None \<and> k \<notin> mg_id ` set (migrations s)")
  case True
  let ?m = "\<lparr>mg_session = i, mg_id = k, mg_from = src, mg_to = dst, mg_state = Running, mg_outcome = None,
     mg_reason = None, mg_attempt = 1, mg_retryable = r, mg_started = at_or_now at s, mg_completed = None,
     mg_updated = at_or_now at s\<rparr>"
  let ?t = "s\<lparr>migrations := migrations s @ [?m]\<rparr>"
  have i: "i \<notin> mg_session ` set (migrations s)" using True by (auto simp: migration_of_def find_None_iff)
  then have "migrations_ok ?t" using ok True by (simp add: migrations_ok_def row_consistent_def)
  moreover have at: "migration_of ?t j = (if j = i then Some ?m else migration_of s j)" for j
    using True by (auto simp: migration_of_def find_append split: option.split)
  moreover have "\<not> (\<exists>m \<in> set (migrations s). mg_id m = k)" using True by auto
  then have "beginBackendMigration_tx i k src dst r at s = Inr (?m, ?t)"
    using True at [of i] by (simp add: beginBackendMigration_tx_def Let_def migration_or_io_def)
  ultimately show ?thesis using True
    by (simp add: refines_op_def op_possible_def migration_view_def row_phase_def)
next
  case False
  then show ?thesis using ok
    by (cases "migration_of s i")
      (auto simp: refines_op_def op_possible_def beginBackendMigration_tx_def Let_def migration_view_def)
qed

lemmas migration_views = migration_view_def row_phase_def row_consistent_def same_outcome_def op_possible_def

lemma op_refines:
  assumes ok: "migrations_ok s"
  shows "\<exists>m. run_migration op = checked_tx (op_checks op) m \<and> refines_op op m s"
proof (cases op)
  case (Begin i k src dst r at)
  show ?thesis
    by (rule exI [of _ "beginBackendMigration_tx i k src dst r at"])
      (simp add: Begin beginBackendMigration_def begin_refines [OF ok])
next
  case (Complete i k good why r at)
  note pr = prior_refines [where op = "Complete i k good why r at", OF ok, unfolded op_session.simps]
  show ?thesis unfolding Complete run_migration.simps op_checks.simps completeBackendMigration_def
  proof (intro exI conjI, rule refl, rule pr, goal_cases)
    case (3 a)
    show ?case
    proof (cases "mg_state a")
      case Running
      show ?thesis
        by (rule refines_update [where P = "\<lambda>m. mg_state m = Running", OF ok _ 3(1,2) Running, where f = "settled good why r (at_or_now at s)"])
          (use 3 Running in \<open>auto simp: settled_def outcome_phase_def migration_views\<close>)
    qed (use ok 3 in \<open>auto simp: refines_op_def migration_views split: if_splits\<close>)
  qed (simp_all add: migration_views)
next
  case (Lose i k why at)
  note pr = prior_refines [where op = "Lose i k why at", OF ok, unfolded op_session.simps]
  show ?thesis unfolding Lose run_migration.simps op_checks.simps markBackendMigrationIndeterminate_def
  proof (intro exI conjI, rule refl, rule pr, goal_cases)
    case (3 a)
    show ?case
    proof (cases "mg_state a")
      case Running
      show ?thesis
        by (rule refines_update [where P = "\<lambda>m. mg_state m = Running", OF ok _ 3(1,2) Running, where f = "\<lambda>m. m\<lparr>mg_state := Indeterminate, mg_outcome := Some Unknown,
            mg_reason := reportSafeReason (Some why), mg_completed := None, mg_updated := at_or_now at s\<rparr>"])
          (use 3 Running in \<open>simp_all add: migration_views\<close>)
    qed (use ok 3 in \<open>auto simp: refines_op_def migration_views split: if_splits\<close>)
  qed (simp_all add: migration_views)
next
  case (Recover i k good why r at)
  note pr = prior_refines [where op = "Recover i k good why r at", OF ok, unfolded op_session.simps]
  show ?thesis unfolding Recover run_migration.simps op_checks.simps recoverBackendMigration_def
  proof (intro exI conjI, rule refl, rule pr, goal_cases)
    case (3 a)
    show ?case
    proof (cases "mg_state a")
      case Indeterminate
      show ?thesis
        by (rule refines_update [where P = "\<lambda>m. mg_state m = Indeterminate", OF ok _ 3(1,2) Indeterminate, where f = "settled good (Some why) r (at_or_now at s)"])
          (use 3 Indeterminate in \<open>auto simp: settled_def outcome_phase_def migration_views\<close>)
    qed (use ok 3 in \<open>auto simp: refines_op_def migration_views split: if_splits\<close>)
  qed (simp_all add: migration_views)
next
  case (Retry i k at)
  note pr = prior_refines [where op = "Retry i k at", OF ok, unfolded op_session.simps]
  show ?thesis unfolding Retry run_migration.simps op_checks.simps retryBackendMigration_def
  proof (intro exI conjI, rule refl, rule pr, goal_cases)
    case (3 a)
    show ?case
    proof (cases "mg_state a = Failed \<and> mg_retryable a")
      case True
      show ?thesis
        by (rule refines_update [where P = "\<lambda>m. mg_state m = Failed \<and> mg_retryable m", OF ok _ 3(1,2) True, where f = "\<lambda>m. m\<lparr>mg_state := Running, mg_outcome := None, mg_reason := None,
            mg_attempt := mg_attempt m + 1, mg_completed := None, mg_updated := at_or_now at s\<rparr>"])
          (use 3 True in \<open>simp_all add: migration_views\<close>)
    qed (use ok 3 in \<open>cases "mg_state a"; auto simp: refines_op_def migration_views split: if_splits\<close>)
  qed (simp_all add: migration_views)
qed

lemma checked_tx_result:
  assumes "checked_tx ps m s = (r, s')"
  shows "case r of Inl e \<Rightarrow> db_of s' = db_of s | Inr a \<Rightarrow> m s = Inr (a, s')"
proof (cases "first_problem ps")
  case None
  then show ?thesis using assms transaction_atomic [of m s r s'] by (simp add: checked_tx_def)
qed (use assms in \<open>auto simp: checked_tx_def\<close>)

lemma run_migration_result:
  assumes ok: "migrations_ok s" and run: "run_migration op s = (r, s')"
  shows "migrations_ok s'" "j \<noteq> op_session op \<Longrightarrow> migration_of s' j = migration_of s j"
    "r = Inl e \<Longrightarrow> db_of s' = db_of s"
    "r = Inr m \<Longrightarrow> migration_of s' (op_session op) = Some m
       \<and> migration_spec op (migration_view s (op_session op)) = Some (migration_view s' (op_session op))"
    "(\<exists>m. r = Inr m) \<longleftrightarrow> ready s \<and> first_problem (op_checks op) = None \<and> op_possible s op
       \<and> migration_spec op (migration_view s (op_session op)) \<noteq> None"
proof -
  obtain m where m: "run_migration op = checked_tx (op_checks op) m" and ref: "refines_op op m s"
    using op_refines [OF ok, of op] by blast
  have kept: "migrations_ok s' \<and> (j \<noteq> op_session op \<longrightarrow> migration_of s' j = migration_of s j)" if "db_of s' = db_of s" for j
    using ok arg_cong [OF that, of migrations] by (simp add: migrations_ok_def migration_of_def)
  note res = checked_tx_result [OF run [unfolded m]]
  show e: "r = Inl e \<Longrightarrow> db_of s' = db_of s" for e using res by simp
  show ok': "migrations_ok s'" using res ref kept e by (cases r) (auto simp: refines_op_def)
  show "j \<noteq> op_session op \<Longrightarrow> migration_of s' j = migration_of s j"
    using res ref kept e by (cases r) (auto simp: refines_op_def)
  show "r = Inr m \<Longrightarrow> migration_of s' (op_session op) = Some m
       \<and> migration_spec op (migration_view s (op_session op)) = Some (migration_view s' (op_session op))" for m
    using res ref by (auto simp: refines_op_def)
  show "(\<exists>m. r = Inr m) \<longleftrightarrow> ready s \<and> first_problem (op_checks op) = None \<and> op_possible s op
       \<and> migration_spec op (migration_view s (op_session op)) \<noteq> None"
    using run ref unfolding m checked_tx_def transaction_eq
    by (cases "first_problem (op_checks op)"; cases "m s") (auto simp: refines_op_def split: if_splits)
qed

section \<open>References have one owner\<close>

definition refs_ok :: "store \<Rightarrow> bool" where
  "refs_ok s \<longleftrightarrow> distinct (map rf_session (backend_refs s))
     \<and> distinct (map (\<lambda>r. (rf_kind r, rf_backend r)) (backend_refs s))"

lemma ref_of_SomeD: "ref_of s i = Some r \<Longrightarrow> r \<in> set (backend_refs s) \<and> rf_session r = i"
  unfolding ref_of_def using find_SomeD by fast

lemma not_taken:
  assumes "refs_ok s" "\<not> taken_by_other s kind b i" "r \<in> set (backend_refs s)" "rf_kind r = kind" "rf_backend r = b"
  shows "rf_session r = i"
proof -
  have "ref_owner s kind b = Some r"
    using find_unique [of "\<lambda>r. (rf_kind r, rf_backend r)" "backend_refs s" r] assms(1,3-5)
    by (simp add: refs_ok_def ref_owner_def)
  then show ?thesis using assms(2) by (simp add: taken_by_other_def)
qed

lemma distinct_pairs_update:
  assumes "distinct (map f xs)" "distinct (map g xs)" "x \<in> set xs" "\<And>y. y \<in> set xs \<Longrightarrow> g y = v \<Longrightarrow> f y = f x"
    and "\<And>y. f y = f x \<Longrightarrow> g (h y) = v"
  shows "distinct (map g (map (\<lambda>y. if f y = f x then h y else y) xs))"
  using assms
proof (induction xs)
  case (Cons a xs)
  have tail: "distinct (map g (map (\<lambda>y. if f y = f x then h y else y) xs))"
  proof (cases "x \<in> set xs")
    case True
    then show ?thesis using Cons by simp
  next
    case False
    then have "x = a" using Cons.prems(3) by simp
    then have "\<forall>y \<in> set xs. f y \<noteq> f x" using Cons.prems(1) by (metis distinct_map_ConsD)
    then have "map (\<lambda>y. if f y = f x then h y else y) xs = xs" by (simp add: map_idI)
    then show ?thesis using Cons.prems(2) by simp
  qed
  have "g (if f a = f x then h a else a) \<notin> set (map g (map (\<lambda>y. if f y = f x then h y else y) xs))"
  proof
    assume "g (if f a = f x then h a else a) \<in> set (map g (map (\<lambda>y. if f y = f x then h y else y) xs))"
    then obtain y where y: "y \<in> set xs" "g (if f a = f x then h a else a) = g (if f y = f x then h y else y)" by auto
    have ne: "f y \<noteq> f a" "g y \<noteq> g a" using y(1) Cons.prems(1,2) by (metis distinct_map_ConsD)+
    show False
    proof (cases "f a = f x")
      case True
      then have "g y = v" using y(2) ne(1) Cons.prems(5) by simp
      then show False using Cons.prems(4) [of y] y(1) True ne(1) by simp
    next
      case False
      then show False using y(2) ne(2) Cons.prems(4) [of a] Cons.prems(5) [of y] by (auto split: if_splits)
    qed
  qed
  then show ?case using tail by simp
qed simp

text \<open>
  What one call may do to the references: keep them, give a session its first reference, or move a
  session to another backend session of the same kind and file.
\<close>

definition refs_step :: "store \<Rightarrow> store \<Rightarrow> bool" where
  "refs_step s s' \<longleftrightarrow> refs_ok s' \<and>
     (\<forall>i r. ref_of s i = Some r \<longrightarrow> (\<exists>r'. ref_of s' i = Some r' \<and> rf_kind r' = rf_kind r \<and> rf_file r' = rf_file r))"

lemma refs_step_same: "refs_ok s \<Longrightarrow> backend_refs t = backend_refs s \<Longrightarrow> refs_step s t"
  by (simp add: refs_step_def refs_ok_def ref_of_def)

lemma ref_or_io_state: "ref_or_io i msg s = Inr (a, s') \<Longrightarrow> s' = s"
  by (simp add: ref_or_io_def split: option.splits)

lemma ref_of_cong: "backend_refs t = backend_refs s \<Longrightarrow> ref_of t = ref_of s \<and> taken_by_other t = taken_by_other s"
  by (simp add: ref_of_def taken_by_other_def ref_owner_def fun_eq_iff)

lemma move_ref_step:
  assumes ok: "refs_ok s" and e: "ref_of s i = Some e" "rf_kind e = kind" and free: "\<not> taken_by_other s kind b i"
  shows "refs_step s (s\<lparr>backend_refs := map (\<lambda>r. if rf_session r = i then r\<lparr>rf_backend := b, rf_updated := t\<rparr> else r) (backend_refs s)\<rparr>)"
proof -
  let ?h = "\<lambda>r. if rf_session r = i then r\<lparr>rf_backend := b, rf_updated := t\<rparr> else r"
  have i: "rf_session e = i" "e \<in> set (backend_refs s)" using ref_of_SomeD [OF e(1)] by auto
  have uniq: "r = e" if "r \<in> set (backend_refs s)" "rf_session r = i" for r
    using that find_unique [of rf_session "backend_refs s" r] ok e(1) by (simp add: refs_ok_def ref_of_def)
  have keys: "map rf_session (map ?h (backend_refs s)) = map rf_session (backend_refs s)" by simp
  have "distinct (map (\<lambda>r. (rf_kind r, rf_backend r)) (map (\<lambda>r. if rf_session r = rf_session e
      then (if r = e then e\<lparr>rf_backend := b, rf_updated := t\<rparr> else e\<lparr>rf_backend := b, rf_updated := t\<rparr>) else r) (backend_refs s)))"
    by (rule distinct_pairs_update [where v = "(kind, b)"])
      (use ok i e(2) not_taken [OF ok free] in \<open>auto simp: refs_ok_def\<close>)
  also have "map (\<lambda>r. if rf_session r = rf_session e
      then (if r = e then e\<lparr>rf_backend := b, rf_updated := t\<rparr> else e\<lparr>rf_backend := b, rf_updated := t\<rparr>) else r) (backend_refs s)
      = map ?h (backend_refs s)" using uniq i(1) by auto
  finally have "refs_ok (s\<lparr>backend_refs := map ?h (backend_refs s)\<rparr>)"
    using ok keys by (simp add: refs_ok_def del: map_map)
  moreover have "ref_of (s\<lparr>backend_refs := map ?h (backend_refs s)\<rparr>) j = map_option ?h (ref_of s j)" for j
    unfolding ref_of_def using find_map_key [of rf_session ?h j "backend_refs s"] by simp
  ultimately show ?thesis by (auto simp: refs_step_def)
qed

lemma ensureBackendSession_step:
  assumes ok: "refs_ok s0" and tx: "ensureBackendSession_tx i kind b file at s0 = Inr (a, s')"
  shows "refs_step s0 s'"
proof -
  define t where "t = at_or_now at s0"
  define s where "s = (if sessionExists s0 i then s0
     else s0\<lparr>sessions := sessions s0 @ [\<lparr>sn_id = i, sn_state = [], sn_created = t, sn_updated = t\<rparr>]\<rparr>)"
  have same: "backend_refs s = backend_refs s0" by (simp add: s_def)
  have oks: "refs_ok s" using ok by (simp add: refs_ok_def same)
  have lift: "refs_step s s' \<Longrightarrow> refs_step s0 s'" using ref_of_cong [OF same] by (simp add: refs_step_def)
  note tx = tx [unfolded ensureBackendSession_tx_def Let_def, folded t_def, folded s_def]
  show ?thesis
  proof (rule lift, cases "ref_of s i")
    case (Some e)
    show "refs_step s s'"
    proof (cases "rf_backend e = b")
      case True
      then have "s' = s" using tx Some by (simp split: if_splits)
      then show ?thesis using refs_step_same [OF oks] by simp
    next
      case False
      then have c: "rf_kind e = kind" "\<not> taken_by_other s kind b i"
        and m: "ref_or_io i ''backend reference missing after update''
          (s\<lparr>backend_refs := map (\<lambda>r. if rf_session r = i then r\<lparr>rf_backend := b, rf_updated := t\<rparr> else r) (backend_refs s)\<rparr>) = Inr (a, s')"
        using tx Some by (simp_all split: if_splits)
      show ?thesis unfolding ref_or_io_state [OF m] by (rule move_ref_step [OF oks Some c])
    qed
  next
    case None
    let ?r = "\<lparr>rf_session = i, rf_kind = kind, rf_backend = b, rf_file = file, rf_created = t, rf_updated = t\<rparr>"
    have free: "\<not> taken_by_other s kind b i"
      and m: "ref_or_io i ''backend reference missing after insert'' (s\<lparr>backend_refs := backend_refs s @ [?r]\<rparr>) = Inr (a, s')"
      using tx None by (simp_all split: if_splits)
    have new: "rf_session r \<noteq> i" if "r \<in> set (backend_refs s)" for r
      using that None by (auto simp: ref_of_def find_None_iff)
    have pair: "(kind, b) \<notin> (\<lambda>r. (rf_kind r, rf_backend r)) ` set (backend_refs s)"
      using not_taken [OF oks free] new by auto
    have "refs_ok (s\<lparr>backend_refs := backend_refs s @ [?r]\<rparr>)"
      using oks new pair by (auto simp: refs_ok_def)
    moreover have "ref_of s j = Some r \<Longrightarrow> ref_of (s\<lparr>backend_refs := backend_refs s @ [?r]\<rparr>) j = Some r" for j r
      by (simp add: ref_of_def find_append)
    ultimately show "refs_step s s'" unfolding ref_or_io_state [OF m] by (simp add: refs_step_def)
  qed
qed

lemma ensureBackendSession_ok:
  assumes "refs_ok s"
  shows "refs_step s (snd (ensureBackendSession i kind b file at s))"
proof -
  let ?ps = "[boundedIdentifier i ''bridge session ID'' 256, boundedIdentifier kind ''backend kind'' 32,
     boundedIdentifier b ''backend session ID'' 256, boundedIdentifier file ''backend session file'' 4096]"
  have "refs_step s (snd (transaction (ensureBackendSession_tx i kind b file at) s))"
  proof (rule transaction_preserves [where P = "refs_step s", OF ensureBackendSession_step [OF assms]])
    fix t assume "db_of t = db_of s"
    then show "refs_step s t" using refs_step_same [OF assms] by (metis db_of_sel(16))
  qed assumption
  then show ?thesis
    using refs_step_same [OF assms refl]
    by (cases "first_problem ?ps") (simp_all only: ensureBackendSession_def checked_tx_def option.case snd_conv)
qed

lemma refs_step_trans: "refs_step s t \<Longrightarrow> refs_step t u \<Longrightarrow> refs_step s u"
  unfolding refs_step_def by metis

lemma refs_steps:
  assumes "refs_ok s"
  shows "refs_step s (fold (\<lambda>(i, kind, b, file, at) t. snd (ensureBackendSession i kind b file at t)) calls s)"
  using assms
proof (induction calls arbitrary: s)
  case Nil
  then show ?case using refs_step_same [OF _ refl] by simp
next
  case (Cons c calls)
  obtain i kind b f at where c: "c = (i, kind, b, f, at)" by (cases c)
  let ?t = "snd (ensureBackendSession i kind b f at s)"
  have "refs_step s ?t" by (rule ensureBackendSession_ok [OF Cons.prems])
  moreover from this have "refs_ok ?t" by (simp add: refs_step_def)
  ultimately show ?case using Cons.IH [of ?t] refs_step_trans by (simp add: c)
qed

section \<open>Properties\<close>

text \<open>
  C28 (migration_refines). Every operation on backend migrations does to the migration of the session it names exactly what
  the abstract machine says - begin, settle, lose, recover and retry each have their own move, an outcome reported again changes
  nothing - and leaves the migration of every other session as it is. It succeeds exactly when the store is
  writable, its arguments are in bounds, the session and the new identifier allow it and the machine does not refuse, and
  then returns the stored row; when it fails no table differs from before. The rows keep the table's keys and CHECK constraint.
\<close>

theorem migration_refines:
  assumes "migrations_ok s" and "run_migration op s = (r, s')"
  shows "migrations_ok s' \<and> (\<forall>j. j \<noteq> op_session op \<longrightarrow> migration_of s' j = migration_of s j)
    \<and> ((\<exists>m. r = Inr m) \<longleftrightarrow> ready s \<and> first_problem (op_checks op) = None \<and> op_possible s op
         \<and> migration_spec op (migration_view s (op_session op)) \<noteq> None)
    \<and> (case r of Inl e \<Rightarrow> db_of s' = db_of s
       | Inr m \<Rightarrow> migration_of s' (op_session op) = Some m
           \<and> migration_spec op (migration_view s (op_session op)) = Some (migration_view s' (op_session op)))"
  using run_migration_result [OF assms]
  by (intro conjI allI impI; (cases r)?) simp_all

lemma completed_stays:
  assumes "migrations_ok s" and "migration_view s i = Some (k, src, dst, Succeeded_for_good, n)"
  shows "migration_view (fold (\<lambda>op t. snd (run_migration op t)) ops s) i = Some (k, src, dst, Succeeded_for_good, n)"
  using assms
proof (induction ops arbitrary: s)
  case (Cons op ops)
  obtain r s' where run: "run_migration op s = (r, s')" by (cases "run_migration op s")
  note res = run_migration_result [OF Cons.prems(1) run]
  have "migration_view s' i = Some (k, src, dst, Succeeded_for_good, n)"
  proof (cases "op_session op = i")
    case False
    then show ?thesis using res(2) [of i] Cons.prems(2) by (simp add: migration_view_def)
  next
    case True
    show ?thesis
    proof (cases r)
      case (Inl e)
      then show ?thesis using arg_cong [OF res(3) [OF Inl], of migrations] Cons.prems(2)
        by (simp add: migration_view_def migration_of_def)
    next
      case (Inr m)
      then have "migration_spec op (Some (k, src, dst, Succeeded_for_good, n)) = Some (migration_view s' i)"
        using res(4) [OF Inr] Cons.prems(2) True by simp
      then show ?thesis by (cases op) (simp_all split: if_split_asm)
    qed
  qed
  then show ?case using Cons.IH [OF res(1)] by (simp add: run)
qed simp

text \<open>
  Once a migration has been completed with success it stays exactly that - same session,
  identifier, backends and attempt - whatever operations on migrations follow, with whatever arguments: it
  is neither settled otherwise, lost, recovered nor retried.
\<close>

theorem migration_final:
  assumes "migrations_ok s" and "completeBackendMigration i k True why retryable at s = (Inr m, s1)"
  shows "\<exists>src dst n. migration_view (fold (\<lambda>op t. snd (run_migration op t)) ops s1) i
    = Some (k, src, dst, Succeeded_for_good, n)"
proof -
  have run: "run_migration (Complete i k True why retryable at) s = (Inr m, s1)" using assms(2) by simp
  note res = run_migration_result [OF assms(1) run]
  have "migration_spec (Complete i k True why retryable at) (migration_view s i) = Some (migration_view s1 i)"
    using res(4) [OF refl] by simp
  then have "\<exists>src dst n. migration_view s1 i = Some (k, src, dst, Succeeded_for_good, n)"
    by (auto simp: outcome_phase_def same_outcome_def split: option.splits if_split_asm dest!: sym [of "Some _"])
  then obtain src dst n where "migration_view s1 i = Some (k, src, dst, Succeeded_for_good, n)"
    by blast
  from completed_stays [OF res(1) this] show ?thesis by blast
qed

text \<open>
  Whatever backend references are recorded, no two sessions ever share a backend
  session, and the kind and the file of a session's backend never change once recorded.
\<close>

theorem backend_owner:
  assumes "refs_ok s" and "s' = fold (\<lambda>(i, kind, b, file, at) t. snd (ensureBackendSession i kind b file at t)) calls s"
  shows "distinct (map (\<lambda>r. (rf_kind r, rf_backend r)) (backend_refs s')) \<and> distinct (map rf_session (backend_refs s'))
    \<and> (\<forall>i r. ref_of s i = Some r \<longrightarrow> (\<exists>r'. ref_of s' i = Some r' \<and> rf_kind r' = rf_kind r \<and> rf_file r' = rf_file r))"
  using refs_steps [OF assms(1), of calls] unfolding assms(2) refs_step_def refs_ok_def by blast

definition demo_backend :: store where
  "demo_backend = (empty_store demo_uuids 5)
     \<lparr>sessions := [\<lparr>sn_id = ''a'', sn_state = [], sn_created = 1, sn_updated = 1\<rparr>]\<rparr>"

lemma demo_backend_ok: "migrations_ok demo_backend" "refs_ok demo_backend"
  by (simp_all add: demo_backend_def empty_store_def migrations_ok_def refs_ok_def)

lemmas migration_eval = beginBackendMigration_def completeBackendMigration_def checked_tx_def first_problem_def
  boundedIdentifier_def is_control_def transaction_def beginBackendMigration_tx_def at_or_now_def Let_def sessionExists_def
  session_row_of_def migration_of_def migration_or_io_def migration_checks_def prior_migration_def update_migrations_def
  settled_def reportSafeReason_def demo_backend_def empty_store_def

theorem migration_refines_witness:
  "\<exists>m s'. run_migration (Begin ''a'' ''m'' ''pi'' ''omp'' True None) demo_backend = (Inr m, s') \<and> migrations_ok s'
     \<and> migration_of s' ''a'' = Some m \<and> migration_view s' ''a'' = Some (''m'', ''pi'', ''omp'', In_progress, 1)"
proof -
  have "\<exists>m s'. run_migration (Begin ''a'' ''m'' ''pi'' ''omp'' True None) demo_backend = (Inr m, s')"
    by (simp add: migration_eval)
  then obtain m s' where eq: "run_migration (Begin ''a'' ''m'' ''pi'' ''omp'' True None) demo_backend = (Inr m, s')" by blast
  have "migration_view demo_backend ''a'' = None"
    by (simp add: migration_view_def migration_of_def demo_backend_def empty_store_def)
  then show ?thesis using migration_refines [OF demo_backend_ok(1) eq] eq by auto
qed

end
