(* ===== verification/Enrollment.thy ===== *)
theory Enrollment
  imports Store_Base Schema
begin

text \<open>
  How a phone is paired with the host and proves itself afterwards: the credential and passcode tables
  of core/store.ts, and auth/credentials.ts, auth/enrollment.ts, auth/revoke.ts and the check of
  core/runtime.ts on top of them. SHA-256 (as lower-case hexadecimal text) is the parameter \<open>sha\<close>; the
  random credential and passcode are arguments.
\<close>

section \<open>Credentials\<close>

definition CREDENTIAL_PREFIX :: string where
  "CREDENTIAL_PREFIX = ''pc_''"

definition ENROLLMENT_PREFIX :: string where
  "ENROLLMENT_PREFIX = ''es_''"

definition PAIRING_PASSCODE_PATTERN :: rx where
  "PAIRING_PASSCODE_PATTERN = sequence [times 6 (In ''09''), AtEnd]"

definition ALPHABET :: rx where
  "ALPHABET = sequence [some_of (In ''AZaz09__--''), AtEnd]"

definition issuePairingPasscode :: "nat \<Rightarrow> string" where
  "issuePairingPasscode r = replicate (6 - length (dec r)) (CHR ''0'') @ dec r"

datatype secret_kind = Credential | Enrollment_secret

definition hashCredential :: "(string \<Rightarrow> string) \<Rightarrow> secret_kind \<Rightarrow> string \<Rightarrow> string" where
  "hashCredential sha k plaintext =
     (if plaintext = [] then []
      else if \<not> starts_with (if k = Enrollment_secret then ENROLLMENT_PREFIX else CREDENTIAL_PREFIX) plaintext then []
      else sha plaintext)"

definition hashEnrollmentSecret :: "(string \<Rightarrow> string) \<Rightarrow> string \<Rightarrow> string" where
  "hashEnrollmentSecret sha = hashCredential sha Enrollment_secret"

definition hashPairingPasscode :: "(string \<Rightarrow> string) \<Rightarrow> string \<Rightarrow> string" where
  "hashPairingPasscode sha p =
     (if rx_test PAIRING_PASSCODE_PATTERN p then sha (''pi-mob-pairing-passcode:'' @ p) else [])"

text \<open>\<open>Buffer.from(text, "hex")\<close>: pairs of digits up to the first pair that is none.\<close>

definition hex_value :: "char \<Rightarrow> nat option" where
  "hex_value c =
     (let n = of_char c in
      if 48 \<le> n \<and> n \<le> 57 then Some (n - 48) else if 97 \<le> n \<and> n \<le> 102 then Some (n - 87)
      else if 65 \<le> n \<and> n \<le> 70 then Some (n - 55) else None)"

fun hex_bytes :: "string \<Rightarrow> nat list" where
  "hex_bytes (a # b # cs) =
     (case (hex_value a, hex_value b) of (Some x, Some y) \<Rightarrow> (16 * x + y) # hex_bytes cs | _ \<Rightarrow> [])"
| "hex_bytes _ = []"

definition verifyCredential :: "(string \<Rightarrow> string) \<Rightarrow> string \<Rightarrow> string \<Rightarrow> bool" where
  "verifyCredential sha plaintext stored =
     (if \<not> rx_test ALPHABET stored \<or> length stored \<noteq> 64 then False
      else let candidate = hashCredential sha Credential plaintext in
        if length candidate \<noteq> 64 then False
        else let a = hex_bytes candidate; b = hex_bytes stored in length a = length b \<and> a = b)"

definition plausible :: "string \<Rightarrow> string \<Rightarrow> bool" where
  "plausible prefix plaintext \<longleftrightarrow> starts_with prefix plaintext
     \<and> (let tail = drop (length prefix) plaintext in length tail = 43 \<and> rx_test ALPHABET tail)"

definition isPlausibleCredential :: "string \<Rightarrow> bool" where
  "isPlausibleCredential = plausible CREDENTIAL_PREFIX"

definition isPlausiblePairingPasscode :: "string \<Rightarrow> bool" where
  "isPlausiblePairingPasscode = rx_test PAIRING_PASSCODE_PATTERN"

definition isPlausibleEnrollmentSecret :: "string \<Rightarrow> bool" where
  "isPlausibleEnrollmentSecret = plausible ENROLLMENT_PREFIX"

section \<open>The tables\<close>

definition credential_of :: "store \<Rightarrow> string \<Rightarrow> credential_row option" where
  "credential_of s i = find (\<lambda>r. cr_install r = i) (credentials s)"

text \<open>A row as it is read: a revocation counts only with both its time and its reason.\<close>

definition findInstallationCredential :: "store \<Rightarrow> string \<Rightarrow> credential_row option" where
  "findInstallationCredential s i =
     map_option (\<lambda>r. if cr_revoked r \<noteq> None \<and> cr_reason r \<noteq> None then r
                     else r\<lparr>cr_revoked := None, cr_reason := None\<rparr>) (credential_of s i)"

definition update_credential :: "string \<Rightarrow> (credential_row \<Rightarrow> credential_row) \<Rightarrow> store \<Rightarrow> store" where
  "update_credential i f s =
     s\<lparr>credentials := map (\<lambda>r. if cr_install r = i then f r else r) (credentials s)\<rparr>"

record credential_input =
  cx_install :: string
  cx_hash :: string
  cx_secret :: string
  cx_source :: enrollment_source
  cx_created :: int
  cx_seen :: int
  cx_expires :: "int option"

definition upsertInstallationCredential_tx :: "credential_input \<Rightarrow> credential_row tx" where
  "upsertInstallationCredential_tx x s =
     (if \<exists>r \<in> set (credentials s). cr_install r \<noteq> cx_install x \<and> cr_hash r = cx_hash x
      then Inl (Sqlite_error ''UNIQUE constraint failed: installation_credentials.credential_hash'')
      else let s' = (if credential_of s (cx_install x) \<noteq> None
                then update_credential (cx_install x) (\<lambda>r. r\<lparr>cr_hash := cx_hash x, cr_secret := cx_secret x,
                       cr_source := cx_source x, cr_created := cx_created x, cr_seen := cx_seen x, cr_expires := cx_expires x\<rparr>) s
                else s\<lparr>credentials := credentials s @
                       [\<lparr>cr_install = cx_install x, cr_hash = cx_hash x, cr_secret = cx_secret x, cr_source = cx_source x,
                         cr_created = cx_created x, cr_seen = cx_seen x, cr_expires = cx_expires x, cr_revoked = None,
                         cr_reason = None\<rparr>]\<rparr>) in
      case findInstallationCredential s' (cx_install x) of
        Some r \<Rightarrow> Inr (r, s')
      | None \<Rightarrow> Inl (Store_error Io ''credential row missing after upsert''))"

definition upsertInstallationCredential :: "credential_input \<Rightarrow> store \<Rightarrow> (exn + credential_row) \<times> store" where
  "upsertInstallationCredential x = transaction (upsertInstallationCredential_tx x)"

definition touchInstallationCredential :: "string \<Rightarrow> int \<Rightarrow> store \<Rightarrow> (exn + unit) \<times> store" where
  "touchInstallationCredential i at = transaction (tx_write (update_credential i (\<lambda>r. r\<lparr>cr_seen := at\<rparr>)))"

definition revokeInstallationCredential :: "string \<Rightarrow> string \<Rightarrow> int \<Rightarrow> store \<Rightarrow> (exn + bool) \<times> store" where
  "revokeInstallationCredential i reason at =
     transaction (\<lambda>s. case credential_of s i of
         None \<Rightarrow> Inr (False, s)
       | Some r \<Rightarrow> if cr_revoked r \<noteq> None then Inr (True, s)
                   else Inr (True, update_credential i (\<lambda>r. r\<lparr>cr_revoked := Some at, cr_reason := Some (take 200 reason)\<rparr>) s))"

definition secret_of :: "store \<Rightarrow> string \<Rightarrow> secret_row option" where
  "secret_of s h = find (\<lambda>r. se_hash r = h) (secrets s)"

definition findEnrollmentSecret :: "store \<Rightarrow> string \<Rightarrow> secret_row option" where
  "findEnrollmentSecret = secret_of"

text \<open>\<open>INSERT OR REPLACE\<close>: a row of the same hash is deleted first.\<close>

definition createEnrollmentSecret :: "string \<Rightarrow> int \<Rightarrow> int \<Rightarrow> int option \<Rightarrow> store \<Rightarrow> (exn + unit) \<times> store" where
  "createEnrollmentSecret h created expires used =
     transaction (tx_write (\<lambda>s. s\<lparr>secrets := filter (\<lambda>r. se_hash r \<noteq> h) (secrets s) @
       [\<lparr>se_hash = h, se_created = created, se_expires = expires, se_used = used, se_used_by = None\<rparr>]\<rparr>))"

datatype consume_result = Consumed | Already_used | Expired_secret | Unknown_secret

definition consumeEnrollmentSecret :: "string \<Rightarrow> int \<Rightarrow> string option \<Rightarrow> store \<Rightarrow> (exn + consume_result) \<times> store" where
  "consumeEnrollmentSecret h at i =
     transaction (\<lambda>s. case secret_of s h of
         None \<Rightarrow> Inr (Unknown_secret, s)
       | Some r \<Rightarrow>
           if se_used r \<noteq> None then Inr (Already_used, s)
           else if se_expires r \<le> at then Inr (Expired_secret, s)
           else
             let hit = (\<lambda>r. se_hash r = h \<and> se_used r = None);
                 changes = length (filter hit (secrets s));
                 s' = s\<lparr>secrets := map (\<lambda>r. if hit r then r\<lparr>se_used := Some at, se_used_by := i\<rparr> else r) (secrets s)\<rparr> in
             Inr (if changes \<noteq> 1 then Already_used else Consumed, s'))"

definition aggregateRetainedInstallationIds :: "store \<Rightarrow> string list" where
  "aggregateRetainedInstallationIds s =
     map cr_install (order_by (\<lambda>a b. cr_created a < cr_created b) (credentials s))"

section \<open>Pairing, checking and revoking\<close>

definition INSTALLATION_PATTERN :: rx where
  "INSTALLATION_PATTERN =
     sequence [times 8 (In ''09afAF''), Lit ''-'', times 4 (In ''09afAF''), Lit ''-'', times 4 (In ''09afAF''),
       Lit ''-'', times 4 (In ''09afAF''), Lit ''-'', times 12 (In ''09afAF''), AtEnd]"

datatype bind_outcome =
    Bound string string
  | Bind_used
  | Bind_expired
  | Bind_unknown
  | Malformed_passcode

definition bindEnrollment :: "(string \<Rightarrow> string) \<Rightarrow> string \<Rightarrow> string \<Rightarrow> string \<Rightarrow> store \<Rightarrow> (exn + bind_outcome) \<times> store" where
  "bindEnrollment sha issued i passcode s =
     (if \<not> rx_test INSTALLATION_PATTERN i then (Inr Malformed_passcode, s)
      else if \<not> rx_test PAIRING_PASSCODE_PATTERN passcode then (Inr Malformed_passcode, s)
      else let h = hashPairingPasscode sha passcode; now = clock s in
        if h = [] then (Inr Malformed_passcode, s)
        else case consumeEnrollmentSecret h now (Some i) s of
          (Inl e, s1) \<Rightarrow> (Inl e, s1)
        | (Inr Unknown_secret, s1) \<Rightarrow> (Inr Bind_unknown, s1)
        | (Inr Expired_secret, s1) \<Rightarrow> (Inr Bind_expired, s1)
        | (Inr Already_used, s1) \<Rightarrow> (Inr Bind_used, s1)
        | (Inr Consumed, s1) \<Rightarrow>
            (let ch = hashCredential sha Credential issued in
             if ch = [] then (Inr Malformed_passcode, s1)
             else case upsertInstallationCredential
                    \<lparr>cx_install = i, cx_hash = ch, cx_secret = h, cx_source = Manual, cx_created = now, cx_seen = now,
                     cx_expires = None\<rparr> s1 of
                    (Inl e, s2) \<Rightarrow> (Inl e, s2)
                  | (Inr _, s2) \<Rightarrow> (Inr (Bound issued i), s2)))"

record pending_enrollment =
  pe_plaintext :: string
  pe_expires :: int
  pe_hash :: string

definition issuePendingEnrollment :: "(string \<Rightarrow> string) \<Rightarrow> int option \<Rightarrow> string \<Rightarrow> store \<Rightarrow> (exn + pending_enrollment) \<times> store" where
  "issuePendingEnrollment sha ttlMs passcode s =
     (let ttl = min (max (case ttlMs of Some t \<Rightarrow> t | None \<Rightarrow> 5 * 60000) 30000) (60 * 60000);
          h = hashPairingPasscode sha passcode; created = clock s; expires = created + ttl in
      case createEnrollmentSecret h created expires None s of
        (Inl e, s') \<Rightarrow> (Inl e, s')
      | (Inr _, s') \<Rightarrow> (Inr \<lparr>pe_plaintext = passcode, pe_expires = expires, pe_hash = h\<rparr>, s'))"

datatype revoke_outcome = Revoked | Already_revoked | Revoke_unknown

definition host_revoke :: "string \<Rightarrow> string \<Rightarrow> int option \<Rightarrow> store \<Rightarrow> (exn + revoke_outcome \<times> int) \<times> store" where
  "host_revoke i reason at s =
     (let t = (case at of Some t \<Rightarrow> t | None \<Rightarrow> clock s) in
      case findInstallationCredential s i of
        None \<Rightarrow> (Inr (Revoke_unknown, t), s)
      | Some r \<Rightarrow>
          if cr_revoked r \<noteq> None then (Inr (Already_revoked, t), s)
          else case revokeInstallationCredential i reason t s of
                 (Inl e, s') \<Rightarrow> (Inl e, s')
               | (Inr _, s') \<Rightarrow> (Inr (Revoked, t), s'))"

definition revokedInstallations :: "store \<Rightarrow> (string \<times> int \<times> string) list" where
  "revokedInstallations s =
     concat (map (\<lambda>i. case findInstallationCredential s i of
         Some r \<Rightarrow> (case cr_revoked r of Some t \<Rightarrow> [(i, t, case cr_reason r of Some x \<Rightarrow> x | None \<Rightarrow> [])] | None \<Rightarrow> [])
       | None \<Rightarrow> []) (aggregateRetainedInstallationIds s))"

datatype verification = Not_bound | Is_revoked | Is_expired | Wrong | Valid int

text \<open>\<open>verifyInstallationCredential\<close> of the runtime: a failing touch does not fail the check.\<close>

definition verifyInstallationCredential :: "(string \<Rightarrow> string) \<Rightarrow> string \<Rightarrow> string \<Rightarrow> store \<Rightarrow> verification \<times> store" where
  "verifyInstallationCredential sha i plaintext s =
     (case findInstallationCredential s i of
        None \<Rightarrow> (Not_bound, s)
      | Some r \<Rightarrow>
          if cr_revoked r \<noteq> None then (Is_revoked, s)
          else if (case cr_expires r of Some t \<Rightarrow> t \<le> clock s | None \<Rightarrow> False) then (Is_expired, s)
          else if \<not> verifyCredential sha plaintext (cr_hash r) then (Wrong, s)
          else (Valid (clock s), snd (touchInstallationCredential i (clock s) s)))"

section \<open>Histories\<close>

text \<open>What the host and the phones do with these tables, in any order, while time passes.\<close>

datatype auth_action =
    Issue "int option" string
  | Bind string string string
  | Revoke string string "int option"
  | Verify string string
  | Pass_time int

fun auth_run :: "(string \<Rightarrow> string) \<Rightarrow> auth_action \<Rightarrow> store \<Rightarrow> bind_outcome option \<times> store" where
  "auth_run sha (Issue ttl passcode) s = (None, snd (issuePendingEnrollment sha ttl passcode s))"
| "auth_run sha (Bind issued i passcode) s =
     (case bindEnrollment sha issued i passcode s of (Inr out, s') \<Rightarrow> (Some out, s') | (Inl e, s') \<Rightarrow> (None, s'))"
| "auth_run sha (Revoke i reason at) s = (None, snd (host_revoke i reason at s))"
| "auth_run sha (Verify i plaintext) s = (None, snd (verifyInstallationCredential sha i plaintext s))"
| "auth_run sha (Pass_time t) s = (None, s\<lparr>clock := t\<rparr>)"

fun auth_history :: "(string \<Rightarrow> string) \<Rightarrow> auth_action list \<Rightarrow> store \<Rightarrow> (auth_action \<times> bind_outcome option) list \<times> store" where
  "auth_history sha [] s = ([], s)"
| "auth_history sha (a # as) s =
     (let (out, s1) = auth_run sha a s; (rest, s2) = auth_history sha as s1 in ((a, out) # rest, s2))"

text \<open>A pairing that took place with a passcode of the hash \<open>h\<close>.\<close>

fun paired_with :: "(string \<Rightarrow> string) \<Rightarrow> string \<Rightarrow> auth_action \<times> bind_outcome option \<Rightarrow> bool" where
  "paired_with sha h (Bind issued i passcode, Some (Bound cred j)) = (hashPairingPasscode sha passcode = h)"
| "paired_with sha h _ = False"

fun reissues :: "(string \<Rightarrow> string) \<Rightarrow> string \<Rightarrow> auth_action \<Rightarrow> bool" where
  "reissues sha h (Issue ttl passcode) = (hashPairingPasscode sha passcode = h)"
| "reissues sha h _ = False"

section \<open>A passcode is used up\<close>

definition spent :: "string \<Rightarrow> store \<Rightarrow> bool" where
  "spent h s \<longleftrightarrow> (\<exists>r. secret_of s h = Some r \<and> se_used r \<noteq> None)"

lemma spent_db: "spent h s \<Longrightarrow> db_of t = db_of s \<Longrightarrow> spent h t"
  unfolding spent_def secret_of_def by (metis db_of_sel(15))

lemma spent_cong: "secrets t = secrets s \<Longrightarrow> spent h t = spent h s"
  by (simp add: spent_def secret_of_def)

lemma transaction_keeps_spent:
  assumes "spent h s" "\<And>a s'. m s = Inr (a, s') \<Longrightarrow> spent h s'"
  shows "spent h (snd (transaction m s))"
  by (rule transaction_preserves [where P = "spent h", OF assms(2)]) (auto intro: spent_db [OF assms(1)])

lemma update_credential_sel [simp]:
  "secrets (update_credential i f s) = secrets s" "clock (update_credential i f s) = clock s"
  by (simp_all add: update_credential_def)

lemma consume_spent:
  assumes "spent h s"
  shows "spent h (snd (consumeEnrollmentSecret k at i s))"
  unfolding consumeEnrollmentSecret_def
proof (rule transaction_keeps_spent [OF assms])
  fix a s'
  let ?hit = "\<lambda>r. se_hash r = k \<and> se_used r = None"
  let ?f = "\<lambda>r. if ?hit r then r\<lparr>se_used := Some at, se_used_by := i\<rparr> else r"
  assume "(case secret_of s k of None \<Rightarrow> Inr (Unknown_secret, s)
     | Some r \<Rightarrow> if se_used r \<noteq> None then Inr (Already_used, s)
         else if se_expires r \<le> at then Inr (Expired_secret, s)
         else let hit = ?hit; changes = length (filter hit (secrets s));
                s' = s\<lparr>secrets := map (\<lambda>r. if hit r then r\<lparr>se_used := Some at, se_used_by := i\<rparr> else r) (secrets s)\<rparr>
              in Inr (if changes \<noteq> 1 then Already_used else Consumed, s')) = Inr (a, s')"
  then have "s' = s \<or> secrets s' = map ?f (secrets s)"
    by (auto simp: Let_def split: option.splits if_splits)
  moreover have "spent h t" if "secrets t = map ?f (secrets s)" for t
  proof -
    obtain r where r: "secret_of s h = Some r" "se_used r \<noteq> None" using assms by (auto simp: spent_def)
    have "secret_of t h = map_option ?f (secret_of s h)"
      unfolding secret_of_def that by (rule find_map_key) simp
    then show ?thesis using r by (simp add: spent_def)
  qed
  ultimately show "spent h s'" using assms by auto
qed

lemma consume_consumed:
  assumes "consumeEnrollmentSecret h at i s = (Inr Consumed, s')"
  shows "\<not> spent h s" "spent h s'"
proof -
  let ?f = "\<lambda>r. if se_hash r = h \<and> se_used r = None then r\<lparr>se_used := Some at, se_used_by := i\<rparr> else r"
  obtain r where r: "secret_of s h = Some r" "se_used r = None" "secrets s' = map ?f (secrets s)"
    using transaction_InrD [OF assms [unfolded consumeEnrollmentSecret_def]]
    by (auto simp: Let_def split: option.splits if_splits)
  have "secret_of s' h = map_option ?f (secret_of s h)"
    unfolding secret_of_def r(3) by (rule find_map_key) simp
  moreover have "se_hash r = h" using find_SomeD [OF r(1) [unfolded secret_of_def]] by simp
  ultimately show "\<not> spent h s" "spent h s'" using r by (simp_all add: spent_def)
qed

lemma upsert_spent: "spent h s \<Longrightarrow> spent h (snd (upsertInstallationCredential x s))"
  unfolding upsertInstallationCredential_def
proof (rule transaction_keeps_spent, assumption)
  fix a s' assume "spent h s" "upsertInstallationCredential_tx x s = Inr (a, s')"
  then show "spent h s'" using spent_cong [of s' s]
    by (auto simp: upsertInstallationCredential_tx_def Let_def split: option.splits if_splits)
qed

lemma consume_spent_eq: "consumeEnrollmentSecret k at i s = (r, s') \<Longrightarrow> spent h s \<Longrightarrow> spent h s'"
  using consume_spent [of h s k at i] by simp

lemma upsert_spent_eq: "upsertInstallationCredential x s = (r, s') \<Longrightarrow> spent h s \<Longrightarrow> spent h s'"
  using upsert_spent [of h s x] by simp

lemma bind_spent: "spent h s \<Longrightarrow> spent h (snd (bindEnrollment sha issued i p s))"
  by (auto simp: bindEnrollment_def Let_def intro: consume_spent_eq upsert_spent_eq
      split: prod.splits sum.splits consume_result.splits)

lemma bind_bound:
  assumes "bindEnrollment sha issued i p s = (Inr (Bound c j), s')"
  obtains s1 r where "consumeEnrollmentSecret (hashPairingPasscode sha p) (clock s) (Some i) s = (Inr Consumed, s1)"
    "upsertInstallationCredential \<lparr>cx_install = i, cx_hash = hashCredential sha Credential issued,
       cx_secret = hashPairingPasscode sha p, cx_source = Manual, cx_created = clock s, cx_seen = clock s,
       cx_expires = None\<rparr> s1 = (Inr r, s')" "c = issued" "j = i" "hashCredential sha Credential issued \<noteq> []"
  using assms
  by (auto simp: bindEnrollment_def Let_def split: prod.splits sum.splits consume_result.splits if_splits)

lemma create_spent: "spent h s \<Longrightarrow> k \<noteq> h \<Longrightarrow> spent h (snd (createEnrollmentSecret k c e u s))"
  unfolding createEnrollmentSecret_def
proof (rule transaction_keeps_spent, assumption)
  fix a s' assume h: "spent h s" "k \<noteq> h" and "tx_write (\<lambda>s. s\<lparr>secrets := filter (\<lambda>r. se_hash r \<noteq> k) (secrets s) @
     [\<lparr>se_hash = k, se_created = c, se_expires = e, se_used = u, se_used_by = None\<rparr>]\<rparr>) s = Inr (a, s')"
  then have s': "secrets s' = filter (\<lambda>r. se_hash r \<noteq> k) (secrets s) @
     [\<lparr>se_hash = k, se_created = c, se_expires = e, se_used = u, se_used_by = None\<rparr>]" by auto
  have f: "find (\<lambda>r. se_hash r = h) (filter (\<lambda>r. se_hash r \<noteq> k) xs) = find (\<lambda>r. se_hash r = h) xs" for xs
    using h(2) by (induction xs) auto
  have "secret_of s' h = secret_of s h"
  proof -
    have "find (\<lambda>r. se_hash r = h) (filter (\<lambda>r. se_hash r \<noteq> k) (secrets s) @ [r]) = find (\<lambda>r. se_hash r = h) (secrets s)"
      if "se_hash r = k" for r
      unfolding find_append f using that h(2) by (cases "find (\<lambda>r. se_hash r = h) (secrets s)") simp_all
    then show ?thesis by (simp add: secret_of_def s')
  qed
  then show "spent h s'" using h(1) by (simp add: spent_def)
qed

lemma touch_spent: "spent h s \<Longrightarrow> spent h (snd (touchInstallationCredential i at s))"
  unfolding touchInstallationCredential_def
  by (rule transaction_keeps_spent) (auto simp: spent_def secret_of_def)

lemma revoke_spent: "spent h s \<Longrightarrow> spent h (snd (revokeInstallationCredential i reason at s))"
  unfolding revokeInstallationCredential_def
  by (rule transaction_keeps_spent) (auto simp: spent_def secret_of_def split: option.splits if_splits)

lemma create_spent_eq: "spent h s \<Longrightarrow> k \<noteq> h \<Longrightarrow> createEnrollmentSecret k c e u s = (r, s') \<Longrightarrow> spent h s'"
  using create_spent [of h s k c e u] by simp

lemma revoke_spent_eq: "spent h s \<Longrightarrow> revokeInstallationCredential i reason at s = (r, s') \<Longrightarrow> spent h s'"
  using revoke_spent [of h s i reason at] by simp

lemma auth_run_spent:
  assumes "spent h s" "\<not> reissues sha h a"
  shows "spent h (snd (auth_run sha a s))"
proof (cases a)
  case (Issue ttl p)
  then show ?thesis
    using create_spent_eq [OF assms(1)] assms(2)
    by (auto simp: issuePendingEnrollment_def Let_def split: prod.splits sum.splits)
next
  case (Bind issued i p)
  have "spent h (snd (bindEnrollment sha issued i p s))" by (rule bind_spent [OF assms(1)])
  then show ?thesis
    by (cases "bindEnrollment sha issued i p s"; cases "fst (bindEnrollment sha issued i p s)") (simp_all add: Bind)
next
  case (Revoke i reason at)
  then show ?thesis
    using revoke_spent_eq [OF assms(1)] assms(1)
    by (auto simp: host_revoke_def Let_def split: prod.splits sum.splits option.splits)
next
  case (Verify i p)
  then show ?thesis
    using touch_spent [OF assms(1)] assms(1) by (simp add: verifyInstallationCredential_def split: option.splits)
next
  case (Pass_time t)
  then show ?thesis using assms(1) by (simp add: spent_def secret_of_def)
qed

lemma auth_run_pairs:
  assumes "paired_with sha h (a, fst (auth_run sha a s))"
  shows "\<not> spent h s" "spent h (snd (auth_run sha a s))"
proof -
  have "\<not> spent h s \<and> spent h (snd (auth_run sha a s))"
  proof (cases a)
    case (Bind issued i p)
    obtain r s' where b: "bindEnrollment sha issued i p s = (r, s')" by (cases "bindEnrollment sha issued i p s")
    from assms obtain c j where r: "r = Inr (Bound c j)" and h: "hashPairingPasscode sha p = h"
      by (cases r) (auto simp: Bind b elim!: paired_with.elims)
    obtain s1 row where s: "consumeEnrollmentSecret h (clock s) (Some i) s = (Inr Consumed, s1)"
      "upsertInstallationCredential \<lparr>cx_install = i, cx_hash = hashCredential sha Credential issued,
       cx_secret = h, cx_source = Manual, cx_created = clock s, cx_seen = clock s, cx_expires = None\<rparr> s1 = (Inr row, s')"
      by (rule bind_bound [OF b [unfolded r]]) (simp add: h)
    show ?thesis using consume_consumed [OF s(1)] upsert_spent [OF consume_consumed(2) [OF s(1)]] s(2)
      by (simp add: Bind b r) (metis snd_conv)
  qed (use assms in auto)
  then show "\<not> spent h s" "spent h (snd (auth_run sha a s))" by auto
qed

lemma pairings_at_most_one:
  assumes "\<forall>a \<in> set as. \<not> reissues sha h a"
  shows "length (filter (paired_with sha h) (fst (auth_history sha as s))) \<le> (if spent h s then 0 else 1)"
  using assms
proof (induction as arbitrary: s)
  case (Cons a as)
  obtain out s1 where r: "auth_run sha a s = (out, s1)" by (cases "auth_run sha a s")
  have IH: "length (filter (paired_with sha h) (fst (auth_history sha as s1))) \<le> (if spent h s1 then 0 else 1)"
    using Cons by simp
  have keep: "spent h s \<Longrightarrow> spent h s1" using auth_run_spent [of h s sha a] Cons.prems by (simp add: r)
  have pair: "paired_with sha h (a, out) \<Longrightarrow> \<not> spent h s \<and> spent h s1"
    using auth_run_pairs [of sha h a s] by (simp add: r)
  show ?case using IH keep pair by (auto simp: r case_prod_unfold Let_def split: if_splits)
qed simp

section \<open>A revocation lasts\<close>

definition revoked_in :: "string \<Rightarrow> store \<Rightarrow> bool" where
  "revoked_in i s \<longleftrightarrow> (\<exists>r. credential_of s i = Some r \<and> cr_revoked r \<noteq> None \<and> cr_reason r \<noteq> None)"

lemma revoked_in_db: "revoked_in i s \<Longrightarrow> db_of t = db_of s \<Longrightarrow> revoked_in i t"
  unfolding revoked_in_def credential_of_def by (metis db_of_sel(14))

lemma transaction_keeps_revoked:
  assumes "revoked_in i s" "\<And>a s'. m s = Inr (a, s') \<Longrightarrow> revoked_in i s'"
  shows "revoked_in i (snd (transaction m s))"
  by (rule transaction_preserves [where P = "revoked_in i", OF assms(2)]) (auto intro: revoked_in_db [OF assms(1)])

lemma credential_of_update:
  "(\<And>r. cr_install (f r) = cr_install r) \<Longrightarrow>
   credential_of (update_credential j f s) i = map_option (\<lambda>r. if cr_install r = j then f r else r) (credential_of s i)"
  unfolding credential_of_def update_credential_def by (simp add: find_map_key)

lemma revoked_update:
  assumes "revoked_in i s" "\<And>r. cr_install (f r) = cr_install r"
    "\<And>r. cr_revoked r \<noteq> None \<Longrightarrow> cr_reason r \<noteq> None \<Longrightarrow> cr_revoked (f r) \<noteq> None \<and> cr_reason (f r) \<noteq> None"
  shows "revoked_in i (update_credential j f s)"
proof -
  obtain r where r: "credential_of s i = Some r" "cr_revoked r \<noteq> None" "cr_reason r \<noteq> None"
    using assms(1) by (auto simp: revoked_in_def)
  then show ?thesis using assms(3) [OF r(2,3)] by (simp add: revoked_in_def credential_of_update [where f = f, OF assms(2)])
qed

lemma revoked_cong: "credentials t = credentials s \<Longrightarrow> revoked_in i t = revoked_in i s"
  by (simp add: revoked_in_def credential_of_def)

lemma upsert_revoked:
  assumes "revoked_in i s" "upsertInstallationCredential x s = (r, s')"
  shows "revoked_in i s'"
proof -
  have "revoked_in i (snd (upsertInstallationCredential x s))"
    unfolding upsertInstallationCredential_def
  proof (rule transaction_keeps_revoked [OF assms(1)])
    fix a t assume "upsertInstallationCredential_tx x s = Inr (a, t)"
    then consider "t = update_credential (cx_install x) (\<lambda>r. r\<lparr>cr_hash := cx_hash x, cr_secret := cx_secret x,
          cr_source := cx_source x, cr_created := cx_created x, cr_seen := cx_seen x, cr_expires := cx_expires x\<rparr>) s"
      | r where "credentials t = credentials s @ [r]"
      by (auto simp: upsertInstallationCredential_tx_def Let_def split: option.splits if_splits)
    then show "revoked_in i t"
    proof cases
      case 1
      then show ?thesis using assms(1) by (simp add: revoked_update)
    next
      case 2
      then show ?thesis using assms(1) by (auto simp: revoked_in_def credential_of_def find_append)
    qed
  qed
  then show ?thesis by (simp add: assms(2))
qed

lemma consume_revoked: "revoked_in i s \<Longrightarrow> consumeEnrollmentSecret k at j s = (r, s') \<Longrightarrow> revoked_in i s'"
proof -
  assume a: "revoked_in i s" "consumeEnrollmentSecret k at j s = (r, s')"
  have "revoked_in i (snd (consumeEnrollmentSecret k at j s))" unfolding consumeEnrollmentSecret_def
    by (rule transaction_keeps_revoked [OF a(1)])
      (use a(1) in \<open>auto simp: Let_def revoked_in_def credential_of_def split: option.splits if_splits\<close>)
  then show ?thesis by (simp add: a(2))
qed

lemma bind_revoked: "revoked_in i s \<Longrightarrow> bindEnrollment sha issued j p s = (r, s') \<Longrightarrow> revoked_in i s'"
  by (auto simp: bindEnrollment_def Let_def intro: consume_revoked upsert_revoked
      split: prod.splits sum.splits consume_result.splits if_splits)

lemma touch_revoked: "revoked_in i s \<Longrightarrow> revoked_in i (snd (touchInstallationCredential j at s))"
  unfolding touchInstallationCredential_def
  by (rule transaction_keeps_revoked) (auto intro!: revoked_update)

lemma revoke_revoked: "revoked_in i s \<Longrightarrow> revokeInstallationCredential j reason at s = (r, s') \<Longrightarrow> revoked_in i s'"
proof -
  assume a: "revoked_in i s" "revokeInstallationCredential j reason at s = (r, s')"
  have "revoked_in i (snd (revokeInstallationCredential j reason at s))" unfolding revokeInstallationCredential_def
    by (rule transaction_keeps_revoked [OF a(1)])
      (use a(1) in \<open>auto intro!: revoked_update split: option.splits if_splits\<close>)
  then show ?thesis by (simp add: a(2))
qed

lemma create_revoked: "revoked_in i s \<Longrightarrow> createEnrollmentSecret h c e u s = (r, s') \<Longrightarrow> revoked_in i s'"
proof -
  assume a: "revoked_in i s" "createEnrollmentSecret h c e u s = (r, s')"
  have "revoked_in i (snd (createEnrollmentSecret h c e u s))" unfolding createEnrollmentSecret_def
    by (rule transaction_keeps_revoked [OF a(1)]) (use a(1) in \<open>auto simp: revoked_in_def credential_of_def\<close>)
  then show ?thesis by (simp add: a(2))
qed

lemma auth_run_revoked:
  assumes "revoked_in i s"
  shows "revoked_in i (snd (auth_run sha a s))"
proof (cases a)
  case (Issue ttl p)
  then show ?thesis using create_revoked [OF assms]
    by (auto simp: issuePendingEnrollment_def Let_def split: prod.splits sum.splits)
next
  case (Bind issued j p)
  show ?thesis using bind_revoked [OF assms, of sha issued j p]
    by (cases "bindEnrollment sha issued j p s"; cases "fst (bindEnrollment sha issued j p s)") (simp_all add: Bind)
next
  case (Revoke j reason at)
  then show ?thesis using revoke_revoked [OF assms] assms
    by (auto simp: host_revoke_def Let_def split: prod.splits sum.splits option.splits)
next
  case (Verify j p)
  then show ?thesis using touch_revoked [OF assms] assms by (simp add: verifyInstallationCredential_def split: option.splits)
next
  case (Pass_time t)
  then show ?thesis using assms by (simp add: revoked_in_def credential_of_def)
qed

lemma auth_history_revoked: "revoked_in i s \<Longrightarrow> revoked_in i (snd (auth_history sha as s))"
proof (induction as arbitrary: s)
  case (Cons a as)
  have "revoked_in i (snd (auth_run sha a s))" by (rule auth_run_revoked [OF Cons.prems])
  from Cons.IH [OF this] show ?case by (simp add: case_prod_unfold Let_def)
qed simp

lemma revoked_refused: "revoked_in i s \<Longrightarrow> verifyInstallationCredential sha i p s = (Is_revoked, s)"
  by (auto simp: revoked_in_def verifyInstallationCredential_def findInstallationCredential_def)

text \<open>Rows carry the time and the reason of a revocation together.\<close>

definition credentials_ok :: "store \<Rightarrow> bool" where
  "credentials_ok s \<longleftrightarrow> (\<forall>r \<in> set (credentials s). (cr_revoked r = None) = (cr_reason r = None))"

lemma host_revoke_revokes:
  assumes "credentials_ok s" "host_revoke i reason at s = (Inr (Revoked, t), s')"
  shows "revoked_in i s'"
proof -
  obtain r b where r: "findInstallationCredential s i = Some r" "cr_revoked r = None"
    and b: "revokeInstallationCredential i reason t s = (Inr b, s')"
    using assms(2) by (auto simp: host_revoke_def Let_def split: option.splits prod.splits sum.splits if_splits)
  obtain r0 where r0: "credential_of s i = Some r0" using r(1) by (auto simp: findInstallationCredential_def)
  have key: "r0 \<in> set (credentials s)" "cr_install r0 = i" using find_SomeD [OF r0 [unfolded credential_of_def]] by simp_all
  have "cr_revoked r0 = None"
    using r r0 assms(1) key(1) by (auto simp: findInstallationCredential_def credentials_ok_def split: if_splits)
  then have "s' = update_credential i (\<lambda>r. r\<lparr>cr_revoked := Some t, cr_reason := Some (take 200 reason)\<rparr>) s"
    using transaction_InrD [OF b [unfolded revokeInstallationCredential_def]] r0 by simp
  then show ?thesis by (simp add: revoked_in_def credential_of_update r0 key(2))
qed

section \<open>A new pairing verifies\<close>

lemma rx_iter_class_all:
  "list_all (in_class cl) t \<Longrightarrow> l \<le> length t \<Longrightarrow> length t \<le> l + m \<Longrightarrow>
   (rev t @ b, []) \<in> set (rx_iter (rx_run (In cl)) l m (b, t))"
proof (induction t arbitrary: l m b)
  case Nil
  then show ?case by (cases m) simp_all
next
  case (Cons c t)
  show ?case
  proof (cases l)
    case 0
    with Cons.prems obtain m' where m: "m = Suc m'" by (cases m) auto
    show ?thesis using Cons.IH [of 0 m' "c # b"] Cons.prems 0 m by simp
  next
    case (Suc l')
    show ?thesis using Cons.IH [of l' m "c # b"] Cons.prems Suc by simp
  qed
qed

lemma rx_test_all_class:
  assumes "t \<noteq> []" "list_all (in_class cl) t"
  shows "rx_test (sequence [some_of (In cl), AtEnd]) t"
proof -
  have "(rev t, []) \<in> set (rx_iter (rx_run (In cl)) 1 (length t) ([], t))"
    using rx_iter_class_all [OF assms(2), of 1 "length t" "[]"] assms(1) by (cases t) simp_all
  moreover have "rx_run AtEnd (rev t, []) \<noteq> []" by simp
  ultimately have "concat (map (rx_run AtEnd) (rx_iter (rx_run (In cl)) 1 (length t) ([], t))) \<noteq> []"
    unfolding concat_eq_Nil_conv set_map by blast
  then show ?thesis by (simp only: rx_test_def sequence.simps rx_run.simps(5,7) option.case snd_conv simp_thms)
qed

definition hex_text :: "string \<Rightarrow> bool" where
  "hex_text t \<longleftrightarrow> length t = 64 \<and> set t \<subseteq> set ''0123456789abcdef''"

lemma hex_alphabet:
  assumes "hex_text t"
  shows "rx_test ALPHABET t"
  unfolding ALPHABET_def
proof (rule rx_test_all_class)
  show "t \<noteq> []" using assms by (auto simp: hex_text_def)
  have "list_all (in_class ''AZaz09__--'') ''0123456789abcdef''" by simp
  then show "list_all (in_class ''AZaz09__--'') t" using assms unfolding hex_text_def list_all_iff by blast
qed

lemma hex_value_digit:
  assumes "c \<in> set ''0123456789abcdef''"
  obtains n where "hex_value c = Some n" "n < 16" "c = ''0123456789abcdef'' ! n"
proof -
  have "list_all (\<lambda>c. case hex_value c of Some n \<Rightarrow> n < 16 \<and> c = ''0123456789abcdef'' ! n | None \<Rightarrow> False) ''0123456789abcdef''"
    by (simp add: hex_value_def)
  then have "case hex_value c of Some n \<Rightarrow> n < 16 \<and> c = ''0123456789abcdef'' ! n | None \<Rightarrow> False"
    using assms unfolding list_all_iff by blast
  then show ?thesis using that by (auto split: option.splits)
qed

lemma hex_bytes_inj:
  assumes "set xs \<subseteq> set ''0123456789abcdef''" "set ys \<subseteq> set ''0123456789abcdef''" "length xs = length ys" "even (length xs)"
    "hex_bytes xs = hex_bytes ys"
  shows "xs = ys"
  using assms
proof (induction xs arbitrary: ys rule: induct_list012)
  case (3 a b cs)
  then obtain a' b' cs' where ys: "ys = a' # b' # cs'" by (cases ys; cases "tl ys") auto
  have c: "a \<in> set ''0123456789abcdef''" "b \<in> set ''0123456789abcdef''" "a' \<in> set ''0123456789abcdef''" "b' \<in> set ''0123456789abcdef''"
    using "3.prems"(1,2) unfolding ys by (simp_all only: list.set insert_subset)
  obtain w where w: "hex_value a = Some w" "w < 16" "a = ''0123456789abcdef'' ! w" by (rule hex_value_digit [OF c(1)])
  obtain x where x: "hex_value b = Some x" "x < 16" "b = ''0123456789abcdef'' ! x" by (rule hex_value_digit [OF c(2)])
  obtain y where y: "hex_value a' = Some y" "y < 16" "a' = ''0123456789abcdef'' ! y" by (rule hex_value_digit [OF c(3)])
  obtain z where z: "hex_value b' = Some z" "z < 16" "b' = ''0123456789abcdef'' ! z" by (rule hex_value_digit [OF c(4)])
  have eq: "16 * w + x = 16 * y + z" "hex_bytes cs = hex_bytes cs'"
    using "3.prems"(5) by (simp_all add: ys w(1) x(1) y(1) z(1))
  have wy: "w = y" using eq(1) x(2) z(2) by linarith
  moreover have "x = z" using eq(1) wy by simp
  moreover have "cs = cs'"
    using "3.prems"(1-4) eq(2) unfolding ys by (intro "3.IH"(1)) (simp_all only: list.set insert_subset length_Cons even_Suc nat.inject simp_thms)
  ultimately show ?case using w(3) x(3) y(3) z(3) by (simp only: ys)
qed auto

lemma verify_hex:
  assumes "hex_text (sha p)" "hex_text (sha q)" "starts_with CREDENTIAL_PREFIX p" "p \<noteq> []"
  shows "verifyCredential sha q (sha p) \<longleftrightarrow> starts_with CREDENTIAL_PREFIX q \<and> q \<noteq> [] \<and> sha q = sha p"
proof -
  have len: "length (sha p) = 64" "length (sha q) = 64" using assms(1,2) by (simp_all add: hex_text_def)
  have "hex_bytes (sha q) = hex_bytes (sha p) \<longleftrightarrow> sha q = sha p"
    using hex_bytes_inj [of "sha q" "sha p"] assms(1,2) len unfolding hex_text_def by auto
  then show ?thesis
    using hex_alphabet [OF assms(1)] len by (auto simp: verifyCredential_def hashCredential_def Let_def)
qed

lemma upsert_row:
  assumes "upsertInstallationCredential x s = (Inr r, s')" "\<not> revoked_in (cx_install x) s"
  shows "\<exists>row. findInstallationCredential s' (cx_install x) = Some row \<and> cr_hash row = cx_hash x
     \<and> cr_expires row = cx_expires x \<and> cr_revoked row = None"
    "k \<noteq> cx_install x \<Longrightarrow> credential_of s' k = credential_of s k"
proof -
  let ?i = "cx_install x"
  let ?f = "\<lambda>r. r\<lparr>cr_hash := cx_hash x, cr_secret := cx_secret x, cr_source := cx_source x, cr_created := cx_created x,
     cr_seen := cx_seen x, cr_expires := cx_expires x\<rparr>"
  let ?n = "\<lparr>cr_install = ?i, cr_hash = cx_hash x, cr_secret = cx_secret x, cr_source = cx_source x,
     cr_created = cx_created x, cr_seen = cx_seen x, cr_expires = cx_expires x, cr_revoked = None, cr_reason = None\<rparr>"
  note tx = transaction_InrD [OF assms(1) [unfolded upsertInstallationCredential_def], THEN conjunct1]
  have s': "s' = (if credential_of s ?i \<noteq> None then update_credential ?i ?f s else s\<lparr>credentials := credentials s @ [?n]\<rparr>)"
    using tx unfolding upsertInstallationCredential_tx_def by (auto simp: Let_def split: option.splits if_splits)
  have new: "credential_of s' k = (if k = ?i then Some (case credential_of s ?i of Some r \<Rightarrow> ?f r | None \<Rightarrow> ?n)
      else credential_of s k)" for k
  proof (cases "credential_of s ?i")
    case None
    then have "s' = s\<lparr>credentials := credentials s @ [?n]\<rparr>" by (simp add: s')
    then show ?thesis using None by (auto simp: credential_of_def find_append split: option.split)
  next
    case (Some r)
    have key: "cr_install r' = k" if "credential_of s k = Some r'" for r' k
      using find_SomeD [OF that [unfolded credential_of_def]] by simp
    have "s' = update_credential ?i ?f s" by (simp add: s' Some)
    then show ?thesis using Some key by (cases "credential_of s k") (auto simp: credential_of_update)
  qed
  show "\<exists>row. findInstallationCredential s' ?i = Some row \<and> cr_hash row = cx_hash x
     \<and> cr_expires row = cx_expires x \<and> cr_revoked row = None"
    using assms(2) by (auto simp: findInstallationCredential_def new revoked_in_def split: option.splits)
  show "k \<noteq> ?i \<Longrightarrow> credential_of s' k = credential_of s k" by (simp add: new)
qed

section \<open>Properties\<close>

text \<open>
  C29 (passcode_once). Whatever the order of pairings, revocations, checks and new passcodes, and however
  much time passes, a pairing passcode pairs at most one phone, unless the host issues the same passcode
  again; a passcode that has been used pairs none.
\<close>

theorem passcode_once:
  assumes "\<forall>a \<in> set as. \<not> reissues sha h a"
  shows "length (filter (paired_with sha h) (fst (auth_history sha as s)))
    \<le> (case secret_of s h of Some r \<Rightarrow> if se_used r \<noteq> None then 0 else 1 | None \<Rightarrow> 1)"
  using pairings_at_most_one [OF assms, of s] by (auto simp: spent_def split: option.splits if_splits)

text \<open>
  C30 (revocation_lasts). Once the host has revoked an installation, no check of a credential for it
  succeeds again, whatever is issued, paired, checked or revoked afterwards; even a new pairing of the
  same installation does not make it valid.
\<close>

theorem revocation_lasts:
  assumes "credentials_ok s" and "host_revoke i reason at s = (Inr (Revoked, t), s1)"
  shows "fst (verifyInstallationCredential sha i plaintext (snd (auth_history sha as s1))) = Is_revoked"
  using revoked_refused [OF auth_history_revoked [OF host_revoke_revokes [OF assms]]] by simp

text \<open>
  If SHA-256 gives 64 lower-case hexadecimal digits, then after a successful pairing
  of an installation that has not been revoked, exactly the credentials with the hash of the issued one pass
  its check; the issued one does, and the other installations keep their credentials.
\<close>

theorem pairing_verifies:
  assumes "\<forall>p. hex_text (sha p)" and "\<not> revoked_in i s"
    and "bindEnrollment sha issued i passcode s = (Inr (Bound cred j), s')"
  shows "cred = issued \<and> j = i
    \<and> (\<forall>p. fst (verifyInstallationCredential sha i p s')
          = (if starts_with CREDENTIAL_PREFIX p \<and> sha p = sha issued then Valid (clock s') else Wrong))
    \<and> fst (verifyInstallationCredential sha i issued s') = Valid (clock s')
    \<and> (\<forall>k. k \<noteq> i \<longrightarrow> credential_of s' k = credential_of s k)"
proof -
  obtain s1 r where s1: "consumeEnrollmentSecret (hashPairingPasscode sha passcode) (clock s) (Some i) s = (Inr Consumed, s1)"
    and up: "upsertInstallationCredential \<lparr>cx_install = i, cx_hash = hashCredential sha Credential issued,
       cx_secret = hashPairingPasscode sha passcode, cx_source = Manual, cx_created = clock s, cx_seen = clock s,
       cx_expires = None\<rparr> s1 = (Inr r, s')"
    and c: "cred = issued" "j = i" "hashCredential sha Credential issued \<noteq> []"
    by (rule bind_bound [OF assms(3)])
  have cs: "credentials s1 = credentials s"
    using transaction_InrD [OF s1 [unfolded consumeEnrollmentSecret_def]]
    by (auto simp: Let_def split: option.splits if_splits)
  have nr: "\<not> revoked_in i s1" using assms(2) revoked_cong [OF cs] by simp
  have h: "hashCredential sha Credential issued = sha issued" "starts_with CREDENTIAL_PREFIX issued" "issued \<noteq> []"
    using c(3) by (auto simp: hashCredential_def split: if_splits)
  obtain row where row: "findInstallationCredential s' i = Some row" "cr_hash row = sha issued" "cr_expires row = None"
    "cr_revoked row = None"
    using upsert_row(1) [OF up] nr by (auto simp: h(1))
  have ver: "fst (verifyInstallationCredential sha i p s')
      = (if starts_with CREDENTIAL_PREFIX p \<and> sha p = sha issued then Valid (clock s') else Wrong)" for p
    using verify_hex [of sha issued p] assms(1) h(2,3) row
    by (cases "p = []") (auto simp: verifyInstallationCredential_def CREDENTIAL_PREFIX_def starts_with_def)
  have other: "credential_of s' k = credential_of s k" if "k \<noteq> i" for k
    using upsert_row(2) [OF up] nr that by (simp add: credential_of_def cs)
  show ?thesis using c(1,2) ver other h(2) by simp
qed

definition demo_sha :: "string \<Rightarrow> string" where
  "demo_sha p = replicate 63 (CHR ''a'') @ (if p = ''pc_x'' then ''b'' else ''a'')"

definition demo_installation :: string where
  "demo_installation = ''00000000-0000-0000-0000-00000000000a''"

definition demo_auth :: store where
  "demo_auth = (empty_store demo_uuids 10)\<lparr>secrets :=
     [\<lparr>se_hash = replicate 64 (CHR ''a''), se_created = 1, se_expires = 100, se_used = None, se_used_by = None\<rparr>]\<rparr>"

lemma demo_secret: "\<exists>r. secret_of demo_auth (replicate 64 (CHR ''a'')) = Some r \<and> se_used r = None"
  by (simp add: secret_of_def demo_auth_def)

theorem passcode_once_witness:
  "length (filter (paired_with demo_sha (replicate 64 (CHR ''a''))) (fst (auth_history demo_sha
      [Bind ''pc_x'' demo_installation ''123456'', Pass_time 20, Bind ''pc_y'' demo_installation ''123456''] demo_auth))) \<le> 1"
proof -
  let ?as = "[Bind ''pc_x'' demo_installation ''123456'', Pass_time 20, Bind ''pc_y'' demo_installation ''123456'']"
  have "\<forall>a \<in> set ?as. \<not> reissues demo_sha (replicate 64 (CHR ''a'')) a" by simp
  from passcode_once [OF this, of demo_auth] demo_secret show ?thesis by (auto simp del: auth_history.simps)
qed

definition demo_paired :: store where
  "demo_paired = demo_auth\<lparr>credentials := [\<lparr>cr_install = ''i'', cr_hash = ''h'', cr_secret = ''s'', cr_source = Manual,
     cr_created = 1, cr_seen = 1, cr_expires = None, cr_revoked = None, cr_reason = None\<rparr>]\<rparr>"

theorem revocation_lasts_witness:
  "\<exists>t s1. host_revoke ''i'' ''lost'' None demo_paired = (Inr (Revoked, t), s1)
     \<and> fst (verifyInstallationCredential demo_sha ''i'' ''pc_x'' (snd (auth_history demo_sha [Verify ''i'' ''pc_x''] s1))) = Is_revoked"
proof -
  have ok: "credentials_ok demo_paired" by (simp add: credentials_ok_def demo_paired_def)
  have "\<exists>t s1. host_revoke ''i'' ''lost'' None demo_paired = (Inr (Revoked, t), s1)"
    by (simp add: host_revoke_def Let_def findInstallationCredential_def credential_of_def demo_paired_def demo_auth_def
        empty_store_def revokeInstallationCredential_def transaction_eq ready_def)
  then obtain t s1 where eq: "host_revoke ''i'' ''lost'' None demo_paired = (Inr (Revoked, t), s1)" by blast
  show ?thesis using revocation_lasts [OF ok eq] eq by blast
qed

end
