(* ===== verification/Command_Service.thy ===== *)
theory Command_Service
  imports Store_Commands Canonical "HOL-Library.Sublist"
begin

text \<open>
  The durable command service of core/domain.ts: a submitted command is recorded, queued in the lane of
  its scope and handed to the agent adapter, one command of a lane at a time. The adapter is the outside:
  what it was handed is recorded in the model's \<open>sv_sent\<close>, how a call ends is an argument.
\<close>

section \<open>State\<close>

text \<open>
  A lane is the chain of promises of one key: the command whose \<open>dispatch\<close> is awaited, and the tasks
  that wait for it. An idle lane is the same as none.
\<close>

record lane =
  ln_flight :: "command_row option"
  ln_waiting :: "command_row list"

record service =
  sv_store :: store
  sv_lanes :: "string \<Rightarrow> lane"
  sv_sent :: "command_row list"

definition idle_lane :: lane where
  "idle_lane = \<lparr>ln_flight = None, ln_waiting = []\<rparr>"

definition enqueue :: "string \<Rightarrow> command_row \<Rightarrow> (string \<Rightarrow> lane) \<Rightarrow> string \<Rightarrow> lane" where
  "enqueue key c lanes = lanes(key := (lanes key)\<lparr>ln_waiting := ln_waiting (lanes key) @ [c]\<rparr>)"

definition BRIDGE_LOCAL_COMMANDS :: "string list" where
  "BRIDGE_LOCAL_COMMANDS = [''controller.acquire'', ''controller.takeover'', ''controller.release'']"

section \<open>Submission\<close>

record submission =
  sb_id :: string
  sb_type :: string
  sb_payload :: obj
  sb_scope :: string
  sb_stream :: string
  sb_lease :: "lease_mutation option"

record receipt =
  rc_command :: string
  rc_state :: string
  rc_duplicate :: bool

definition submission_input :: "submission \<Rightarrow> string \<Rightarrow> command_input" where
  "submission_input b h =
     \<lparr>ci_id = sb_id b, ci_type = sb_type b, ci_scope = sb_scope b, ci_stream = sb_stream b, ci_hash = h,
      ci_payload = sb_payload b, ci_lease = sb_lease b\<rparr>"

definition dispatchAccepted :: "command_row \<Rightarrow> service \<Rightarrow> service" where
  "dispatchAccepted c sv = sv\<lparr>sv_lanes := enqueue (cm_scope c) c (sv_lanes sv)\<rparr>"

definition submit :: "(string \<Rightarrow> string) \<Rightarrow> (string \<Rightarrow> string) \<Rightarrow> submission \<Rightarrow> service \<Rightarrow> (exn + receipt) \<times> service" where
  "submit nfc sha b sv =
     (case semanticCommandSha256 nfc sha (sb_type b) (sb_payload b) of
        Inl e \<Rightarrow> (Inl e, sv)
      | Inr h \<Rightarrow>
          (case acceptCommand (submission_input b h) (sv_store sv) of
             (Inl e, s) \<Rightarrow> (Inl e, sv\<lparr>sv_store := s\<rparr>)
           | (Inr Conflicting, s) \<Rightarrow> (Inl (Store_error Conflict ''idempotency conflict''), sv\<lparr>sv_store := s\<rparr>)
           | (Inr (Duplicate c), s) \<Rightarrow>
               (Inr \<lparr>rc_command = sb_id b, rc_state = cm_state c, rc_duplicate = True\<rparr>, sv\<lparr>sv_store := s\<rparr>)
           | (Inr (Accepted c _), s) \<Rightarrow>
               (Inr \<lparr>rc_command = sb_id b, rc_state = ''accepted'', rc_duplicate = False\<rparr>,
                dispatchAccepted c (sv\<lparr>sv_store := s\<rparr>))))"

section \<open>The task of a command\<close>

datatype dispatch_end = Returned | Raised_indeterminate | Raised_error

text \<open>The catch branch; a throw of its own transition rejects the promise and ends the task.\<close>

definition fail_task :: "string \<Rightarrow> bool \<Rightarrow> store \<Rightarrow> store" where
  "fail_task i indeterminate s =
     snd (transitionCommand i [''dispatched'', ''running''] (if indeterminate then ''indeterminate'' else ''failed'') s)"

definition complete_task :: "string \<Rightarrow> store \<Rightarrow> store" where
  "complete_task i s =
     (case transitionCommand i [''running''] ''completed'' s of
        (Inl _, s') \<Rightarrow> fail_task i False s'
      | (Inr _, s') \<Rightarrow> s')"

text \<open>The task up to its \<open>await\<close>: the command that is handed to the adapter, if one is.\<close>

definition begin_task :: "string \<Rightarrow> store \<Rightarrow> command_row option \<times> store" where
  "begin_task i s =
     (case transitionCommand i [''accepted''] ''dispatched'' s of
        (Inl _, s1) \<Rightarrow> (None, s1)
      | (Inr None, s1) \<Rightarrow> (None, s1)
      | (Inr (Some (claimed, _)), s1) \<Rightarrow>
          (case transitionCommand i [''dispatched''] ''running'' s1 of
             (Inl _, s2) \<Rightarrow> (None, fail_task i False s2)
           | (Inr _, s2) \<Rightarrow>
               if cm_type claimed \<in> set BRIDGE_LOCAL_COMMANDS then (None, complete_task i s2)
               else (Some claimed, s2)))"

definition end_task :: "string \<Rightarrow> dispatch_end \<Rightarrow> store \<Rightarrow> store" where
  "end_task i r s =
     (case r of Returned \<Rightarrow> complete_task i s | Raised_indeterminate \<Rightarrow> fail_task i True s
              | Raised_error \<Rightarrow> fail_task i False s)"

definition start_next :: "string \<Rightarrow> service \<Rightarrow> service" where
  "start_next key sv =
     (case (ln_flight (sv_lanes sv key), ln_waiting (sv_lanes sv key)) of
        (None, c # cs) \<Rightarrow>
          (let (out, s) = begin_task (cm_id c) (sv_store sv) in
           sv\<lparr>sv_store := s, sv_lanes := (sv_lanes sv)(key := \<lparr>ln_flight = out, ln_waiting = cs\<rparr>),
              sv_sent := sv_sent sv @ (case out of Some d \<Rightarrow> [d] | None \<Rightarrow> [])\<rparr>)
      | _ \<Rightarrow> sv)"

definition finish_current :: "string \<Rightarrow> dispatch_end \<Rightarrow> service \<Rightarrow> service" where
  "finish_current key r sv =
     (case ln_flight (sv_lanes sv key) of
        Some c \<Rightarrow> sv\<lparr>sv_store := end_task (cm_id c) r (sv_store sv),
                     sv_lanes := (sv_lanes sv)(key := (sv_lanes sv key)\<lparr>ln_flight := None\<rparr>)\<rparr>
      | None \<Rightarrow> sv)"

section \<open>Recovery after a restart\<close>

definition recover :: "service \<Rightarrow> (exn + nat \<times> nat) \<times> service" where
  "recover sv =
     (case markUncertainIndeterminate (sv_store sv) of
        (Inl e, s) \<Rightarrow> (Inl e, sv\<lparr>sv_store := s\<rparr>)
      | (Inr marked, s) \<Rightarrow>
          (let accepted = filter (\<lambda>c. cm_state c = ''accepted'') (recoveryCandidates s) in
           (Inr (length accepted, length marked), fold dispatchAccepted accepted (sv\<lparr>sv_store := s\<rparr>))))"

section \<open>Runs\<close>

text \<open>
  The moves of a running service: a submission, the next task of a lane, the end of an adapter call, and
  any other operation of the store, none of which writes the commands table.
\<close>

inductive service_step :: "(string \<Rightarrow> string) \<Rightarrow> (string \<Rightarrow> string) \<Rightarrow> service \<Rightarrow> service \<Rightarrow> bool" for nfc sha where
  submitted: "service_step nfc sha sv (snd (submit nfc sha b sv))"
| started: "service_step nfc sha sv (start_next key sv)"
| ended: "service_step nfc sha sv (finish_current key r sv)"
| other_work: "commands s = commands (sv_store sv) \<Longrightarrow> service_step nfc sha sv (sv\<lparr>sv_store := s\<rparr>)"

text \<open>With restarts: the lanes are lost at any moment, and the service recovers from the store it finds.\<close>

inductive service_life :: "(string \<Rightarrow> string) \<Rightarrow> (string \<Rightarrow> string) \<Rightarrow> service \<Rightarrow> service \<Rightarrow> bool" for nfc sha sv0 where
  begun: "service_life nfc sha sv0 sv0"
| moved: "service_life nfc sha sv0 sv \<Longrightarrow> service_step nfc sha sv sv' \<Longrightarrow> service_life nfc sha sv0 sv'"
| crashed: "service_life nfc sha sv0 sv \<Longrightarrow> commands s = commands (sv_store sv) \<Longrightarrow>
    service_life nfc sha sv0 (sv\<lparr>sv_store := s, sv_lanes := (\<lambda>_. idle_lane)\<rparr>)"
| recovered: "service_life nfc sha sv0 sv \<Longrightarrow> service_life nfc sha sv0 (snd (recover sv))"

inductive service_run :: "(string \<Rightarrow> string) \<Rightarrow> (string \<Rightarrow> string) \<Rightarrow> service \<Rightarrow> service \<Rightarrow> bool" for nfc sha sv0 where
  at_start: "service_run nfc sha sv0 sv0"
| stepped: "service_run nfc sha sv0 sv \<Longrightarrow> service_step nfc sha sv sv' \<Longrightarrow> service_run nfc sha sv0 sv'"

definition new_service :: "store \<Rightarrow> service" where
  "new_service s = \<lparr>sv_store = s, sv_lanes = (\<lambda>_. idle_lane), sv_sent = []\<rparr>"

section \<open>What the store operations do to commands\<close>

definition row_kept :: "command_row \<Rightarrow> command_row \<Rightarrow> bool" where
  "row_kept c d \<longleftrightarrow> cm_type d = cm_type c \<and> cm_payload d = cm_payload c \<and> cm_scope d = cm_scope c
     \<and> (cm_state c \<noteq> ''accepted'' \<longrightarrow> cm_state d \<noteq> ''accepted'')"

lemma row_kept_refl [simp]: "row_kept c c"
  by (simp add: row_kept_def)

lemma row_kept_trans: "row_kept c d \<Longrightarrow> row_kept d e \<Longrightarrow> row_kept c e"
  by (simp add: row_kept_def)

definition cmd_keys :: "store \<Rightarrow> (string \<times> string) list" where
  "cmd_keys s = map (\<lambda>c. (cm_id c, cm_scope c)) (commands s)"

text \<open>Commands are only added, at the end, and never become accepted again.\<close>

definition cmds_step :: "store \<Rightarrow> store \<Rightarrow> bool" where
  "cmds_step s s' \<longleftrightarrow> prefix (cmd_keys s) (cmd_keys s')
     \<and> (\<forall>i c. command s i = Some c \<longrightarrow> (\<exists>d. command s' i = Some d \<and> row_kept c d))"

lemma cmds_step_same: "commands t = commands s \<Longrightarrow> cmds_step s t"
  using command_cong [of t s] by (simp add: cmds_step_def cmd_keys_def)

lemma cmds_step_trans: "cmds_step s t \<Longrightarrow> cmds_step t u \<Longrightarrow> cmds_step s u"
  unfolding cmds_step_def by (meson row_kept_trans prefix_order.trans)

lemma cmds_stepD: "cmds_step s t \<Longrightarrow> command s i = Some c \<Longrightarrow> \<exists>d. command t i = Some d \<and> row_kept c d"
  by (simp add: cmds_step_def)

lemma transaction_commands:
  assumes "transaction m s = (r, s')" "\<And>a t. m s = Inr (a, t) \<Longrightarrow> P (Inr a) t" "\<And>e t. commands t = commands s \<Longrightarrow> P (Inl e) t"
  shows "P r s'"
proof (cases r)
  case (Inl e)
  have "db_of s' = db_of s" using transaction_atomic [OF assms(1)] Inl by simp
  then have "commands s' = commands s" by (metis db_of_sel(5))
  then show ?thesis using assms(3) Inl by simp
next
  case (Inr a)
  then show ?thesis using transaction_atomic [OF assms(1)] assms(2) by simp
qed

lemma transition_cases:
  assumes "transitionCommand i ex to s = (r, s')"
  shows "(commands s' = commands s \<and> (\<forall>x. r \<noteq> Inr (Some x)))
    \<or> (\<exists>c d ev. command s i = Some c \<and> cm_state c \<in> set ex \<and> commands s' = commands (set_command_state i to s)
        \<and> r = Inr (Some (d, ev)) \<and> command s' i = Some d)"
  using assms unfolding transitionCommand_def
proof (rule transaction_commands)
  fix a t assume tx: "transitionCommand_tx i ex to s = Inr (a, t)"
  show "(commands t = commands s \<and> (\<forall>x. Inr a \<noteq> Inr (Some x)))
    \<or> (\<exists>c d ev. command s i = Some c \<and> cm_state c \<in> set ex \<and> commands t = commands (set_command_state i to s)
        \<and> Inr a = Inr (Some (d, ev)) \<and> command t i = Some d)"
  proof (cases "\<exists>c. command s i = Some c \<and> cm_state c \<in> set ex")
    case True
    then obtain c where c: "command s i = Some c" "cm_state c \<in> set ex" by blast
    let ?p = "[(''commandId'', JStr i), (''commandType'', JStr (cm_type c)), (''state'', JStr to)]"
    obtain ev u where a: "append_fresh (cm_stream c) ''command.state'' ?p (set_command_state i to s) = Inr (ev, u)"
      "(case command u i of None \<Rightarrow> Inl (Type_error ''null is not an object'') | Some c' \<Rightarrow> Inr (Some (c', ev), u)) = Inr (a, t)"
      using tx c unfolding transitionCommand_tx_def by (auto simp: tx_bind_Inr_iff)
    obtain d where d: "command u i = Some d" using a(2) by (cases "command u i") auto
    have "t = u" "a = Some (d, ev)" using a(2) d by auto
    then show ?thesis using c d append_fresh_frame(1) [OF a(1)] by auto
  next
    case False
    then have "t = s \<and> a = None" using tx by (auto simp: transitionCommand_tx_def split: option.splits if_splits)
    then show ?thesis by auto
  qed
qed auto

lemma transition_step:
  assumes "transitionCommand i ex to s = (r, s')" "to \<noteq> ''accepted''"
  shows "cmds_step s s'"
  using transition_cases [OF assms(1)]
proof (elim disjE exE conjE)
  fix c assume cs: "commands s' = commands (set_command_state i to s)"
  have keys: "cmd_keys s' = cmd_keys s"
    unfolding cmd_keys_def cs by (simp add: set_command_state_def comp_def) 
  from cs have "command s' j = command (set_command_state i to s) j" for j using command_cong by metis
  then show ?thesis using assms(2) by (auto simp: cmds_step_def command_set_command_state row_kept_def keys)
qed (rule cmds_step_same)

lemma fail_task_step: "cmds_step s (fail_task i ind s)"
  unfolding fail_task_def
  by (cases "transitionCommand i [''dispatched'', ''running''] (if ind then ''indeterminate'' else ''failed'') s")
    (auto dest: transition_step split: if_splits)

lemma complete_task_step: "cmds_step s (complete_task i s)"
proof -
  obtain r t where t: "transitionCommand i [''running''] ''completed'' s = (r, t)"
    by (cases "transitionCommand i [''running''] ''completed'' s")
  have "cmds_step s t" by (rule transition_step [OF t]) simp
  then show ?thesis using cmds_step_trans [OF _ fail_task_step] by (cases r) (simp_all add: complete_task_def t)
qed

lemma end_task_step: "cmds_step s (end_task i r s)"
  by (cases r) (simp_all add: end_task_def complete_task_step fail_task_step)

text \<open>A task that hands its command over found it accepted and leaves it otherwise.\<close>

lemma begin_task_step: "cmds_step s (snd (begin_task i s))"
  and begin_task_sent: "fst (begin_task i s) = Some c \<Longrightarrow>
    \<exists>c0 d. command s i = Some c0 \<and> cm_state c0 = ''accepted'' \<and> row_kept c0 c \<and> cm_id c = i
      \<and> cm_type c \<notin> set BRIDGE_LOCAL_COMMANDS
      \<and> command (snd (begin_task i s)) i = Some d \<and> cm_state d \<noteq> ''accepted'' \<and> row_kept c d"
proof -
  have "cmds_step s (snd (begin_task i s)) \<and> (\<forall>c. fst (begin_task i s) = Some c \<longrightarrow>
    (\<exists>c0 d. command s i = Some c0 \<and> cm_state c0 = ''accepted'' \<and> row_kept c0 c \<and> cm_id c = i
      \<and> cm_type c \<notin> set BRIDGE_LOCAL_COMMANDS
      \<and> command (snd (begin_task i s)) i = Some d \<and> cm_state d \<noteq> ''accepted'' \<and> row_kept c d))"
  proof -
    obtain r1 s1 where t1: "transitionCommand i [''accepted''] ''dispatched'' s = (r1, s1)"
      by (cases "transitionCommand i [''accepted''] ''dispatched'' s")
    have st1: "cmds_step s s1" by (rule transition_step [OF t1]) simp
    show ?thesis
    proof (cases "\<exists>d ev. r1 = Inr (Some (d, ev))")
      case False
      then have "begin_task i s = (None, s1)"
        by (cases r1; cases "projr r1") (auto simp: begin_task_def t1)
      then show ?thesis using st1 by simp
    next
      case True
      then obtain d ev where r1: "r1 = Inr (Some (d, ev))" by blast
      obtain c0 where c0: "command s i = Some c0" "cm_state c0 = ''accepted''"
        "commands s1 = commands (set_command_state i ''dispatched'' s)" "command s1 i = Some d"
        using transition_cases [OF t1] by (auto simp: r1)
      have d: "row_kept c0 d" "cm_state d = ''dispatched''" "cm_id d = i"
        using c0(4) command_SomeD [OF c0(1)] command_SomeD [OF c0(4)]
        by (auto simp: command_cong [OF c0(3)] command_set_command_state c0(1) row_kept_def c0(2))
      obtain r2 s2 where t2: "transitionCommand i [''dispatched''] ''running'' s1 = (r2, s2)"
        by (cases "transitionCommand i [''dispatched''] ''running'' s1")
      have st2: "cmds_step s1 s2" by (rule transition_step [OF t2]) simp
      note st = cmds_step_trans [OF st1 st2]
      have "begin_task i s = (None, fail_task i False s2) \<or> begin_task i s = (None, complete_task i s2)
          \<or> begin_task i s = (Some d, s2) \<and> cm_type d \<notin> set BRIDGE_LOCAL_COMMANDS"
        by (cases r2) (simp_all add: begin_task_def t1 r1 t2)
      then show ?thesis
      proof (elim disjE conjE)
        assume b: "begin_task i s = (Some d, s2)" "cm_type d \<notin> set BRIDGE_LOCAL_COMMANDS"
        obtain e where e: "command s2 i = Some e" "row_kept d e"
          using cmds_stepD [OF st2 c0(4)] by (elim exE conjE) (rule that)
        have "cm_state e \<noteq> ''accepted''" using e(2) d(2) by (simp add: row_kept_def)
        then show ?thesis using b c0(1,2) d(1,3) e st by auto
      qed (use cmds_step_trans [OF st fail_task_step] cmds_step_trans [OF st complete_task_step] in auto)
    qed
  qed
  then show "cmds_step s (snd (begin_task i s))"
    "fst (begin_task i s) = Some c \<Longrightarrow>
    \<exists>c0 d. command s i = Some c0 \<and> cm_state c0 = ''accepted'' \<and> row_kept c0 c \<and> cm_id c = i
      \<and> cm_type c \<notin> set BRIDGE_LOCAL_COMMANDS
      \<and> command (snd (begin_task i s)) i = Some d \<and> cm_state d \<noteq> ''accepted'' \<and> row_kept c d" by auto
qed

lemma accept_cases:
  assumes "acceptCommand inp s = (r, s')"
  shows "(commands s' = commands s \<and> (\<forall>c ev. r \<noteq> Inr (Accepted c ev)))
    \<or> (\<exists>c ev t. r = Inr (Accepted c ev) \<and> command s (ci_id inp) = None \<and> c = accepted_row inp t
        \<and> commands s' = commands s @ [c])"
  using assms unfolding acceptCommand_def
proof (rule transaction_commands)
  fix a t assume tx: "acceptCommand_tx inp s = Inr (a, t)"
  show "(commands t = commands s \<and> (\<forall>c ev. Inr a \<noteq> Inr (Accepted c ev)))
    \<or> (\<exists>c ev u. Inr a = Inr (Accepted c ev) \<and> command s (ci_id inp) = None \<and> c = accepted_row inp u
        \<and> commands t = commands s @ [c])"
  proof (cases "command s (ci_id inp)")
    case (Some c)
    then show ?thesis using tx by (auto simp: acceptCommand_tx_def split: if_splits)
  next
    case None
    obtain l s1 where l: "(case ci_lease inp of None \<Rightarrow> tx_return None | Some m \<Rightarrow> applyLeaseMutationTx m) s = Inr (l, s1)"
      and rest: "tx_bind (\<lambda>t. insert_command (accepted_row inp (clock t)) t) (\<lambda>_.
          tx_bind (append_fresh (ci_stream inp) ''command.state''
            [(''commandId'', JStr (ci_id inp)), (''commandType'', JStr (ci_type inp)),
             (''state'', JStr ''accepted''), (''errorCode'', JNull)]) (\<lambda>ev.
          tx_bind (case ci_lease inp of
                None \<Rightarrow> tx_return ()
              | Some m \<Rightarrow>
                  (case controller_payload (ci_scope inp) (lm_action m) l of
                     Inl e \<Rightarrow> tx_throw e
                   | Inr p \<Rightarrow> tx_bind (append_fresh (ci_stream inp) ''controller.state'' p) (\<lambda>_. tx_return ())))
            (\<lambda>_ t. case command t (ci_id inp) of
                None \<Rightarrow> Inl (Type_error ''null is not an object'')
              | Some c \<Rightarrow> Inr (Accepted c ev, t)))) s1 = Inr (a, t)"
      using tx None unfolding acceptCommand_tx_def accepted_row_def [symmetric] by (auto simp: tx_bind_Inr_iff)
    have c1: "commands s1 = commands s" using l applyLeaseMutationTx_frame(1) by (auto split: option.splits)
    let ?c = "accepted_row inp (clock s1)"
    obtain s2 ev s3 s4 where
      i: "insert_command ?c s1 = Inr ((), s2)" and
      e: "append_fresh (ci_stream inp) ''command.state''
            [(''commandId'', JStr (ci_id inp)), (''commandType'', JStr (ci_type inp)),
             (''state'', JStr ''accepted''), (''errorCode'', JNull)] s2 = Inr (ev, s3)" and
      k: "(case ci_lease inp of None \<Rightarrow> tx_return ()
              | Some m \<Rightarrow>
                  (case controller_payload (ci_scope inp) (lm_action m) l of
                     Inl e \<Rightarrow> tx_throw e
                   | Inr p \<Rightarrow> tx_bind (append_fresh (ci_stream inp) ''controller.state'' p) (\<lambda>_. tx_return ()))) s3 = Inr ((), s4)" and
      f: "(case command s4 (ci_id inp) of
                None \<Rightarrow> Inl (Type_error ''null is not an object'')
              | Some c \<Rightarrow> Inr (Accepted c ev, s4)) = Inr (a, t)"
      using rest unfolding tx_bind_Inr_iff by auto
    have c2: "commands s2 = commands s @ [?c]" using i c1 by (auto simp: insert_command_def split: if_splits)
    have c3: "commands s3 = commands s2" by (rule append_fresh_frame(1) [OF e])
    have c4: "commands s4 = commands s3"
    proof (cases "ci_lease inp")
      case None
      then show ?thesis using k by simp
    next
      case (Some m)
      obtain p where p: "controller_payload (ci_scope inp) (lm_action m) l = Inr p"
        using k Some by (cases "controller_payload (ci_scope inp) (lm_action m) l") simp_all
      obtain ev2 u where "append_fresh (ci_stream inp) ''controller.state'' p s3 = Inr (ev2, u)" "u = s4"
        using k Some p by (auto simp: tx_bind_Inr_iff)
      then show ?thesis using append_fresh_frame(1) by blast
    qed
    have cm: "commands s4 = commands s @ [?c]" using c2 c3 c4 by simp
    have "command s4 (ci_id inp) = Some ?c" using None by (simp add: command_def cm find_append)
    then have "t = s4" "a = Accepted ?c ev" using f by auto
    then show ?thesis using None cm by auto
  qed
qed auto

lemma accept_step:
  assumes "acceptCommand inp s = (r, s')"
  shows "cmds_step s s'"
  using accept_cases [OF assms]
proof (elim disjE exE conjE)
  fix c assume "commands s' = commands s @ [c]"
  then show ?thesis by (auto simp: cmds_step_def command_def find_append cmd_keys_def)
qed (rule cmds_step_same)

lemma mark_loop_step: "cmds_step s (snd (mark_loop cs changed s))"
proof (induction cs arbitrary: changed s)
  case (Cons c cs)
  obtain r t where t: "transitionCommand (cm_id c) [cm_state c] ''indeterminate'' s = (r, t)"
    by (cases "transitionCommand (cm_id c) [cm_state c] ''indeterminate'' s")
  have st: "cmds_step s t" by (rule transition_step [OF t]) simp
  show ?case
  proof (cases r)
    case (Inl e)
    then show ?thesis using st by (simp add: t)
  next
    case (Inr x)
    then show ?thesis using cmds_step_trans [OF st Cons.IH] by (cases x) (auto simp: t)
  qed
qed (simp add: cmds_step_same)

section \<open>Handed over once\<close>

definition sent_ok :: "service \<Rightarrow> bool" where
  "sent_ok sv \<longleftrightarrow> distinct (map cm_id (sv_sent sv)) \<and> (\<forall>c \<in> set (sv_sent sv). cm_type c \<notin> set BRIDGE_LOCAL_COMMANDS
     \<and> (\<exists>d. command (sv_store sv) (cm_id c) = Some d \<and> cm_state d \<noteq> ''accepted'' \<and> row_kept c d))"

lemma sent_ok_step:
  assumes "sent_ok sv" "cmds_step (sv_store sv) (sv_store sv')" "sv_sent sv' = sv_sent sv"
  shows "sent_ok sv'"
proof -
  have "\<exists>e. command (sv_store sv') (cm_id c) = Some e \<and> cm_state e \<noteq> ''accepted'' \<and> row_kept c e"
    if d: "command (sv_store sv) (cm_id c) = Some d" "cm_state d \<noteq> ''accepted''" "row_kept c d" for c d
  proof -
    obtain e where "command (sv_store sv') (cm_id c) = Some e" "row_kept d e"
      using cmds_stepD [OF assms(2) d(1)] by (elim exE conjE) (rule that)
    then show ?thesis using d(2,3) by (auto simp: row_kept_def)
  qed
  then show ?thesis using assms(1) unfolding sent_ok_def assms(3) by blast
qed

lemma submit_frame:
  "cmds_step (sv_store sv) (sv_store (snd (submit nfc sha b sv))) \<and> sv_sent (snd (submit nfc sha b sv)) = sv_sent sv"
proof (cases "semanticCommandSha256 nfc sha (sb_type b) (sb_payload b)")
  case (Inl e)
  then show ?thesis by (simp add: submit_def cmds_step_same)
next
  case (Inr h)
  obtain r s where a: "acceptCommand (submission_input b h) (sv_store sv) = (r, s)"
    by (cases "acceptCommand (submission_input b h) (sv_store sv)")
  show ?thesis using accept_step [OF a]
    by (auto simp: submit_def Inr a dispatchAccepted_def split: sum.split accept_result.split)
qed

lemma start_next_cases:
  obtains (nothing) "start_next key sv = sv"
  | (task) c cs out s where "ln_flight (sv_lanes sv key) = None" "ln_waiting (sv_lanes sv key) = c # cs"
      "begin_task (cm_id c) (sv_store sv) = (out, s)"
      "start_next key sv = sv\<lparr>sv_store := s, sv_lanes := (sv_lanes sv)(key := \<lparr>ln_flight = out, ln_waiting = cs\<rparr>),
         sv_sent := sv_sent sv @ (case out of Some d \<Rightarrow> [d] | None \<Rightarrow> [])\<rparr>"
proof (cases "ln_flight (sv_lanes sv key)")
  case (Some c)
  show ?thesis by (rule nothing) (simp add: start_next_def Some)
next
  case None
  show ?thesis
  proof (cases "ln_waiting (sv_lanes sv key)")
    case Nil
    show ?thesis by (rule nothing) (simp add: start_next_def None Nil)
  next
    case (Cons c cs)
    obtain out s where b: "begin_task (cm_id c) (sv_store sv) = (out, s)" by fastforce
    show ?thesis by (rule task [OF None Cons b]) (simp add: start_next_def None Cons b)
  qed
qed

lemma start_next_sent_ok:
  assumes "sent_ok sv"
  shows "sent_ok (start_next key sv)"
proof (cases rule: start_next_cases [of key sv])
  case nothing
  then show ?thesis using assms by simp
next
  case (task c cs out s)
  have st: "cmds_step (sv_store sv) s" using begin_task_step [of "sv_store sv" "cm_id c"] by (simp add: task(3))
  have base: "sent_ok (sv\<lparr>sv_store := s\<rparr>)" by (rule sent_ok_step [OF assms]) (simp_all add: st)
  show ?thesis
  proof (cases out)
    case None
    then show ?thesis using base by (simp add: task(4) sent_ok_def)
  next
    case (Some d)
    obtain c0 e where d: "command (sv_store sv) (cm_id c) = Some c0" "cm_state c0 = ''accepted''" "cm_id d = cm_id c"
      "cm_type d \<notin> set BRIDGE_LOCAL_COMMANDS" "command s (cm_id c) = Some e" "cm_state e \<noteq> ''accepted''" "row_kept d e"
      using begin_task_sent [of "cm_id c" "sv_store sv" d] by (auto simp: task(3) Some)
    have "cm_id d \<notin> cm_id ` set (sv_sent sv)"
    proof
      assume "cm_id d \<in> cm_id ` set (sv_sent sv)"
      then obtain x where "x \<in> set (sv_sent sv)" "cm_id x = cm_id d" by auto
      then obtain y where "command (sv_store sv) (cm_id d) = Some y" "cm_state y \<noteq> ''accepted''"
        using assms by (auto simp: sent_ok_def)
      then show False using d(1-3) by simp
    qed
    then show ?thesis using base d(3-7) by (auto simp: task(4) Some sent_ok_def)
  qed
qed

lemma finish_frame:
  "cmds_step (sv_store sv) (sv_store (finish_current key r sv)) \<and> sv_sent (finish_current key r sv) = sv_sent sv"
  by (cases "ln_flight (sv_lanes sv key)") (simp_all add: finish_current_def end_task_step cmds_step_same)

lemma dispatch_all_sel [simp]:
  "sv_store (fold dispatchAccepted cs sv) = sv_store sv" "sv_sent (fold dispatchAccepted cs sv) = sv_sent sv"
  by (induction cs arbitrary: sv) (simp_all add: dispatchAccepted_def)

lemma recover_frame:
  "cmds_step (sv_store sv) (sv_store (snd (recover sv))) \<and> sv_sent (snd (recover sv)) = sv_sent sv"
proof -
  obtain r s where m: "markUncertainIndeterminate (sv_store sv) = (r, s)"
    by (cases "markUncertainIndeterminate (sv_store sv)")
  have "cmds_step (sv_store sv) (snd (markUncertainIndeterminate (sv_store sv)))"
    unfolding markUncertainIndeterminate_def by (rule mark_loop_step)
  then have "cmds_step (sv_store sv) s" by (simp add: m)
  then show ?thesis by (cases r) (simp_all add: recover_def m Let_def)
qed

lemma service_step_sent_ok:
  assumes "service_step nfc sha sv sv'" "sent_ok sv"
  shows "sent_ok sv'"
  using assms(1)
proof cases
  case submitted
  then show ?thesis using sent_ok_step [OF assms(2)] submit_frame by simp
next
  case started
  then show ?thesis using start_next_sent_ok [OF assms(2)] by simp
next
  case ended
  then show ?thesis using sent_ok_step [OF assms(2)] finish_frame by simp
next
  case other_work
  then show ?thesis using sent_ok_step [OF assms(2)] by (simp add: cmds_step_same)
qed

lemma service_life_sent_ok:
  assumes "service_life nfc sha (new_service s0) sv"
  shows "sent_ok sv"
  using assms
proof induction
  case begun
  show ?case by (simp add: sent_ok_def new_service_def)
next
  case (moved sv sv')
  then show ?case using service_step_sent_ok by blast
next
  case (crashed sv s)
  show ?case by (rule sent_ok_step [OF crashed.IH]) (simp_all add: cmds_step_same crashed.hyps)
next
  case (recovered sv)
  show ?case by (rule sent_ok_step [OF recovered.IH]) (simp_all add: recover_frame)
qed

section \<open>In the order of acceptance\<close>

definition accepted_ids :: "string \<Rightarrow> store \<Rightarrow> string list" where
  "accepted_ids key s = map fst (filter (\<lambda>p. snd p = key) (cmd_keys s))"

definition sent_ids :: "string \<Rightarrow> service \<Rightarrow> string list" where
  "sent_ids key sv = map cm_id (filter (\<lambda>c. cm_scope c = key) (sv_sent sv))"

definition waiting_ids :: "string \<Rightarrow> service \<Rightarrow> string list" where
  "waiting_ids key sv = map cm_id (ln_waiting (sv_lanes sv key))"

definition lanes_ok :: "service \<Rightarrow> bool" where
  "lanes_ok sv \<longleftrightarrow> (\<forall>key. subseq (sent_ids key sv @ waiting_ids key sv) (accepted_ids key (sv_store sv))
     \<and> (\<forall>c \<in> set (ln_waiting (sv_lanes sv key)). \<exists>d. command (sv_store sv) (cm_id c) = Some d \<and> cm_scope d = key))"

lemma lanes_ok_waiting:
  "lanes_ok sv \<Longrightarrow> c \<in> set (ln_waiting (sv_lanes sv key)) \<Longrightarrow>
   \<exists>d. command (sv_store sv) (cm_id c) = Some d \<and> cm_scope d = key"
  by (simp add: lanes_ok_def)

lemma accepted_ids_mono: "cmds_step s t \<Longrightarrow> subseq (accepted_ids key s) (accepted_ids key t)"
  by (auto simp: cmds_step_def accepted_ids_def prefix_def)

lemma waiting_kept:
  assumes "cmds_step s t" "command s (cm_id c) = Some d" "cm_scope d = key"
  shows "\<exists>e. command t (cm_id c) = Some e \<and> cm_scope e = key"
  using cmds_stepD [OF assms(1,2)] assms(3) by (auto simp: row_kept_def)

lemma lanes_ok_step:
  assumes "lanes_ok sv" "cmds_step (sv_store sv) (sv_store sv')" "sv_sent sv' = sv_sent sv"
    "\<And>key. ln_waiting (sv_lanes sv' key) = ln_waiting (sv_lanes sv key)"
  shows "lanes_ok sv'"
  unfolding lanes_ok_def
proof (intro allI conjI ballI)
  fix key
  have "subseq (sent_ids key sv @ waiting_ids key sv) (accepted_ids key (sv_store sv))"
    using assms(1) by (simp add: lanes_ok_def)
  also have "subseq \<dots> (accepted_ids key (sv_store sv'))" by (rule accepted_ids_mono [OF assms(2)])
  finally show "subseq (sent_ids key sv' @ waiting_ids key sv') (accepted_ids key (sv_store sv'))"
    by (simp add: sent_ids_def waiting_ids_def assms(3,4))
  fix c assume "c \<in> set (ln_waiting (sv_lanes sv' key))"
  then show "\<exists>d. command (sv_store sv') (cm_id c) = Some d \<and> cm_scope d = key"
    using assms(1) waiting_kept [OF assms(2)] unfolding lanes_ok_def assms(4) by blast
qed

lemma submit_lanes_ok:
  assumes "lanes_ok sv"
  shows "lanes_ok (snd (submit nfc sha b sv))"
proof (cases "semanticCommandSha256 nfc sha (sb_type b) (sb_payload b)")
  case (Inl e)
  then show ?thesis using assms by (simp add: submit_def)
next
  case (Inr h)
  obtain r s where a: "acceptCommand (submission_input b h) (sv_store sv) = (r, s)"
    by (cases "acceptCommand (submission_input b h) (sv_store sv)")
  note st = accept_step [OF a]
  have base: "lanes_ok (sv\<lparr>sv_store := s\<rparr>)" by (rule lanes_ok_step [OF assms]) (simp_all add: st)
  from accept_cases [OF a] show ?thesis
  proof (elim disjE exE conjE)
    assume "\<forall>c ev. r \<noteq> Inr (Accepted c ev)"
    then show ?thesis using base by (auto simp: submit_def Inr a split: sum.split accept_result.split)
  next
    fix c ev t
    assume r: "r = Inr (Accepted c ev)" and new: "command (sv_store sv) (ci_id (submission_input b h)) = None"
      and c: "c = accepted_row (submission_input b h) t" and cs: "commands s = commands (sv_store sv) @ [c]"
    let ?sv = "dispatchAccepted c (sv\<lparr>sv_store := s\<rparr>)"
    have eq: "snd (submit nfc sha b sv) = ?sv" by (simp add: submit_def Inr a r)
    have ids: "accepted_ids key s = accepted_ids key (sv_store sv) @ (if key = cm_scope c then [cm_id c] else [])" for key
      by (simp add: accepted_ids_def cmd_keys_def cs)
    have wait: "waiting_ids key ?sv = waiting_ids key sv @ (if key = cm_scope c then [cm_id c] else [])" for key
      by (simp add: waiting_ids_def dispatchAccepted_def enqueue_def)
    have sent: "sent_ids key ?sv = sent_ids key sv" for key by (simp add: sent_ids_def dispatchAccepted_def)
    have store: "sv_store ?sv = s" by (simp add: dispatchAccepted_def)
    have cmd: "command s (cm_id c) = Some c" using new by (simp add: command_def cs find_append c)
    show ?thesis unfolding eq lanes_ok_def store
    proof (intro allI conjI ballI)
      fix key
      have "subseq (sent_ids key sv @ waiting_ids key sv) (accepted_ids key (sv_store sv))"
        using assms by (simp add: lanes_ok_def)
      then have "subseq ((sent_ids key sv @ waiting_ids key sv) @ (if key = cm_scope c then [cm_id c] else []))
          (accepted_ids key (sv_store sv) @ (if key = cm_scope c then [cm_id c] else []))"
        by (rule list_emb_append_mono) simp
      then show "subseq (sent_ids key ?sv @ waiting_ids key ?sv) (accepted_ids key s)"
        by (simp only: ids wait sent append_assoc)
      fix x assume "x \<in> set (ln_waiting (sv_lanes ?sv key))"
      then have "x \<in> set (ln_waiting (sv_lanes sv key)) \<or> x = c \<and> key = cm_scope c"
        by (auto simp: dispatchAccepted_def enqueue_def split: if_splits)
      then show "\<exists>d. command s (cm_id x) = Some d \<and> cm_scope d = key"
        using base cmd by (auto simp: lanes_ok_def)
    qed
  qed
qed

lemma start_next_lanes_ok:
  assumes "lanes_ok sv"
  shows "lanes_ok (start_next key sv)"
proof (cases rule: start_next_cases [of key sv])
  case nothing
  then show ?thesis using assms by simp
next
  case (task c cs out s)
  have st: "cmds_step (sv_store sv) s" using begin_task_step [of "sv_store sv" "cm_id c"] by (simp add: task(3))
  have base: "lanes_ok (sv\<lparr>sv_store := s\<rparr>)" by (rule lanes_ok_step [OF assms]) (simp_all add: st)
  obtain d0 where d0: "command (sv_store sv) (cm_id c) = Some d0" "cm_scope d0 = key"
    using lanes_ok_waiting [OF assms, of c key] task(2) by (simp del: ex_simps) (elim exE conjE, rule that)
  let ?out = "case out of Some d \<Rightarrow> [d] | None \<Rightarrow> []"
  have out: "map cm_id (filter (\<lambda>c. cm_scope c = k) ?out) = (if k = key \<and> out \<noteq> None then [cm_id c] else [])" for k
  proof (cases out)
    case (Some d)
    have "cm_id d = cm_id c" "cm_scope d = key"
      using begin_task_sent [of "cm_id c" "sv_store sv" d] d0 by (auto simp: task(3) Some row_kept_def)
    then show ?thesis by (simp add: Some)
  qed simp
  let ?sv = "start_next key sv"
  have sent: "sent_ids k ?sv = sent_ids k sv @ (if k = key \<and> out \<noteq> None then [cm_id c] else [])" for k
    using out by (simp add: sent_ids_def task(4))
  have wait: "waiting_ids k ?sv = (if k = key then map cm_id cs else waiting_ids k sv)" for k
    by (simp add: waiting_ids_def task(4))
  have store: "sv_store ?sv = s" by (simp add: task(4))
  show ?thesis unfolding lanes_ok_def store
  proof (intro allI conjI ballI)
    fix k
    have old: "subseq (sent_ids k sv @ waiting_ids k sv) (accepted_ids k s)" using base by (simp add: lanes_ok_def sent_ids_def waiting_ids_def)
    have "subseq (sent_ids k ?sv @ waiting_ids k ?sv) (sent_ids k sv @ waiting_ids k sv)"
    proof (cases "k = key")
      case True
      have "waiting_ids key sv = cm_id c # map cm_id cs" by (simp add: waiting_ids_def task(2))
      then show ?thesis by (auto simp: sent wait True intro: list_emb_append_mono)
    qed (simp add: sent wait)
    then show "subseq (sent_ids k ?sv @ waiting_ids k ?sv) (accepted_ids k s)" using old by (rule subseq_order.trans)
    fix x assume "x \<in> set (ln_waiting (sv_lanes ?sv k))"
    then have "x \<in> set (ln_waiting (sv_lanes sv k))" using task(2) by (auto simp: task(4) split: if_splits)
    then show "\<exists>d. command s (cm_id x) = Some d \<and> cm_scope d = k" using base by (simp add: lanes_ok_def)
  qed
qed

lemma service_run_lanes_ok:
  assumes "service_run nfc sha (new_service s0) sv"
  shows "lanes_ok sv"
  using assms
proof induction
  case at_start
  show ?case by (simp add: lanes_ok_def new_service_def sent_ids_def waiting_ids_def idle_lane_def)
next
  case (stepped sv sv')
  from stepped.hyps(2) show ?case
  proof cases
    case submitted
    then show ?thesis using submit_lanes_ok [OF stepped.IH] by simp
  next
    case started
    then show ?thesis using start_next_lanes_ok [OF stepped.IH] by simp
  next
    case (ended key r)
    have "ln_waiting (sv_lanes sv' k) = ln_waiting (sv_lanes sv k)" for k
      by (auto simp: ended finish_current_def split: option.split)
    then show ?thesis using lanes_ok_step [OF stepped.IH] finish_frame by (simp add: ended)
  next
    case other_work
    then show ?thesis using lanes_ok_step [OF stepped.IH] by (simp add: cmds_step_same)
  qed
qed

section \<open>How a call ends\<close>

definition end_state :: "dispatch_end \<Rightarrow> string" where
  "end_state r = (case r of Returned \<Rightarrow> ''completed'' | Raised_indeterminate \<Rightarrow> ''indeterminate'' | Raised_error \<Rightarrow> ''failed'')"

lemma transition_other:
  assumes "commands s' = commands (set_command_state i to s)" "j \<noteq> i"
  shows "command s' j = command s j"
  using assms(2) command_SomeD [of s j]
  by (cases "command s j") (auto simp: command_cong [OF assms(1)] command_set_command_state)

lemma running_ends:
  assumes "store_wf s" "command s i = Some c" "cm_state c = ''running''"
  shows "store_wf (end_task i r s) \<and> (\<exists>d. command (end_task i r s) i = Some d \<and> cm_state d = end_state r)
    \<and> (\<forall>j. j \<noteq> i \<longrightarrow> command (end_task i r s) j = command s j)"
proof -
  have step: "\<exists>x s'. transitionCommand i ex to s = (Inr x, s') \<and> store_wf s'
      \<and> (\<exists>d. command s' i = Some d \<and> cm_state d = to) \<and> (\<forall>j. j \<noteq> i \<longrightarrow> command s' j = command s j)"
    if "''running'' \<in> set ex" for ex to
  proof -
    have fr: "cm_state c \<in> set ex" using that assms(3) by simp
    obtain ev s' where t: "transitionCommand i ex to s =
       (Inr (Some (c\<lparr>cm_state := to, cm_dispatches := cm_dispatches c + (if to = ''dispatched'' then 1 else 0),
                     cm_updated := clock s\<rparr>, ev)), s')" "store_wf s'" "commands s' = commands (set_command_state i to s)"
      by (rule transitionCommand_eq [OF assms(1,2) fr, where to = to])
    have "command s' i = Some (c\<lparr>cm_state := to, cm_dispatches := cm_dispatches c + (if to = ''dispatched'' then 1 else 0),
        cm_updated := clock s\<rparr>)"
      using assms(2) command_SomeD [OF assms(2)] by (simp add: command_cong [OF t(3)] command_set_command_state)
    then show ?thesis using t transition_other [OF t(3)] by simp
  qed
  show ?thesis
  proof (cases r)
    case Returned
    then show ?thesis using step [of "[''running'']" "''completed''"]
      by (auto simp: end_task_def complete_task_def end_state_def)
  next
    case Raised_indeterminate
    then show ?thesis using step [of "[''dispatched'', ''running'']" "''indeterminate''"]
      by (auto simp: end_task_def fail_task_def end_state_def)
  next
    case Raised_error
    then show ?thesis using step [of "[''dispatched'', ''running'']" "''failed''"]
      by (auto simp: end_task_def fail_task_def end_state_def)
  qed
qed

section \<open>Properties\<close>

text \<open>
  C31 (dispatch_once). Over the whole life of the service - submissions, retries of the same command,
  adapter calls that return, fail or end unknown, crashes at any moment and recoveries after them, and
  whatever else the store does or refuses - no command is handed to the adapter twice, none of the
  bridge's own controller commands is handed to it at all, and a command that was handed over is
  recorded with its content and never counts as merely accepted again.
\<close>

theorem dispatch_once:
  assumes "service_life nfc sha (new_service s0) sv"
  shows "distinct (map cm_id (sv_sent sv)) \<and> (\<forall>c \<in> set (sv_sent sv). cm_type c \<notin> set BRIDGE_LOCAL_COMMANDS
    \<and> (\<exists>d. command (sv_store sv) (cm_id c) = Some d \<and> cm_state d \<noteq> ''accepted'' \<and> cm_payload d = cm_payload c))"
  using service_life_sent_ok [OF assms] unfolding sent_ok_def row_kept_def by blast

text \<open>
  C32 (lane_order). Within one life of the process the commands of a scope are handed to the adapter in the
  order in which they were accepted, and those still waiting come after them in that order.
\<close>

theorem lane_order:
  assumes "service_run nfc sha (new_service s0) sv"
  shows "subseq (map cm_id (filter (\<lambda>c. cm_scope c = key) (sv_sent sv)) @ map cm_id (ln_waiting (sv_lanes sv key)))
    (map cm_id (filter (\<lambda>c. cm_scope c = key) (commands (sv_store sv))))"
proof -
  have ids: "accepted_ids key (sv_store sv) = map cm_id (filter (\<lambda>c. cm_scope c = key) (commands (sv_store sv)))"
    by (simp add: accepted_ids_def cmd_keys_def filter_map comp_def)
  have "subseq (sent_ids key sv @ waiting_ids key sv) (accepted_ids key (sv_store sv))"
    using service_run_lanes_ok [OF assms] unfolding lanes_ok_def by blast
  then show ?thesis unfolding ids sent_ids_def waiting_ids_def .
qed

text \<open>
  C33 (outcome_recorded). However the adapter call of a running command ends, the command is left in a final
  state that says so - completed, failed, or indeterminate when the adapter cannot tell - and no other
  command changes.
\<close>

theorem outcome_recorded:
  assumes "store_wf (sv_store sv)" and "ln_flight (sv_lanes sv key) = Some c"
    and "command (sv_store sv) (cm_id c) = Some d" and "cm_state d = ''running''"
  shows "let sv' = finish_current key r sv in
    (\<exists>e. command (sv_store sv') (cm_id c) = Some e \<and> cm_state e =
       (case r of Returned \<Rightarrow> ''completed'' | Raised_indeterminate \<Rightarrow> ''indeterminate'' | Raised_error \<Rightarrow> ''failed''))
    \<and> (\<forall>j. j \<noteq> cm_id c \<longrightarrow> command (sv_store sv') j = command (sv_store sv) j)
    \<and> ln_flight (sv_lanes sv' key) = None \<and> store_wf (sv_store sv')"
  using running_ends [OF assms(1,3,4), of r] assms(2) by (simp add: finish_current_def Let_def end_state_def)

definition demo_submission :: submission where
  "demo_submission = \<lparr>sb_id = ''c1'', sb_type = ''prompt'', sb_payload = [], sb_scope = ''host'', sb_stream = ''host:h'', sb_lease = None\<rparr>"

definition demo_flight :: service where
  "demo_flight = (new_service (demo_busy\<lparr>commands := map (\<lambda>c. c\<lparr>cm_state := ''running''\<rparr>) (commands demo_busy)\<rparr>))
     \<lparr>sv_lanes := (\<lambda>_. \<lparr>ln_flight = Some (hd (commands demo_busy)), ln_waiting = []\<rparr>)\<rparr>"

theorem dispatch_once_witness:
  "distinct (map cm_id (sv_sent (start_next ''host'' (snd (submit id id demo_submission (new_service demo_store))))))"
proof -
  have "service_life id id (new_service demo_store) (start_next ''host'' (snd (submit id id demo_submission (new_service demo_store))))"
  proof -
    have "service_life id id (new_service demo_store) (snd (submit id id demo_submission (new_service demo_store)))"
      by (rule service_life.moved [OF service_life.begun service_step.submitted])
    then show ?thesis by (rule service_life.moved [OF _ service_step.started])
  qed
  from dispatch_once [OF this] show ?thesis by blast
qed

theorem lane_order_witness:
  "\<exists>c. command (sv_store (snd (submit id id demo_submission (new_service demo_store)))) ''c1'' = Some c
     \<and> subseq (map cm_id (filter (\<lambda>c. cm_scope c = ''host'') (sv_sent (snd (submit id id demo_submission (new_service demo_store)))))
          @ map cm_id (ln_waiting (sv_lanes (snd (submit id id demo_submission (new_service demo_store))) ''host'')))
        (map cm_id (filter (\<lambda>c. cm_scope c = ''host'') (commands (sv_store (snd (submit id id demo_submission (new_service demo_store)))))))"
proof -
  have run: "service_run id id (new_service demo_store) (snd (submit id id demo_submission (new_service demo_store)))"
    by (rule service_run.stepped [OF service_run.at_start service_step.submitted])
  obtain h where h: "semanticCommandSha256 id id (sb_type demo_submission) (sb_payload demo_submission) = Inr h"
    by (simp add: demo_submission_def semanticCommandSha256_def canonicalSemanticCommand_def key_less_def adjacent_equal.simps)
  let ?i = "submission_input demo_submission h"
  have st: "stream_row_of demo_store (ci_stream ?i) \<noteq> None"
    by (simp add: demo_submission_def submission_input_def stream_row_of_def)
  have new: "command demo_store (ci_id ?i) = None" by (simp add: command_def)
  obtain ev s' where r: "insert_command (accepted_row ?i (clock demo_store)) demo_store
      = Inr ((), demo_store\<lparr>commands := commands demo_store @ [accepted_row ?i (clock demo_store)]\<rparr>)"
    "append_fresh (ci_stream ?i) ''command.state''
       [(''commandId'', JStr (ci_id ?i)), (''commandType'', JStr (ci_type ?i)), (''state'', JStr ''accepted''), (''errorCode'', JNull)]
       (demo_store\<lparr>commands := commands demo_store @ [accepted_row ?i (clock demo_store)]\<rparr>) = Inr (ev, s')"
    "command s' (ci_id ?i) = Some (accepted_row ?i (clock demo_store))"
    by (rule insert_and_announce [OF demo_store_wf new st])
  have lease: "ci_lease ?i = None" by (simp add: submission_input_def demo_submission_def)
  have "acceptCommand_tx ?i demo_store = Inr (Accepted (accepted_row ?i (clock demo_store)) ev, s')"
    using new r lease by (simp add: acceptCommand_tx_def tx_bind_def accepted_row_def)
  then have a: "acceptCommand ?i demo_store = (Inr (Accepted (accepted_row ?i (clock demo_store)) ev), s')"
    using store_wfD(1) [OF demo_store_wf] by (simp add: acceptCommand_def transaction_Inr)
  have "command (sv_store (snd (submit id id demo_submission (new_service demo_store)))) ''c1'' = Some (accepted_row ?i (clock demo_store))"
    using r(3) h a by (simp add: submit_def new_service_def dispatchAccepted_def submission_input_def demo_submission_def)
  with lane_order [OF run, of "''host''"] show ?thesis by blast
qed

theorem outcome_recorded_witness:
  "\<exists>e. command (sv_store (finish_current ''host'' Raised_error demo_flight)) ''c1'' = Some e \<and> cm_state e = ''failed''"
proof -
  have cmds: "commands (sv_store demo_flight) = [\<lparr>cm_id = ''c1'', cm_type = ''prompt'', cm_scope = ''host'', cm_stream = ''host:h'',
      cm_hash = ''x'', cm_payload = [], cm_state = ''running'', cm_dispatches = 1, cm_created = 1, cm_updated = 2\<rparr>]"
    by (simp add: demo_flight_def new_service_def demo_busy_def)
  have wf: "store_wf (sv_store demo_flight)"
    by (rule store_wf_tables [OF _ _ _ _ _ _ demo_busy_wf])
      (use store_wfD(4) [OF demo_busy_wf] in \<open>simp_all add: demo_flight_def new_service_def commands_ok_def ready_def
        demo_busy_def stream_row_of_def\<close>)
  have fl: "ln_flight (sv_lanes demo_flight ''host'') = Some (hd (commands demo_busy))" by (simp add: demo_flight_def new_service_def)
  have id: "cm_id (hd (commands demo_busy)) = ''c1''" by (simp add: demo_busy_def)
  obtain d where "command (sv_store demo_flight) (cm_id (hd (commands demo_busy))) = Some d" "cm_state d = ''running''"
    unfolding id command_def cmds by simp
  from outcome_recorded [OF wf fl this, of Raised_error] show ?thesis by (simp add: Let_def id)
qed

end
