(* ===== verification/Stream_Service.thy ===== *)
theory Stream_Service
  imports Journal
begin

text \<open>
  Stream synchronization (packages/bridge/src/core/domain.ts): the check of a client's subscriptions,
  the answer to a client that resumes a stream at a cursor - nothing to do, a replay, or a snapshot in
  parts - its acknowledgements, and the tracker by which the receiver of a stream tells a new event from
  a duplicate, a gap or a conflict.

  A snapshot is cut at characters and measured in bytes of UTF-8: the texts of this development have
  characters up to U+00FF, of which those from U+0080 take two bytes. The transformations of events and
  snapshots are the callbacks of the caller.
\<close>

section \<open>Subscriptions\<close>

datatype detail = Full | Summary

definition validateSubscriptions :: "string \<Rightarrow> (string \<times> detail) list \<Rightarrow> exn option" where
  "validateSubscriptions hostStreamId subs =
     (if \<not> list_ex (\<lambda>s. fst s = hostStreamId) subs
      then Some (Store_error Conflict ''host stream is mandatory'')
      else if length (filter (\<lambda>s. snd s = Full \<and> starts_with ''session:'' (fst s)) subs) > 1
      then Some (Store_error Conflict ''only one full session subscription is allowed'')
      else if length (filter (\<lambda>s. snd s = Summary) subs) > 5
      then Some (Store_error Conflict ''too many summary subscriptions'')
      else None)"

section \<open>Snapshot parts\<close>

text \<open>\<open>new TextEncoder().encode(character).byteLength\<close>.\<close>

definition utf8_bytes :: "char \<Rightarrow> nat" where
  "utf8_bytes c = (if of_char c < (128 :: nat) then 1 else 2)"

definition text_bytes :: "string \<Rightarrow> nat" where
  "text_bytes t = sum_list (map utf8_bytes t)"

text \<open>The loop over the characters, with the texts of the parts so far, the open fragment and its bytes.\<close>

fun fragments :: "nat \<Rightarrow> string list \<Rightarrow> string \<Rightarrow> nat \<Rightarrow> string \<Rightarrow> string list" where
  "fragments limit parts fragment fragmentBytes [] = (if fragment \<noteq> [] then parts @ [fragment] else parts)"
| "fragments limit parts fragment fragmentBytes (c # cs) =
     (if fragment \<noteq> [] \<and> fragmentBytes + utf8_bytes c > limit
      then fragments limit (parts @ [fragment]) [c] (utf8_bytes c) cs
      else fragments limit parts (fragment @ [c]) (fragmentBytes + utf8_bytes c) cs)"

definition snapshot_part :: "nat \<Rightarrow> string \<Rightarrow> obj" where
  "snapshot_part i text = [(''index'', JNum (int i)), (''json'', JStr text)]"

definition snapshot_parts :: "nat \<Rightarrow> string \<Rightarrow> obj list" where
  "snapshot_parts limit json =
     (let texts = fragments limit [] [] 0 json in
      map2 snapshot_part [0..<max 1 (length texts)] (if texts = [] then [''{}''] else texts))"

section \<open>Synchronization\<close>

datatype sync_mode = Current | Replay | Snapshot_required

record stream_sync =
  sy_mode :: sync_mode
  sy_baseline :: "string option"
  sy_parts :: "obj list option"
  sy_events :: "event_row list"
  sy_current :: string

text \<open>\<open>CursorInvalidError\<close>, or whatever the store or a comparison throws.\<close>

datatype sync_error = CursorInvalidError string | Thrown exn

definition snapshot_sync :: "nat \<Rightarrow> (event_row \<Rightarrow> event_row) \<Rightarrow> (obj \<Rightarrow> obj) \<Rightarrow> string \<Rightarrow> store
    \<Rightarrow> (sync_error + stream_sync) \<times> store" where
  "snapshot_sync limit transformEvent transformSnapshot streamId s =
     (case captureSnapshot streamId s of
        (Inl e, s1) \<Rightarrow> (Inl (Thrown e), s1)
      | (Inr snap, s1) \<Rightarrow>
          (let parts = snapshot_parts limit (json_text (JObj (transformSnapshot (sp_state snap)))) in
           case readReplay streamId (sp_baseline snap) s1 of
             (Inl e, s2) \<Rightarrow> (Inl (Thrown e), s2)
           | (Inr rp, s2) \<Rightarrow>
               (Inr \<lparr>sy_mode = Snapshot_required, sy_baseline = Some (sp_baseline snap), sy_parts = Some parts,
                     sy_events = map transformEvent (rp_events rp), sy_current = rp_current rp\<rparr>, s2)))"

definition sync :: "nat \<Rightarrow> (event_row \<Rightarrow> event_row) \<Rightarrow> (obj \<Rightarrow> obj) \<Rightarrow> string \<Rightarrow> string option \<Rightarrow> store
    \<Rightarrow> (sync_error + stream_sync) \<times> store" where
  "sync limit transformEvent transformSnapshot streamId afterCursor s =
     (case streamPosition s streamId of
        None \<Rightarrow> (Inl (Thrown (Store_error Not_found ''stream not found'')), s)
      | Some (current, _) \<Rightarrow>
     (case afterCursor of
        None \<Rightarrow> snapshot_sync limit transformEvent transformSnapshot streamId s
      | Some a \<Rightarrow>
     (case compareDecimalCursors a current of
        Inl _ \<Rightarrow> (Inl (CursorInvalidError ''cursor is not a canonical decimal string''), s)
      | Inr _ \<Rightarrow>
     (case readReplay streamId a s of
        (Inl e, s1) \<Rightarrow> (Inl (Thrown e), s1)
      | (Inr rp, s1) \<Rightarrow>
     (case compareDecimalCursors a (rp_current rp) of
        Inl e \<Rightarrow> (Inl (Thrown e), s1)
      | Inr c \<Rightarrow>
          if c = 0
          then (Inr \<lparr>sy_mode = Current, sy_baseline = None, sy_parts = None, sy_events = [], sy_current = rp_current rp\<rparr>, s1)
          else
     (case compareDecimalCursors a (rp_floor rp) of
        Inl e \<Rightarrow> (Inl (Thrown e), s1)
      | Inr f \<Rightarrow>
          if \<not> (f < 0 \<or> c > 0)
          then (Inr \<lparr>sy_mode = Replay, sy_baseline = None, sy_parts = None,
                     sy_events = map transformEvent (rp_events rp), sy_current = rp_current rp\<rparr>, s1)
          else snapshot_sync limit transformEvent transformSnapshot streamId s1))))))"

text \<open>One acknowledgement after the other, up to the first that throws.\<close>

fun ack :: "string \<Rightarrow> (string \<times> string) list \<Rightarrow> store \<Rightarrow> (exn + unit) \<times> store" where
  "ack installationId [] s = (Inr (), s)"
| "ack installationId ((streamId, cursor) # cs) s =
     (case ackCursor installationId streamId cursor s of
        (Inl e, s') \<Rightarrow> (Inl e, s')
      | (Inr _, s') \<Rightarrow> ack installationId cs s')"

section \<open>The continuity tracker\<close>

datatype apply_result = Applied | Duplicate | Gap | Conflicting

record tracked =
  tr_cursor :: string
  tr_events :: "string \<rightharpoonup> string"

type_synonym tracker = "string \<rightharpoonup> tracked"

definition fresh_tracked :: "string \<Rightarrow> tracked" where
  "fresh_tracked cursor = \<lparr>tr_cursor = cursor, tr_events = Map.empty\<rparr>"

text \<open>
  \<open>apply\<close>. An identifier that is the empty text counts as not seen. The tracked cursor is \<open>"0"\<close>, the
  cursor of an applied event, or the cursor given to \<open>reset\<close>; \<open>BigInt\<close> of it is read here for a text of
  digits only, the only texts the protocol lets through as cursors.
\<close>

definition apply_event :: "event_row \<Rightarrow> tracker \<Rightarrow> apply_result \<times> tracker" where
  "apply_event event t =
     (let current = (case t (ev_stream event) of Some c \<Rightarrow> c | None \<Rightarrow> fresh_tracked ''0'') in
      case tr_events current (ev_cursor event) of
        Some (x # xs) \<Rightarrow> (if x # xs = ev_id event then Duplicate else Conflicting, t)
      | _ \<Rightarrow>
          if ev_cursor event \<noteq> dec (big_int (tr_cursor current) + 1) then (Gap, t)
          else (Applied, t(ev_stream event \<mapsto> current\<lparr>tr_cursor := ev_cursor event,
                            tr_events := (tr_events current)(ev_cursor event \<mapsto> ev_id event)\<rparr>)))"

definition reset_tracker :: "string \<Rightarrow> string \<Rightarrow> tracker \<Rightarrow> tracker" where
  "reset_tracker streamId cursor t = t(streamId \<mapsto> fresh_tracked cursor)"

text \<open>A receiver that passes a series of events to the tracker, with the answers.\<close>

fun apply_all :: "event_row list \<Rightarrow> tracker \<Rightarrow> apply_result list \<times> tracker" where
  "apply_all [] t = ([], t)"
| "apply_all (e # es) t =
     (let (r, t') = apply_event e t; (rs, t'') = apply_all es t' in (r # rs, t''))"

definition tracked_cursor :: "tracker \<Rightarrow> string \<Rightarrow> string" where
  "tracked_cursor t sid = (case t sid of Some c \<Rightarrow> tr_cursor c | None \<Rightarrow> ''0'')"

section \<open>Parts\<close>

lemma fragments_concat: "concat (fragments limit ps f n cs) = concat ps @ f @ cs"
  by (induction limit ps f n cs rule: fragments.induct) simp_all

lemma fragments_all:
  assumes "\<forall>p \<in> set ps. P p" and "f \<noteq> [] \<Longrightarrow> P f" and "n = text_bytes f"
    and step: "\<And>f c. f = [] \<or> text_bytes f + utf8_bytes c \<le> limit \<Longrightarrow> P (f @ [c])"
  shows "\<forall>p \<in> set (fragments limit ps f n cs). P p"
  using assms(1-3)
proof (induction cs arbitrary: ps f n)
  case (Cons c cs)
  have c: "text_bytes [c] = utf8_bytes c" "text_bytes (f @ [c]) = text_bytes f + utf8_bytes c" by (simp_all add: text_bytes_def)
  have one: "P [c]" using step [of "[]" c] by simp
  show ?case
  proof (cases "f \<noteq> [] \<and> n + utf8_bytes c > limit")
    case True
    have "\<forall>p \<in> set (ps @ [f]). P p" using Cons.prems(1,2) True by simp
    from Cons.IH [OF this one] show ?thesis using True by (simp add: c(1))
  next
    case False
    then have "P (f @ [c])" using step [of f c] Cons.prems(3) by auto
    from Cons.IH [OF Cons.prems(1) this c(2) [symmetric]] show ?thesis
      using False by (simp only: fragments.simps if_False Cons.prems(3))
  qed
qed simp

lemma fragments_nonempty: "\<forall>p \<in> set (fragments limit [] [] 0 cs). p \<noteq> []"
  by (rule fragments_all) (simp_all add: text_bytes_def)

lemma fragments_bound:
  assumes "2 \<le> limit"
  shows "\<forall>p \<in> set (fragments limit [] [] 0 cs). text_bytes p \<le> limit"
proof (rule fragments_all)
  fix f c
  assume "f = [] \<or> text_bytes f + utf8_bytes c \<le> limit"
  then show "text_bytes (f @ [c]) \<le> limit" using assms by (auto simp: text_bytes_def utf8_bytes_def)
qed (simp_all add: text_bytes_def)

text \<open>The text a client puts together from the parts, in the order of their indices.\<close>

definition part_text :: "obj \<Rightarrow> string" where
  "part_text p = (case prop_get p ''json'' of Some (JStr t) \<Rightarrow> t | _ \<Rightarrow> [])"

definition part_index :: "obj \<Rightarrow> int" where
  "part_index p = (case prop_get p ''index'' of Some (JNum i) \<Rightarrow> i | _ \<Rightarrow> -1)"

lemma snapshot_part_get [simp]: "part_text (snapshot_part i t) = t" "part_index (snapshot_part i t) = int i"
  by (simp_all add: part_text_def part_index_def snapshot_part_def prop_get_def)

lemma json_text_object: "json_text (JObj ob) \<noteq> []" by simp

lemma snapshot_parts_texts:
  assumes "cs \<noteq> []"
  shows "map part_text (snapshot_parts limit cs) = fragments limit [] [] 0 cs"
    and "map part_index (snapshot_parts limit cs) = map int [0..<length (fragments limit [] [] 0 cs)]"
proof -
  let ?ts = "fragments limit [] [] 0 cs"
  have ne: "?ts \<noteq> []" using fragments_concat [of limit "[]" "[]" 0 cs] assms by auto
  then have "max 1 (length ?ts) = length ?ts" by (cases ?ts) simp_all
  then have p: "snapshot_parts limit cs = map2 snapshot_part [0..<length ?ts] ?ts" using ne by (simp only: snapshot_parts_def Let_def if_False)
  have pairs: "part_text \<circ> (\<lambda>(x, y). snapshot_part x y) = snd" "part_index \<circ> (\<lambda>(x, y). snapshot_part x y) = int \<circ> fst"
    by (auto simp: fun_eq_iff)
  show "map part_text (snapshot_parts limit cs) = ?ts" by (simp add: p pairs)
  have "map (int \<circ> fst) (zip [0..<length ?ts] ?ts) = map int (map fst (zip [0..<length ?ts] ?ts))" by (simp only: map_map)
  then show "map part_index (snapshot_parts limit cs) = map int [0..<length ?ts]" by (simp only: p map_map pairs map_fst_zip length_upt minus_nat.diff_0)
qed

section \<open>Answers\<close>

lemma compareDecimalCursors_dec [simp]: "compareDecimalCursors (dec m) (dec n) = Inr (sgn (int m - int n))"
  using sql_cursor_gt_dec [of n m] sql_cursor_gt_dec [of m n]
  by (auto simp: compareDecimalCursors_def sql_cursor_gt_def sgn_if)

text \<open>The events of a stream after a cursor, as a replay of a well-formed journal gives them.\<close>

definition after_events :: "store \<Rightarrow> string \<Rightarrow> nat \<Rightarrow> nat \<Rightarrow> event_row list" where
  "after_events s sid a cur = select_events s sid (dec a) (Some (dec cur))"

lemma after_events_facts:
  assumes "journal_ok s" and "streamPosition s sid = Some (dec cur, dec fl)"
  shows "map ev_cursor (after_events s sid a cur) = map dec [max fl a + 1..<cur + 1]"
    and "set (after_events s sid a cur) \<subseteq> set (events_of s sid)"
    and "fl \<le> cur"
proof -
  from assms(2) obtain st where st: "stream_row_of s sid = Some st" "st_current st = dec cur" "st_floor st = dec fl"
    by (auto simp: streamPosition_def)
  then have evs: "map ev_cursor (events_of s sid) = map dec [fl + 1..<cur + 1]" "fl \<le> cur"
    using journal_okD [OF assms(1) st(1)] by (metis dec_inject)+
  from select_events_cursors(1) [OF evs(1), of a cur]
  show "map ev_cursor (after_events s sid a cur) = map dec [max fl a + 1..<cur + 1]"
    by (simp add: max_def after_events_def del: upt_Suc)
  show "set (after_events s sid a cur) \<subseteq> set (events_of s sid)" using set_select_events by (auto simp: after_events_def)
  show "fl \<le> cur" by (rule evs(2))
qed

lemma readReplay_eq:
  assumes "ready s" and "streamPosition s sid = Some (dec cur, fl)"
  shows "readReplay sid (dec a) s = (Inr \<lparr>rp_current = dec cur, rp_floor = fl, rp_events = after_events s sid a cur\<rparr>, s)"
  using assms by (simp add: readReplay_def readReplay_tx_def listEvents_eq transaction_Inr_iff after_events_def)

definition stream_state :: "store \<Rightarrow> string \<Rightarrow> obj" where
  "stream_state s sid = (case stream_row_of s sid of
      Some st \<Rightarrow> (case st_session st of
         Some i \<Rightarrow> if i = [] then [(''scope'', JStr ''host''), (''sessions'', JArr (map JObj (sessionStates s)))]
                  else (case sessionState s i of None \<Rightarrow> [] | Some x \<Rightarrow> x)
       | None \<Rightarrow> [(''scope'', JStr ''host''), (''sessions'', JArr (map JObj (sessionStates s)))])
    | None \<Rightarrow> [])"

lemma captureSnapshot_eq:
  assumes "journal_ok s" and "ready s" and "streamPosition s sid = Some (dec cur, dec fl)"
  shows "captureSnapshot sid s = (Inr \<lparr>sp_baseline = dec cur, sp_current = dec cur,
    sp_state = stream_state s sid, sp_events = after_events s sid cur cur\<rparr>, s)"
proof -
  from assms(3) obtain st where st: "stream_row_of s sid = Some st" "st_current st = dec cur"
    by (auto simp: streamPosition_def)
  then show ?thesis using assms(2)
    by (simp add: captureSnapshot_def captureSnapshot_tx_def listEvents_eq transaction_Inr_iff stream_state_def after_events_def Let_def
      split: option.split)
qed

lemma snapshot_sync_eq:
  assumes "journal_ok s" and "ready s" and "streamPosition s sid = Some (dec cur, dec fl)"
  shows "snapshot_sync limit tev tst sid s =
     (Inr \<lparr>sy_mode = Snapshot_required, sy_baseline = Some (dec cur),
           sy_parts = Some (snapshot_parts limit (json_text (JObj (tst (stream_state s sid))))), sy_events = [], sy_current = dec cur\<rparr>, s)"
proof -
  have "map ev_cursor (after_events s sid cur cur) = []"
    using after_events_facts(1) [OF assms(1,3), of cur] after_events_facts(3) [OF assms(1,3)] by (simp add: max_def del: upt_Suc)
  then have "after_events s sid cur cur = []" by simp
  then show ?thesis
    by (simp add: snapshot_sync_def captureSnapshot_eq [OF assms] readReplay_eq [OF assms(2,3)] Let_def)
qed

lemma sync_eq:
  assumes "journal_ok s" and "ready s" and "streamPosition s sid = Some (dec cur, dec fl)"
  shows "sync limit tev tst sid None s = snapshot_sync limit tev tst sid s"
    and "sync limit tev tst sid (Some (dec a)) s =
      (if a = cur then (Inr \<lparr>sy_mode = Current, sy_baseline = None, sy_parts = None, sy_events = [], sy_current = dec cur\<rparr>, s)
       else if fl \<le> a \<and> a < cur
       then (Inr \<lparr>sy_mode = Replay, sy_baseline = None, sy_parts = None,
                  sy_events = map tev (after_events s sid a cur), sy_current = dec cur\<rparr>, s)
       else snapshot_sync limit tev tst sid s)"
  using assms(3) by (auto simp: sync_def readReplay_eq [OF assms(2,3)] sgn_if)

lemma journal_position:
  assumes "journal_ok s" and "streamPosition s sid = Some (c, f)"
  obtains cur fl where "c = dec cur" "f = dec fl"
  using assms journal_okD [OF assms(1)] by (auto simp: streamPosition_def split: option.splits) metis

lemma sync_InrE:
  assumes "journal_ok s" and "ready s" and "sync limit tev tst sid after s = (Inr r, s')"
  obtains cur fl a where "streamPosition s sid = Some (dec cur, dec fl)" "after = map_option dec a"
proof -
  obtain c f where p: "streamPosition s sid = Some (c, f)" using assms(3) by (auto simp: sync_def split: option.splits)
  obtain cur fl where d: "c = dec cur" "f = dec fl" by (rule journal_position [OF assms(1) p])
  have "\<exists>a. after = map_option dec a"
  proof (cases after)
    case (Some x)
    then have "decimal_cursor_pattern x"
      using assms(3) by (simp add: sync_def p compareDecimalCursors_def split: if_splits)
    then obtain n where "x = dec n" by (auto simp: decimal_cursor_pattern_iff)
    then show ?thesis using Some by (intro exI [of _ "Some n"]) simp
  qed simp
  then show ?thesis using that p d by blast
qed

section \<open>Following a stream\<close>

text \<open>The tracker stands at number \<open>n\<close> of a stream, having applied \<open>acc\<close> since it was reset at \<open>b\<close>.\<close>

definition tracking :: "tracker \<Rightarrow> string \<Rightarrow> nat \<Rightarrow> event_row list \<Rightarrow> bool" where
  "tracking t sid b acc \<longleftrightarrow>
     (\<exists>c. t sid = Some c \<and> tr_cursor c = dec (b + length acc)
        \<and> map ev_cursor acc = map dec [b + 1..<b + 1 + length acc]
        \<and> (\<forall>k v. tr_events c k = Some v \<longrightarrow> (\<exists>f \<in> set acc. ev_cursor f = k \<and> ev_id f = v)))"

lemma tracking_reset: "tracking (reset_tracker sid (dec b) t) sid b []"
  by (simp add: tracking_def reset_tracker_def fresh_tracked_def)

lemma apply_event_unseen:
  assumes "t (ev_stream e) = Some c" and "\<nexists>x xs. tr_events c (ev_cursor e) = Some (x # xs)"
  shows "apply_event e t = (if ev_cursor e \<noteq> dec (big_int (tr_cursor c) + 1) then (Gap, t)
     else (Applied, t(ev_stream e \<mapsto> c\<lparr>tr_cursor := ev_cursor e,
            tr_events := (tr_events c)(ev_cursor e \<mapsto> ev_id e)\<rparr>)))"
  using assms by (cases "tr_events c (ev_cursor e)") (auto simp: apply_event_def split: list.split)

lemma tracking_apply:
  assumes "tracking t sid b acc" and "apply_event e t = (r, t')"
  shows "tracking t' sid b (if ev_stream e = sid \<and> r = Applied then acc @ [e] else acc)
    \<and> (ev_stream e = sid \<longrightarrow> (r = Applied \<longrightarrow> ev_cursor e = dec (b + length acc + 1))
        \<and> (r = Duplicate \<longrightarrow> (\<exists>f \<in> set acc. ev_cursor f = ev_cursor e \<and> ev_id f = ev_id e))
        \<and> (r = Conflicting \<longrightarrow> (\<exists>f \<in> set acc. ev_cursor f = ev_cursor e \<and> ev_id f \<noteq> ev_id e)))"
proof (cases "ev_stream e = sid")
  case False
  then have "t' sid = t sid"
    using assms(2) by (auto simp: apply_event_def Let_def split: option.splits list.splits if_splits)
  then show ?thesis using assms(1) False by (simp add: tracking_def)
next
  case True
  obtain c where c: "t sid = Some c" "tr_cursor c = dec (b + length acc)"
      "map ev_cursor acc = map dec [b + 1..<b + 1 + length acc]"
    and seen: "\<And>k v. tr_events c k = Some v \<Longrightarrow> \<exists>f \<in> set acc. ev_cursor f = k \<and> ev_id f = v"
    using assms(1) unfolding tracking_def by blast
  show ?thesis
  proof (cases "\<exists>x xs. tr_events c (ev_cursor e) = Some (x # xs)")
    case sn: True
    then obtain x xs where x: "tr_events c (ev_cursor e) = Some (x # xs)" by blast
    obtain f where f: "f \<in> set acc" "ev_cursor f = ev_cursor e" "ev_id f = x # xs" using seen [OF x] by blast
    have "t' = t" "r = (if x # xs = ev_id e then Duplicate else Conflicting)"
      using assms(2) by (simp_all add: apply_event_def True c x)
    then show ?thesis using assms(1) f by auto
  next
    case ns: False
    note un = apply_event_unseen [of t e c, unfolded True, OF c(1) ns [unfolded True]]
    show ?thesis
    proof (cases "ev_cursor e = dec (b + length acc + 1)")
      case False
      then have "t' = t" "r = Gap" using assms(2) by (simp_all add: un c(2))
      then show ?thesis using assms(1) by simp
    next
      case cur: True
      let ?c = "c\<lparr>tr_cursor := ev_cursor e, tr_events := (tr_events c)(ev_cursor e \<mapsto> ev_id e)\<rparr>"
      have t': "t' = t(sid \<mapsto> ?c)" "r = Applied" using assms(2) cur by (simp_all add: un c(2))
      have "map ev_cursor (acc @ [e]) = map dec [b + 1..<b + 1 + length (acc @ [e])]" by (simp add: c(3) cur)
      moreover have "\<exists>f \<in> set (acc @ [e]). ev_cursor f = k \<and> ev_id f = v" if "tr_events ?c k = Some v" for k v
        using that seen [of k v] by (cases "k = ev_cursor e") auto
      ultimately have "tracking t' sid b (acc @ [e])"
        unfolding tracking_def t' by (intro exI [of _ ?c] conjI allI impI) (simp_all add: cur)
      then show ?thesis using t'(2) True cur by simp
    qed
  qed
qed

definition accepted_events :: "string \<Rightarrow> event_row list \<Rightarrow> apply_result list \<Rightarrow> event_row list" where
  "accepted_events sid es rs = map fst (filter (\<lambda>p. ev_stream (fst p) = sid \<and> snd p = Applied) (zip es rs))"

lemma accepted_events_Cons [simp]:
  "accepted_events sid (e # es) (r # rs) = (if ev_stream e = sid \<and> r = Applied then [e] else []) @ accepted_events sid es rs"
  "accepted_events sid [] rs = []"
  by (simp_all add: accepted_events_def)

lemma tracking_all:
  assumes "tracking t sid b acc" and "apply_all es t = (rs, t')"
  shows "tracking t' sid b (acc @ accepted_events sid es rs)
    \<and> (\<forall>(e, r) \<in> set (zip es rs). ev_stream e = sid \<longrightarrow>
          (r = Duplicate \<longrightarrow> (\<exists>f \<in> set (acc @ accepted_events sid es rs). ev_cursor f = ev_cursor e \<and> ev_id f = ev_id e))
        \<and> (r = Conflicting \<longrightarrow> (\<exists>f \<in> set (acc @ accepted_events sid es rs). ev_cursor f = ev_cursor e \<and> ev_id f \<noteq> ev_id e)))"
  using assms
proof (induction es arbitrary: t rs acc)
  case (Cons e es)
  obtain r u where one: "apply_event e t = (r, u)" by (cases "apply_event e t")
  obtain rs' w where rest: "apply_all es u = (rs', w)" by (cases "apply_all es u")
  have eq: "rs = r # rs'" "t' = w" using Cons.prems(2) by (simp_all add: one rest Let_def)
  let ?acc = "if ev_stream e = sid \<and> r = Applied then acc @ [e] else acc"
  note step = tracking_apply [OF Cons.prems(1) one]
  have IH: "apply_all es u = (rs', t')" using rest eq(2) by simp
  note IH = Cons.IH [OF conjunct1 [OF step] IH]
  have acc: "?acc @ accepted_events sid es rs' = acc @ accepted_events sid (e # es) rs" by (simp add: eq(1))
  show ?case
  proof (intro conjI ballI)
    show "tracking t' sid b (acc @ accepted_events sid (e # es) rs)" using conjunct1 [OF IH] by (simp only: acc)
    fix p assume "p \<in> set (zip (e # es) rs)"
    then consider "p = (e, r)" | "p \<in> set (zip es rs')" by (auto simp: eq(1))
    then show "case p of (e', r) \<Rightarrow> ev_stream e' = sid \<longrightarrow>
          (r = Duplicate \<longrightarrow> (\<exists>f \<in> set (acc @ accepted_events sid (e # es) rs). ev_cursor f = ev_cursor e' \<and> ev_id f = ev_id e'))
        \<and> (r = Conflicting \<longrightarrow> (\<exists>f \<in> set (acc @ accepted_events sid (e # es) rs). ev_cursor f = ev_cursor e' \<and> ev_id f \<noteq> ev_id e'))"
    proof cases
      case 1
      then show ?thesis using conjunct2 [OF step] by auto
    next
      case 2
      then show ?thesis using conjunct2 [OF IH] unfolding acc by blast
    qed
  qed
qed (simp add: accepted_events_def)

lemma trackingD:
  assumes "tracking t sid b acc"
  shows "tracked_cursor t sid = dec (b + length acc)" "map ev_cursor acc = map dec [b + 1..<b + 1 + length acc]"
  using assms by (auto simp: tracking_def tracked_cursor_def)

lemma tracking_consecutive:
  assumes "tracking t sid b acc" and "map ev_cursor es = map dec [b + length acc + 1..<c]" and "\<forall>e \<in> set es. ev_stream e = sid"
  shows "\<exists>t'. apply_all es t = (replicate (length es) Applied, t') \<and> tracking t' sid b (acc @ es) \<and> (\<forall>o'. o' \<noteq> sid \<longrightarrow> t' o' = t o')"
  using assms
proof (induction es arbitrary: t acc)
  case (Cons e es)
  have lt: "b + length acc + 1 < c" using Cons.prems(2) by (cases "b + length acc + 1 < c") simp_all
  have cur: "ev_cursor e = dec (b + length acc + 1)" "map ev_cursor es = map dec [b + length (acc @ [e]) + 1..<c]"
    using Cons.prems(2) lt by (simp_all add: upt_conv_Cons)
  have sid: "ev_stream e = sid" using Cons.prems(3) by simp
  obtain k where k: "t sid = Some k" "tr_cursor k = dec (b + length acc)" "map ev_cursor acc = map dec [b + 1..<b + 1 + length acc]"
    and seen: "\<And>j v. tr_events k j = Some v \<Longrightarrow> \<exists>f \<in> set acc. ev_cursor f = j \<and> ev_id f = v"
    using Cons.prems(1) unfolding tracking_def by blast
  have "ev_cursor e \<notin> ev_cursor ` set acc"
  proof -
    have "ev_cursor ` set acc = dec ` {b + 1..<b + 1 + length acc}" using arg_cong [OF k(3), of set] by (simp only: set_map set_upt)
    then show ?thesis by (auto simp: cur(1))
  qed
  then have un: "\<nexists>x xs. tr_events k (ev_cursor e) = Some (x # xs)" using seen by (metis image_eqI)
  obtain u where u: "apply_event e t = (Applied, u)" and oth: "\<forall>o'. o' \<noteq> sid \<longrightarrow> u o' = t o'"
    using apply_event_unseen [of t e k, OF _ un] by (simp add: sid k(1,2) cur(1))
  have "tracking u sid b (acc @ [e])" using conjunct1 [OF tracking_apply [OF Cons.prems(1) u]] by (simp add: sid)
  from Cons.IH [OF this cur(2)] Cons.prems(3) obtain w where
    w: "apply_all es u = (replicate (length es) Applied, w)" "tracking w sid b ((acc @ [e]) @ es)" "\<forall>o'. o' \<noteq> sid \<longrightarrow> w o' = u o'" by auto
  then show ?case using oth by (simp add: u)
qed simp

section \<open>Properties\<close>

text \<open>
  C24 (snapshot_split). The parts of a snapshot, put together in the order of their indices, are the JSON text of
  the captured state as transformed; the indices count from 0, no part is empty, and none is
  longer than the limit, when the limit has room for a character.
\<close>

theorem snapshot_split:
  assumes "journal_ok s" and "ready s" and "sync limit tev tst sid after s = (Inr r, s')" and "sy_parts r = Some ps"
    and "2 \<le> limit"
  shows "\<exists>snap. captureSnapshot sid s = (Inr snap, s) \<and> sy_baseline r = Some (sp_baseline snap)
    \<and> concat (map part_text ps) = json_text (JObj (tst (sp_state snap)))
    \<and> map part_index ps = map int [0..<length ps]
    \<and> (\<forall>p \<in> set ps. part_text p \<noteq> [] \<and> text_bytes (part_text p) \<le> limit)"
proof -
  obtain cur fl a where p: "streamPosition s sid = Some (dec cur, dec fl)" and a: "after = map_option dec a"
    by (rule sync_InrE [OF assms(1-3)])
  let ?text = "json_text (JObj (tst (stream_state s sid)))"
  have "sync limit tev tst sid after s = snapshot_sync limit tev tst sid s"
    using assms(3,4) by (cases a) (auto simp: a sync_eq [OF assms(1,2) p] split: if_splits)
  then have r: "ps = snapshot_parts limit ?text" "sy_baseline r = Some (dec cur)"
    using assms(3,4) by (auto simp: snapshot_sync_eq [OF assms(1,2) p])
  note t = snapshot_parts_texts [OF json_text_object, of limit "tst (stream_state s sid)"]
  have texts: "map part_text ps = fragments limit [] [] 0 ?text" unfolding r(1) by (rule t(1))
  have "length ps = length (fragments limit [] [] 0 ?text)" using arg_cong [OF texts, of length] by (simp only: length_map)
  then have idx: "map part_index ps = map int [0..<length ps]" unfolding r(1) using t(2) by simp
  have "\<forall>x \<in> set (map part_text ps). x \<noteq> [] \<and> text_bytes x \<le> limit"
    unfolding texts using fragments_nonempty fragments_bound [OF assms(5)] by blast
  moreover have "concat (map part_text ps) = ?text" unfolding texts by (simp only: fragments_concat concat.simps append_Nil)
  ultimately show ?thesis using captureSnapshot_eq [OF assms(1,2) p] idx r(2) by auto
qed

text \<open>
  C22 (sync_feeds_tracker). A client that resumes a stream at any cursor, or without one, is answered; and if it
  resets its tracker to the cursor it resumed at - to the baseline, when it was sent a snapshot - and
  applies the events of the answer in their order, every one of them is applied, the tracker ends at the
  current cursor of the stream, and no other stream is touched. The answer is a snapshot exactly when
  the client has no cursor, one below the retention floor, or one that lies ahead.
\<close>

theorem sync_feeds_tracker:
  assumes "journal_ok s" and "ready s" and "streamPosition s sid = Some (dec cur, dec fl)"
    and "\<forall>e. ev_stream (tev e) = ev_stream e \<and> ev_cursor (tev e) = ev_cursor e"
  shows "\<exists>r t'. sync limit tev tst sid (map_option dec after) s = (Inr r, s) \<and> sy_current r = dec cur
    \<and> (sy_mode r = Snapshot_required \<longleftrightarrow> (case after of None \<Rightarrow> True | Some a \<Rightarrow> \<not> (fl \<le> a \<and> a \<le> cur)))
    \<and> apply_all (sy_events r) (reset_tracker sid (case sy_baseline r of Some b \<Rightarrow> b | None \<Rightarrow> dec (the after)) t)
        = (replicate (length (sy_events r)) Applied, t')
    \<and> tracked_cursor t' sid = dec cur \<and> (\<forall>o'. o' \<noteq> sid \<longrightarrow> t' o' = t o')"
proof -
  note facts = after_events_facts [OF assms(1,3)]
  have idle: "\<exists>t'. apply_all [] (reset_tracker sid (dec n) t) = ([], t') \<and> tracked_cursor t' sid = dec n
      \<and> (\<forall>o'. o' \<noteq> sid \<longrightarrow> t' o' = t o')" for n
    by (simp add: reset_tracker_def tracked_cursor_def fresh_tracked_def)
  have replayed: "\<exists>t'. apply_all es (reset_tracker sid (dec a) t) = (replicate (length es) Applied, t')
      \<and> tracked_cursor t' sid = dec cur \<and> (\<forall>o'. o' \<noteq> sid \<longrightarrow> t' o' = t o')"
    if "fl \<le> a" "a < cur" "es = map tev (after_events s sid a cur)" for a es
  proof -
    have evs: "map ev_cursor es = map dec [a + 1..<cur + 1]"
      using facts(1) [of a] that(1) assms(4) by (simp add: that(3) comp_def max_def del: upt_Suc)
    have len: "length es = cur - a" using arg_cong [OF evs, of length] by (simp del: upt_Suc)
    have "\<forall>e \<in> set es. ev_stream e = sid" using facts(2) [of a] assms(4) by (auto simp: that(3) events_of_def)
    then obtain t' where "apply_all es (reset_tracker sid (dec a) t) = (replicate (length es) Applied, t')"
      "tracking t' sid a ([] @ es)" "\<forall>o'. o' \<noteq> sid \<longrightarrow> t' o' = reset_tracker sid (dec a) t o'"
      using tracking_consecutive [OF tracking_reset [of sid a t], of es "cur + 1"] evs by auto
    then show ?thesis using trackingD(1) [of t' sid a es] that(1,2) by (auto simp: len reset_tracker_def)
  qed
  show ?thesis
  proof (cases after)
    case None
    then show ?thesis using idle [of cur]
      by (simp add: sync_eq [OF assms(1-3)] snapshot_sync_eq [OF assms(1-3)])
  next
    case (Some a)
    show ?thesis
      using Some idle [of cur] replayed [of a, OF _ _ refl] facts(3)
      by (auto simp: sync_eq [OF assms(1-3)] snapshot_sync_eq [OF assms(1-3)])
  qed
qed

text \<open>
  C23 (tracker_exact). Whatever is delivered to a receiver after a reset - events of many streams, repeated, out of
  order, or altered - the events its tracker lets through on a stream are numbered one after the other
  from the cursor of the reset, the tracker stands at the last of them, what it calls a duplicate repeats
  an event it let through, and what it calls a conflict has the number of one with another identifier.
\<close>

theorem tracker_exact:
  assumes "apply_all es (reset_tracker sid (dec b) t) = (rs, t')" and "acc = accepted_events sid es rs"
  shows "map ev_cursor acc = map dec [b + 1..<b + 1 + length acc] \<and> tracked_cursor t' sid = dec (b + length acc)
    \<and> (\<forall>(e, r) \<in> set (zip es rs). ev_stream e = sid \<longrightarrow>
          (r = Duplicate \<longrightarrow> (\<exists>f \<in> set acc. ev_cursor f = ev_cursor e \<and> ev_id f = ev_id e))
        \<and> (r = Conflicting \<longrightarrow> (\<exists>f \<in> set acc. ev_cursor f = ev_cursor e \<and> ev_id f \<noteq> ev_id e)))"
  using tracking_all [OF tracking_reset assms(1)] trackingD [of t' sid b acc] assms(2) by simp

theorem snapshot_split_witness:
  "\<exists>r ps. sync 4 id id ''session:a'' None demo_store = (Inr r, demo_store) \<and> sy_parts r = Some ps
     \<and> concat (map part_text ps) = ''{}''"
proof -
  note e = sync_eq(1) [OF demo_store_ok(1) demo_store_sel(5) demo_store_position(2), of 4 id id]
    snapshot_sync_eq [OF demo_store_ok(1) demo_store_sel(5) demo_store_position(2), of 4 id id]
  have st: "stream_state demo_store ''session:a'' = []"
    by (simp add: stream_state_def stream_row_of_def sessionState_def session_row_of_def)
  from e obtain r ps where r: "sync 4 id id ''session:a'' None demo_store = (Inr r, demo_store)" "sy_parts r = Some ps" by simp
  obtain snap where "captureSnapshot ''session:a'' demo_store = (Inr snap, demo_store)"
      "concat (map part_text ps) = json_text (JObj (id (sp_state snap)))"
    using snapshot_split [OF demo_store_ok(1) demo_store_sel(5) r] by auto
  then have "concat (map part_text ps) = ''{}''"
    using captureSnapshot_eq [OF demo_store_ok(1) demo_store_sel(5) demo_store_position(2)] st by auto
  then show ?thesis using r by blast
qed

theorem sync_feeds_tracker_witness:
  "\<exists>r t'. sync 65536 id id ''host:h'' (Some (dec 1)) demo_store = (Inr r, demo_store)
     \<and> sy_mode r \<noteq> Snapshot_required \<and> tracked_cursor t' ''host:h'' = dec 2"
  using sync_feeds_tracker [OF demo_store_ok(1) demo_store_sel(5) demo_store_position(1), of id 65536 id "Some 1" Map.empty] by auto

theorem tracker_exact_witness:
  "map ev_cursor (accepted_events ''host:h'' (events demo_store)
      (fst (apply_all (events demo_store) (reset_tracker ''host:h'' (dec 0) Map.empty)))) = map dec [1..<3]"
proof -
  have f: "fst (apply_all (events demo_store) (reset_tracker ''host:h'' (dec 0) Map.empty)) = [Applied, Applied]"
    by code_simp
  have "apply_all (events demo_store) (reset_tracker ''host:h'' (dec 0) Map.empty)
      = ([Applied, Applied], snd (apply_all (events demo_store) (reset_tracker ''host:h'' (dec 0) Map.empty)))"
    unfolding f [symmetric] by (rule prod.collapse [symmetric])
  from conjunct1 [OF tracker_exact [OF this refl]] show ?thesis unfolding f
    by (simp add: accepted_events_def new_event_def upt_rec)
qed

end
