(* ===== verification/Bytes.thy ===== *)
theory Bytes
  imports "HOL-Library.Word"
begin

text \<open>A byte of a buffer or a file, as an 8-bit word.\<close>

type_synonym byte = "8 word"

end
