(* ===== verification/Jsonl.thy ===== *)
theory Jsonl
  imports Prelude Bytes
begin

text \<open>
  The decoder of the pi process's output (packages/bridge/src/pi/jsonl.ts): a stream of bytes that arrives
  in arbitrary chunks is cut at line feeds into records, each bounded in length, decoded as UTF-8 and
  parsed as JSON.

  A byte is an 8-bit word and a text the list of its code points. \<open>JSON.parse\<close> is the argument
  \<open>parse\<close>: the module uses only the value it gives and whether it fails, and the properties hold for
  every function in its place.
\<close>

section \<open>UTF-8\<close>

text \<open>
  \<open>new TextDecoder("utf-8", { fatal: true })\<close>: the code points of well-formed UTF-8 (no overlong form, no
  surrogate, nothing above U+10FFFF), \<open>None\<close> for anything else; a byte order mark at the start is dropped.
\<close>

definition continuation :: "byte \<Rightarrow> bool" where
  "continuation b \<longleftrightarrow> 128 \<le> unat b \<and> unat b < 192"

fun utf8_points :: "byte list \<Rightarrow> nat list option" where
  "utf8_points [] = Some []"
| "utf8_points (a # bs) =
     (if unat a < 128 then map_option (Cons (unat a)) (utf8_points bs)
      else if 194 \<le> unat a \<and> unat a < 224 then
        (case bs of b # rest \<Rightarrow>
           if continuation b
           then map_option (Cons ((unat a - 192) * 64 + (unat b - 128))) (utf8_points rest) else None
         | [] \<Rightarrow> None)
      else if 224 \<le> unat a \<and> unat a < 240 then
        (case bs of b # c # rest \<Rightarrow>
           let p = (unat a - 224) * 4096 + (unat b - 128) * 64 + (unat c - 128) in
           if continuation b \<and> continuation c \<and> 2048 \<le> p \<and> \<not> (55296 \<le> p \<and> p < 57344)
           then map_option (Cons p) (utf8_points rest) else None
         | _ \<Rightarrow> None)
      else if 240 \<le> unat a \<and> unat a < 245 then
        (case bs of b # c # d # rest \<Rightarrow>
           let p = (unat a - 240) * 262144 + (unat b - 128) * 4096 + (unat c - 128) * 64 + (unat d - 128) in
           if continuation b \<and> continuation c \<and> continuation d \<and> 65536 \<le> p \<and> p < 1114112
           then map_option (Cons p) (utf8_points rest) else None
         | _ \<Rightarrow> None)
      else None)"

definition utf8_decode :: "byte list \<Rightarrow> nat list option" where
  "utf8_decode bs = map_option (\<lambda>ps. case ps of p # rest \<Rightarrow> if p = 65279 then rest else ps | [] \<Rightarrow> []) (utf8_points bs)"

section \<open>The decoder\<close>

definition DEFAULT_MAX_RECORD_BYTES :: nat where
  "DEFAULT_MAX_RECORD_BYTES = 2 ^ 20"

definition PREVIEW_BYTES :: nat where
  "PREVIEW_BYTES = 120"

record 'v jsonl_record =
  jr_value :: 'v
  jr_raw :: "nat list"
  jr_number :: nat

datatype jsonl_error =
    JsonlRecordTooLargeError nat
  | JsonlIncompleteTrailingRecordError nat
  | JsonlSyntaxError string nat string
  | Decoder_finished

definition previewOf :: "nat list \<Rightarrow> string" where
  "previewOf raw = ''<redacted>''"

definition asciiPreview :: "byte list \<Rightarrow> string" where
  "asciiPreview bs =
     concat (map (\<lambda>b. if 32 \<le> unat b \<and> unat b < 127 then [char_of (unat b)]
                     else [CHR 0x5C, CHR ''x'', hex_digit (unat b div 16), hex_digit (unat b mod 16)])
       (take (min (length bs) PREVIEW_BYTES) bs))
     @ (if length bs > PREVIEW_BYTES then ''...'' else [])"

record decoder =
  jd_max :: nat
  jd_pending :: "byte list"
  jd_count :: nat
  jd_finished :: bool

definition new_decoder :: "nat option \<Rightarrow> decoder" where
  "new_decoder maxRecordBytes =
     \<lparr>jd_max = (case maxRecordBytes of Some m \<Rightarrow> m | None \<Rightarrow> DEFAULT_MAX_RECORD_BYTES),
      jd_pending = [], jd_count = 0, jd_finished = False\<rparr>"

definition LF :: byte where
  "LF = 10"

definition next_line :: "byte list \<Rightarrow> (byte list \<times> byte list) option" where
  "next_line bs = (if LF \<in> set bs then Some (takeWhile (\<lambda>b. b \<noteq> LF) bs, tl (dropWhile (\<lambda>b. b \<noteq> LF) bs)) else None)"

definition strip_cr :: "byte list \<Rightarrow> byte list" where
  "strip_cr bs = (if bs \<noteq> [] \<and> last bs = 13 then butlast bs else bs)"

text \<open>One record of the loop of \<open>push\<close>, the \<open>n + 1\<close>st; an empty line is none.\<close>

definition read_record :: "(nat list \<Rightarrow> 'v option) \<Rightarrow> nat \<Rightarrow> nat \<Rightarrow> byte list \<Rightarrow> jsonl_error + 'v jsonl_record option" where
  "read_record parse maxBytes n line =
     (if length line > maxBytes then Inl (JsonlRecordTooLargeError maxBytes)
      else
        (case utf8_decode (strip_cr line) of
           None \<Rightarrow> Inl (JsonlSyntaxError ''record is not valid UTF-8'' (n + 1) (asciiPreview (strip_cr line)))
         | Some raw \<Rightarrow>
             if raw = [] then Inr None
             else
               (case parse raw of
                  None \<Rightarrow> Inl (JsonlSyntaxError ''record is not valid JSON'' (n + 1) (previewOf raw))
                | Some v \<Rightarrow> Inr (Some \<lparr>jr_value = v, jr_raw = raw, jr_number = n + 1\<rparr>))))"

text \<open>
  The loop over the merged buffer: the records so far, or the error; the number of records parsed; and
  the bytes from the cursor on.
\<close>

lemma next_line_length: "next_line bs = Some (line, rest) \<Longrightarrow> length rest < length bs"
proof -
  assume "next_line bs = Some (line, rest)"
  then have lf: "LF \<in> set bs" and rest: "rest = tl (dropWhile (\<lambda>b. b \<noteq> LF) bs)" by (auto simp: next_line_def split: if_splits)
  have "dropWhile (\<lambda>b. b \<noteq> LF) bs \<noteq> []" using lf by (simp add: dropWhile_eq_Nil_conv)
  moreover have "length (dropWhile (\<lambda>b. b \<noteq> LF) bs) \<le> length bs" by (rule length_dropWhile_le)
  ultimately show ?thesis by (cases "dropWhile (\<lambda>b. b \<noteq> LF) bs") (simp_all add: rest)
qed

function push_loop :: "(nat list \<Rightarrow> 'v option) \<Rightarrow> nat \<Rightarrow> nat \<Rightarrow> byte list \<Rightarrow> 'v jsonl_record list
    \<Rightarrow> (jsonl_error + 'v jsonl_record list) \<times> nat \<times> byte list" where
  "push_loop parse maxBytes n bs out =
     (case next_line bs of
        None \<Rightarrow> (Inr out, n, bs)
      | Some (line, rest) \<Rightarrow>
          (case read_record parse maxBytes n line of
             Inl e \<Rightarrow> (Inl e, n, bs)
           | Inr None \<Rightarrow> push_loop parse maxBytes n rest out
           | Inr (Some r) \<Rightarrow> push_loop parse maxBytes (n + 1) rest (out @ [r])))"
  by pat_completeness auto

termination
  by (relation "measure (\<lambda>(parse, maxBytes, n, bs, out). length bs)") (auto dest: next_line_length)

declare push_loop.simps [simp del]

text \<open>\<open>push\<close>: an error leaves the merged bytes pending, and the caller stops reading.\<close>

definition push :: "(nat list \<Rightarrow> 'v option) \<Rightarrow> byte list \<Rightarrow> decoder \<Rightarrow> (jsonl_error + 'v jsonl_record list) \<times> decoder" where
  "push parse chunk d =
     (if jd_finished d then (Inl Decoder_finished, d)
      else if chunk = [] then (Inr [], d)
      else let merged = jd_pending d @ chunk in
        case push_loop parse (jd_max d) (jd_count d) merged [] of
          (Inl e, n, _) \<Rightarrow> (Inl e, d\<lparr>jd_pending := merged, jd_count := n\<rparr>)
        | (Inr out, n, rest) \<Rightarrow>
            (if length rest > jd_max d then Inl (JsonlRecordTooLargeError (jd_max d)) else Inr out,
             d\<lparr>jd_pending := rest, jd_count := n\<rparr>))"

definition finish :: "decoder \<Rightarrow> (jsonl_error + unit) \<times> decoder" where
  "finish d =
     (if jd_finished d then (Inr (), d)
      else let d' = d\<lparr>jd_finished := True\<rparr> in
        if length (jd_pending d) > jd_max d then (Inl (JsonlRecordTooLargeError (jd_max d)), d')
        else if jd_pending d \<noteq> []
        then (Inl (JsonlIncompleteTrailingRecordError (length (jd_pending d))), d'\<lparr>jd_pending := []\<rparr>)
        else (Inr (), d'))"

definition reset_decoder :: "decoder \<Rightarrow> decoder" where
  "reset_decoder d = d\<lparr>jd_pending := [], jd_finished := False\<rparr>"

text \<open>A reader that passes chunks to the decoder until one of them throws.\<close>

fun feed :: "(nat list \<Rightarrow> 'v option) \<Rightarrow> byte list list \<Rightarrow> decoder \<Rightarrow> (jsonl_error + 'v jsonl_record list) \<times> decoder" where
  "feed parse [] d = (Inr [], d)"
| "feed parse (c # cs) d =
     (case push parse c d of
        (Inl e, d') \<Rightarrow> (Inl e, d')
      | (Inr out, d') \<Rightarrow>
          (case feed parse cs d' of (Inl e, d'') \<Rightarrow> (Inl e, d'') | (Inr out', d'') \<Rightarrow> (Inr (out @ out'), d'')))"

section \<open>The loop and the buffer\<close>

lemma next_line_append:
  "next_line a = Some (line, rest) \<Longrightarrow> next_line (a @ b) = Some (line, rest @ b)"
  by (auto simp: next_line_def takeWhile_append1 dropWhile_append1 split: if_splits)

lemma next_line_None: "next_line bs = None \<longleftrightarrow> LF \<notin> set bs"
  by (simp add: next_line_def)

lemma push_loop_line:
  "next_line bs = Some (line, rest) \<Longrightarrow> push_loop parse m n bs out =
     (case read_record parse m n line of
        Inl e \<Rightarrow> (Inl e, n, bs)
      | Inr None \<Rightarrow> push_loop parse m n rest out
      | Inr (Some r) \<Rightarrow> push_loop parse m (n + 1) rest (out @ [r]))"
  by (subst push_loop.simps) (simp add: case_prod_beta)

lemma push_loop_tail: "LF \<notin> set bs \<Longrightarrow> push_loop parse m n bs out = (Inr out, n, bs)"
  by (subst push_loop.simps) (simp add: next_line_None [THEN iffD2])

text \<open>Induction over the lines of a buffer.\<close>

lemma line_induct [case_names tail line]:
  assumes "\<And>bs. LF \<notin> set bs \<Longrightarrow> P bs"
    and "\<And>bs line rest. next_line bs = Some (line, rest) \<Longrightarrow> P rest \<Longrightarrow> P bs"
  shows "P bs"
proof (induction bs rule: length_induct)
  case (1 bs)
  show ?case
  proof (cases "next_line bs")
    case None
    then show ?thesis by (intro assms(1)) (simp add: next_line_None)
  next
    case (Some p)
    obtain line rest where "next_line bs = Some (line, rest)" using Some by (cases p) simp
    then show ?thesis using 1 next_line_length assms(2) by blast
  qed
qed

lemma push_loop_rest: "push_loop parse m n bs out = (Inr out', n', rest) \<Longrightarrow> LF \<notin> set rest"
  by (induction bs arbitrary: n out rule: line_induct)
    (auto simp: push_loop_tail push_loop_line split: sum.splits option.splits)

lemma push_loop_append:
  "push_loop parse m n a out = (Inr out', n', rest) \<Longrightarrow> push_loop parse m n (a @ b) out = push_loop parse m n' (rest @ b) out'"
  by (induction a arbitrary: n out rule: line_induct)
    (auto simp: push_loop_tail push_loop_line push_loop_line [OF next_line_append] split: sum.splits option.splits)

lemma push_loop_append_error:
  "push_loop parse m n a out = (Inl e, n', rest) \<Longrightarrow> \<exists>r. push_loop parse m n (a @ b) out = (Inl e, n', r)"
  by (induction a arbitrary: n out rule: line_induct)
    (auto simp: push_loop_tail push_loop_line push_loop_line [OF next_line_append] split: sum.splits option.splits)

lemma push_loop_out:
  "push_loop parse m n bs (pre @ out) = (case push_loop parse m n bs out of (r, n', rest) \<Rightarrow> (map_sum id ((@) pre) r, n', rest))"
  by (induction bs arbitrary: n out rule: line_induct)
    (auto simp: push_loop_tail push_loop_line split: sum.splits option.splits)

lemma push_loop_overflow:
  assumes "LF \<notin> set bs" and "length bs > m"
  shows "push_loop parse m n (bs @ extra) out = (Inl (JsonlRecordTooLargeError m), n, bs @ extra)
    \<or> (\<exists>rest. push_loop parse m n (bs @ extra) out = (Inr out, n, rest) \<and> length rest > m)"
proof (cases "LF \<in> set extra")
  case True
  have "takeWhile (\<lambda>b. b \<noteq> LF) (bs @ extra) = bs @ takeWhile (\<lambda>b. b \<noteq> LF) extra"
    using assms(1) by (intro takeWhile_append2) auto
  then have "next_line (bs @ extra) = Some (bs @ takeWhile (\<lambda>b. b \<noteq> LF) extra, tl (dropWhile (\<lambda>b. b \<noteq> LF) (bs @ extra)))"
    using True by (simp add: next_line_def)
  then show ?thesis using assms(2) by (simp add: push_loop_line read_record_def)
next
  case False
  then show ?thesis using assms by (simp add: push_loop_tail)
qed

text \<open>What the decoder makes of all the bytes it has not parsed, in one piece.\<close>

definition whole :: "(nat list \<Rightarrow> 'v option) \<Rightarrow> decoder \<Rightarrow> byte list \<Rightarrow> (jsonl_error + 'v jsonl_record list) \<times> nat \<times> byte list" where
  "whole parse d bs =
     (case push_loop parse (jd_max d) (jd_count d) (jd_pending d @ bs) [] of
        (Inl e, n, rest) \<Rightarrow> (Inl e, n, rest)
      | (Inr out, n, rest) \<Rightarrow>
          (if length rest > jd_max d then Inl (JsonlRecordTooLargeError (jd_max d)) else Inr out, n, rest))"

text \<open>What holds of a decoder between pushes that have not failed.\<close>

definition decoder_ok :: "decoder \<Rightarrow> bool" where
  "decoder_ok d \<longleftrightarrow> \<not> jd_finished d \<and> LF \<notin> set (jd_pending d) \<and> length (jd_pending d) \<le> jd_max d"

lemma decoder_ok_new: "decoder_ok (new_decoder m)"
  by (simp add: decoder_ok_def new_decoder_def)

lemma push_eq:
  assumes "decoder_ok d"
  shows "fst (push parse c d) = fst (whole parse d c)"
    and "fst (whole parse d c) = Inr out \<Longrightarrow> snd (push parse c d) = d\<lparr>jd_pending := snd (snd (whole parse d c)), jd_count := fst (snd (whole parse d c))\<rparr>"
    and "fst (whole parse d c) = Inr out \<Longrightarrow> decoder_ok (snd (push parse c d))"
proof -
  have empty: "whole parse d [] = (Inr [], jd_count d, jd_pending d)"
    using assms by (simp add: whole_def decoder_ok_def push_loop_tail)
  show "fst (push parse c d) = fst (whole parse d c)"
    using assms empty by (cases "c = []") (auto simp: push_def whole_def decoder_ok_def Let_def split: prod.split sum.split)
  show "snd (push parse c d) = d\<lparr>jd_pending := snd (snd (whole parse d c)), jd_count := fst (snd (whole parse d c))\<rparr>"
    if "fst (whole parse d c) = Inr out"
    using assms empty that by (cases "c = []") (auto simp: push_def whole_def decoder_ok_def Let_def split: prod.splits sum.splits if_splits)
  show "decoder_ok (snd (push parse c d))" if "fst (whole parse d c) = Inr out"
    using assms empty that
    by (cases "c = []") (auto simp: push_def whole_def decoder_ok_def Let_def dest: push_loop_rest split: prod.splits sum.splits if_splits)
qed

section \<open>Chunks\<close>

lemma whole_append:
  assumes "decoder_ok d" and "fst (push parse c d) = Inr out"
  shows "whole parse d (c @ bs) = (case whole parse (snd (push parse c d)) bs of (r, n, rest) \<Rightarrow> (map_sum id ((@) out) r, n, rest))"
proof -
  obtain r n rest where p: "push_loop parse (jd_max d) (jd_count d) (jd_pending d @ c) [] = (r, n, rest)"
    by (cases "push_loop parse (jd_max d) (jd_count d) (jd_pending d @ c) []") auto
  have w: "fst (whole parse d c) = Inr out" using assms push_eq(1) by metis
  then have r: "r = Inr out" "length rest \<le> jd_max d" by (auto simp: whole_def p split: sum.splits if_splits)
  have d: "snd (push parse c d) = d\<lparr>jd_pending := rest, jd_count := n\<rparr>"
    using push_eq(2) [OF assms(1) w] by (simp add: whole_def p r)
  have "push_loop parse (jd_max d) (jd_count d) (jd_pending d @ c @ bs) [] = push_loop parse (jd_max d) n (rest @ bs) (out @ [])"
    using push_loop_append [OF p [unfolded r(1)], of bs] by simp
  then show ?thesis
    by (simp only: whole_def d decoder.simps push_loop_out)
      (auto split: prod.split sum.split)
qed

lemma whole_append_error:
  assumes "decoder_ok d" and "fst (push parse c d) = Inl e"
  shows "fst (whole parse d (c @ bs)) = Inl e"
proof -
  obtain r n rest where p: "push_loop parse (jd_max d) (jd_count d) (jd_pending d @ c) [] = (r, n, rest)"
    by (cases "push_loop parse (jd_max d) (jd_count d) (jd_pending d @ c) []") auto
  have w: "fst (whole parse d c) = Inl e" using assms push_eq(1) by metis
  show ?thesis
  proof (cases r)
    case (Inl e')
    then have "e' = e" using w by (simp add: whole_def p)
    then show ?thesis using push_loop_append_error [OF p [unfolded Inl], of bs] by (auto simp: whole_def)
  next
    case (Inr out)
    then have long: "length rest > jd_max d" "e = JsonlRecordTooLargeError (jd_max d)"
      using w by (auto simp: whole_def p split: if_splits)
    have lf: "LF \<notin> set rest" using push_loop_rest p Inr by blast
    have "push_loop parse (jd_max d) (jd_count d) (jd_pending d @ c @ bs) [] = push_loop parse (jd_max d) n (rest @ bs) out"
      using push_loop_append [OF p [unfolded Inr], of bs] by simp
    then show ?thesis using push_loop_overflow [OF lf long(1), of parse n bs out] by (auto simp: whole_def long(2))
  qed
qed

lemma feed_eq:
  assumes "decoder_ok d"
  shows "fst (feed parse cs d) = fst (whole parse d (concat cs))
    \<and> (\<forall>out. fst (feed parse cs d) = Inr out \<longrightarrow> decoder_ok (snd (feed parse cs d))
        \<and> snd (feed parse cs d) = d\<lparr>jd_pending := snd (snd (whole parse d (concat cs))), jd_count := fst (snd (whole parse d (concat cs)))\<rparr>)"
  using assms
proof (induction cs arbitrary: d)
  case Nil
  have "whole parse d [] = (Inr [], jd_count d, jd_pending d)"
    using Nil by (simp add: whole_def decoder_ok_def push_loop_tail)
  then show ?case using Nil by simp
next
  case (Cons c cs)
  obtain r d' where p: "push parse c d = (r, d')" by (cases "push parse c d")
  show ?case
  proof (cases r)
    case (Inl e)
    then show ?thesis using whole_append_error [OF Cons.prems, of parse c e "concat cs"] by (simp add: p)
  next
    case (Inr out)
    have w: "fst (whole parse d c) = Inr out" using push_eq(1) [OF Cons.prems, of parse c] by (simp add: p Inr)
    have d': "decoder_ok d'" "d' = d\<lparr>jd_pending := jd_pending d', jd_count := jd_count d'\<rparr>"
      using push_eq(2,3) [OF Cons.prems w] by (simp_all add: p)
    have wh: "whole parse d (c @ concat cs) = (case whole parse d' (concat cs) of (r, n, rest) \<Rightarrow> (map_sum id ((@) out) r, n, rest))"
      using whole_append [OF Cons.prems, of parse c out "concat cs"] by (simp add: p Inr)
    obtain q e where f: "feed parse cs d' = (q, e)" by (cases "feed parse cs d'")
    obtain q' n rest where w': "whole parse d' (concat cs) = (q', n, rest)" by (cases "whole parse d' (concat cs)") auto
    have IH: "q = q'" "\<And>o'. q = Inr o' \<Longrightarrow> decoder_ok e \<and> e = d'\<lparr>jd_pending := rest, jd_count := n\<rparr>"
      using Cons.IH [OF d'(1), unfolded f w' fst_conv snd_conv] by blast+
    have upd: "d'\<lparr>jd_pending := rest, jd_count := n\<rparr> = d\<lparr>jd_pending := rest, jd_count := n\<rparr>"
      by (subst d'(2)) simp
    show ?thesis
    proof (cases q)
      case (Inl er)
      then show ?thesis using IH(1) by (simp add: p Inr f wh w')
    next
      case (Inr o')
      then have "decoder_ok e" "e = d\<lparr>jd_pending := rest, jd_count := n\<rparr>" using IH(2) upd by auto
      then show ?thesis using IH(1) Inr by (auto simp: p \<open>r = Inr out\<close> f wh w')
    qed
  qed
qed

lemma next_line_eq: "next_line bs = Some (l, r) \<Longrightarrow> bs = l @ LF # r \<and> LF \<notin> set l"
proof -
  assume a: "next_line bs = Some (l, r)"
  then have "LF \<in> set bs" "l = takeWhile (\<lambda>b. b \<noteq> LF) bs" "r = tl (dropWhile (\<lambda>b. b \<noteq> LF) bs)"
    by (auto simp: next_line_def split: if_splits)
  moreover have "dropWhile (\<lambda>b. b \<noteq> LF) bs = LF # tl (dropWhile (\<lambda>b. b \<noteq> LF) bs)"
    using \<open>LF \<in> set bs\<close> by (induction bs) auto
  ultimately show ?thesis by (metis set_takeWhileD takeWhile_dropWhile_id)
qed

lemma next_line_LF: "LF \<notin> set l \<Longrightarrow> next_line (l @ LF # r) = Some (l, r)"
  by (simp add: next_line_def takeWhile_append2 dropWhile_append2)
    (metis (mono_tags, lifting) append.right_neutral dropWhile.simps(2) dropWhile_append2 list.sel(3) takeWhile.simps(2) takeWhile_append2)

lemma push_loop_split:
  "push_loop parse m n bs out = (Inr out', n', rest) \<Longrightarrow> \<exists>pre. bs = pre @ rest \<and> (pre = [] \<or> last pre = LF)"
proof (induction bs arbitrary: n out rule: line_induct)
  case (line bs l r)
  then obtain n2 out2 where "push_loop parse m n2 r out2 = (Inr out', n', rest)"
    by (auto simp: push_loop_line split: sum.splits option.splits)
  then obtain pre where pre: "r = pre @ rest" "pre = [] \<or> last pre = LF" using line(2) by blast
  have "bs = (l @ LF # pre) @ rest" "last (l @ LF # pre) = LF" using next_line_eq [OF line(1)] pre by auto
  then show ?case by blast
qed (simp add: push_loop_tail)

text \<open>
  A line as the pi process writes it: a record or nothing, ended by a line feed or, where \<open>cr\<close> is set, by a carriage
  return and a line feed. A record ended by a bare line feed must not itself end in a carriage return.
\<close>

type_synonym 'v written_line = "byte list \<times> bool \<times> (nat list \<times> 'v) option"

definition line_bytes :: "'v written_line \<Rightarrow> byte list" where
  "line_bytes = (\<lambda>(bs, cr, x). bs @ (if cr then [13] else []) @ [LF])"

definition line_record :: "'v written_line \<Rightarrow> (nat list \<times> 'v) option" where
  "line_record = (\<lambda>(bs, cr, x). x)"

definition written :: "(nat list \<Rightarrow> 'v option) \<Rightarrow> nat \<Rightarrow> 'v written_line \<Rightarrow> bool" where
  "written parse m = (\<lambda>(bs, cr, x).
     LF \<notin> set bs \<and> length bs + (if cr then 1 else 0) \<le> m
     \<and> (case x of None \<Rightarrow> bs = []
        | Some (raw, v) \<Rightarrow> bs \<noteq> [] \<and> (cr \<or> last bs \<noteq> 13) \<and> utf8_decode bs = Some raw \<and> raw \<noteq> [] \<and> parse raw = Some v))"

lemma read_record_written:
  assumes "written parse m (bs, cr, x)"
  shows "read_record parse m n (bs @ (if cr then [13] else []))
    = Inr (map_option (\<lambda>(raw, v). \<lparr>jr_value = v, jr_raw = raw, jr_number = n + 1\<rparr>) x)"
proof -
  have "strip_cr (bs @ (if cr then [13] else [])) = bs"
    using assms by (auto simp: written_def strip_cr_def split: option.splits)
  moreover have "utf8_decode [] = Some []" by (simp add: utf8_decode_def)
  ultimately show ?thesis using assms by (auto simp: written_def read_record_def split: option.splits)
qed

lemma next_line_written: "written parse m (bs, cr, x) \<Longrightarrow>
  next_line (line_bytes (bs, cr, x) @ rest) = Some (bs @ (if cr then [13] else []), rest)"
  using next_line_LF [of "bs @ (if cr then [13] else [])" rest] by (auto simp: line_bytes_def written_def LF_def)

lemma push_loop_written:
  assumes "list_all (written parse m) ls"
  shows "push_loop parse m n (concat (map line_bytes ls)) out
    = (Inr (out @ map2 (\<lambda>i (raw, v). \<lparr>jr_value = v, jr_raw = raw, jr_number = i\<rparr>)
         [n + 1..<n + 1 + length (List.map_filter line_record ls)] (List.map_filter line_record ls)),
       n + length (List.map_filter line_record ls), [])"
  using assms
proof (induction ls arbitrary: n out)
  case (Cons l ls)
  obtain bs cr x where l: "l = (bs, cr, x)" by (cases l) auto
  have w: "written parse m (bs, cr, x)" using Cons.prems by (simp add: l)
  show ?case
    using Cons read_record_written [OF w, of n] next_line_written [OF w, of "concat (map line_bytes ls)"]
    by (cases x) (auto simp: l push_loop_line map_filter_simps line_record_def upt_conv_Cons simp del: upt_Suc)
qed (simp add: push_loop_tail map_filter_simps)

section \<open>Properties\<close>

text \<open>
  C34 (chunks_irrelevant). However the bytes of the stream are cut into chunks, a fresh decoder gives the same:
  the same records with the same numbers, the same state to go on from, or the same error. After
  chunks without an error it holds exactly the bytes after the last line feed, never more than the
  limit of a record, and at the end of the stream these are reported, not dropped.
\<close>

theorem chunks_irrelevant:
  assumes "concat cs = concat ds"
  shows "fst (feed parse cs (new_decoder m)) = fst (feed parse ds (new_decoder m))
    \<and> (\<forall>out d. feed parse cs (new_decoder m) = (Inr out, d) \<longrightarrow>
        feed parse ds (new_decoder m) = (Inr out, d)
        \<and> (\<exists>pre. concat cs = pre @ jd_pending d \<and> (pre = [] \<or> last pre = LF)) \<and> LF \<notin> set (jd_pending d)
        \<and> length (jd_pending d) \<le> jd_max d
        \<and> fst (finish d) = (if jd_pending d = [] then Inr () else Inl (JsonlIncompleteTrailingRecordError (length (jd_pending d)))))"
proof -
  let ?d = "new_decoder m"
  note f = feed_eq [OF decoder_ok_new [of m], of parse cs] feed_eq [OF decoder_ok_new [of m], of parse ds]
  have same: "fst (feed parse cs ?d) = fst (feed parse ds ?d)" using f by (simp add: assms)
  moreover have "feed parse ds ?d = (Inr out, d) \<and> (\<exists>pre. concat cs = pre @ jd_pending d \<and> (pre = [] \<or> last pre = LF))
      \<and> decoder_ok d" if run: "feed parse cs ?d = (Inr out, d)" for out d
  proof -
    have "fst (feed parse ds ?d) = Inr out" using same run by simp
    then have ds: "feed parse ds ?d = (Inr out, d)" using f run by (auto simp: assms prod_eq_iff)
    have ok: "decoder_ok d" and d: "jd_pending d = snd (snd (whole parse ?d (concat cs)))" using f(1) run by auto
    obtain r n rest where p: "push_loop parse (jd_max ?d) (jd_count ?d) (concat cs) [] = (r, n, rest)"
      by (cases "push_loop parse (jd_max ?d) (jd_count ?d) (concat cs) []") auto
    have np: "jd_pending ?d = []" by (simp add: new_decoder_def)
    have "fst (whole parse ?d (concat cs)) = Inr out" using f(1) run by auto
    then have "r = Inr out" "jd_pending d = rest" using d by (auto simp: whole_def np p split: sum.splits if_splits)
    then show ?thesis using push_loop_split p ds ok by blast
  qed
  ultimately show ?thesis by (auto simp: decoder_ok_def finish_def Let_def)
qed

text \<open>
  C35 (records_round_trip). A stream of lines, each a record or empty and each ended by a line feed or by a carriage return
  and a line feed, is read back however it is cut into chunks: exactly the records, with their texts and values and without
  the carriage return, numbered from 1 in order; empty lines are passed over and nothing is left over. The records
  are not empty, with their carriage return not longer than the limit, and do not end in a carriage return of their
  own where a bare line feed follows.
\<close>

theorem records_round_trip:
  assumes "list_all (written parse (jd_max (new_decoder m))) ls"
    and "concat cs = concat (map line_bytes ls)"
  shows "\<exists>out d. feed parse cs (new_decoder m) = (Inr out, d)
    \<and> map (\<lambda>r. (jr_raw r, jr_value r)) out = List.map_filter line_record ls
    \<and> map jr_number out = [1..<1 + length out] \<and> fst (finish d) = Inr ()"
proof -
  let ?rs = "List.map_filter line_record ls"
  let ?d = "new_decoder m" and ?out = "map2 (\<lambda>i (raw, v). \<lparr>jr_value = v, jr_raw = raw, jr_number = i\<rparr>) [1..<1 + length ?rs] ?rs"
  have init: "jd_pending ?d = []" "jd_count ?d = 0" by (simp_all add: new_decoder_def)
  have w: "whole parse ?d (concat cs) = (Inr ?out, length ?rs, [])"
    using push_loop_written [OF assms(1), of 0 "[]"] by (simp add: whole_def init assms(2) del: upt_Suc)
  note f = feed_eq [OF decoder_ok_new [of m], of parse cs]
  have r: "fst (feed parse cs ?d) = Inr ?out" using f by (simp add: w)
  then have d: "jd_pending (snd (feed parse cs ?d)) = []" using f by (simp add: w)
  have pairs: "map (\<lambda>r. (jr_raw r, jr_value r)) (map2 (\<lambda>i (raw, v). \<lparr>jr_value = v, jr_raw = raw, jr_number = i\<rparr>) is xs) = xs"
    "map jr_number (map2 (\<lambda>i (raw, v). \<lparr>jr_value = v, jr_raw = raw, jr_number = i\<rparr>) is xs) = is"
    if "length is = length xs" for "is" :: "nat list" and xs :: "(nat list \<times> 'a) list"
    using that by (induction "is" xs rule: list_induct2) (simp_all add: case_prod_beta)
  show ?thesis
    using r d pairs [of "[1..<1 + length ?rs]" ?rs]
    by (intro exI [of _ ?out] exI [of _ "snd (feed parse cs ?d)"]) (simp add: prod_eq_iff finish_def Let_def del: upt_Suc)
qed

definition demo_lines :: "byte list" where
  "demo_lines = [91, 93, 10, 226, 128]"

theorem chunks_irrelevant_witness:
  "fst (feed Some [[91], [93, 10, 226, 128]] (new_decoder None)) = fst (feed Some [demo_lines] (new_decoder None))"
  using conjunct1 [OF chunks_irrelevant [of "[[91], [93, 10, 226, 128]]" "[demo_lines]" Some None]]
  by (simp add: demo_lines_def)

theorem records_round_trip_witness:
  "\<exists>out d. feed Some [[226, 130], [172, 13], [10, 13, 10, 91, 10]] (new_decoder None) = (Inr out, d) \<and> map jr_raw out = [[8364], [91]]"
proof -
  let ?ls = "[([226, 130, 172], True, Some ([8364], [8364])), ([], True, None), ([91], False, Some ([91], [91]))]"
  have "list_all (written Some (jd_max (new_decoder None))) ?ls"
    by (simp add: written_def LF_def new_decoder_def DEFAULT_MAX_RECORD_BYTES_def utf8_decode_def continuation_def)
  moreover have "concat [[226, 130], [172, 13], [10, 13, 10, 91, 10]] = concat (map line_bytes ?ls)"
    by (simp add: line_bytes_def LF_def)
  ultimately obtain out d where o: "feed Some [[226, 130], [172, 13], [10, 13, 10, 91, 10]] (new_decoder None) = (Inr out, d)"
    "map (\<lambda>r. (jr_raw r, jr_value r)) out = List.map_filter line_record ?ls"
    using records_round_trip by blast
  from arg_cong [OF o(2), of "map fst"] show ?thesis
    using o(1) by (simp add: o_def map_filter_simps line_record_def)
qed

end
