(* ===== verification/Process_Supervisor.thy ===== *)
theory Process_Supervisor
  imports Prelude
begin

text \<open>
  The supervisor of the pi processes (packages/bridge/src/core/process-supervisor.ts): one entry for each
  session, at most \<open>capacity\<close> of them with a process at work, eviction of idle processes, restarts after a
  crash up to a limit, draining.

  The supervisor is a state that every call returns changed, with a thrown error as a value: an error
  does not undo what was done before it. A call that awaits is cut at its awaits into sections, each run
  without interruption; what it waits for - a process that starts or fails to, an exit, a kill - is an
  argument of the section that follows. A process is the number of its creation, the texts it has for
  diagnostics are arguments, and the events given to \<open>emit\<close> are recorded.
\<close>

section \<open>States and entries\<close>

datatype process_state =
    Stopped | Starting | Idle | Running | Waiting_for_input | Retry_wait | Compacting | Stopping | Crashed
  | Crash_loop | Incompatible

fun state_text :: "process_state \<Rightarrow> string" where
  "state_text Stopped = ''stopped''"
| "state_text Starting = ''starting''"
| "state_text Idle = ''idle''"
| "state_text Running = ''running''"
| "state_text Waiting_for_input = ''waiting_for_input''"
| "state_text Retry_wait = ''retry_wait''"
| "state_text Compacting = ''compacting''"
| "state_text Stopping = ''stopping''"
| "state_text Crashed = ''crashed''"
| "state_text Crash_loop = ''crash_loop''"
| "state_text Incompatible = ''incompatible''"

datatype attention = No_attention | User_attention | Dialog_attention | Queued_attention

record spawn_spec =
  ss_executable :: string
  ss_args :: "string list"
  ss_cwd :: string

record entry =
  pe_id :: string
  pe_state :: process_state
  pe_attention :: attention
  pe_process :: "nat option"
  pe_spec :: "spawn_spec option"
  pe_last :: int
  pe_restarts :: "int list"
  pe_retry :: "int option"
  pe_forced :: bool
  pe_diag :: "string list"

datatype lifecycle_event =
    Session_state string process_state attention
  | Session_stopped string string bool
  | Host_capacity nat nat
  | Host_draining
  | Host_degraded string nat int
  | Turn_indeterminate string "int option" "string option"

datatype supervisor_code = Not_found_code | Invalid_state_code | Host_capacity_code | Host_draining_code | Crash_loop_code

datatype supervisor_error =
    ProcessSupervisorError supervisor_code string
  | Process_error string
  | Capacity_range

record supervisor =
  pv_entries :: "entry list"
  pv_capacity :: nat
  pv_draining :: bool
  pv_idle_timeout :: int
  pv_window :: int
  pv_limit :: nat
  pv_delay :: int
  pv_diag_limit :: nat
  pv_created :: nat
  pv_emitted :: "lifecycle_event list"

definition ACTIVE :: "process_state list" where
  "ACTIVE = [Starting, Idle, Running, Waiting_for_input, Retry_wait, Compacting, Stopping]"

definition EVICTABLE :: "process_state list" where
  "EVICTABLE = [Idle]"

fun ALLOWED :: "process_state \<Rightarrow> process_state list" where
  "ALLOWED Stopped = [Starting, Incompatible]"
| "ALLOWED Starting = [Idle, Crashed, Incompatible, Stopping]"
| "ALLOWED Idle = [Running, Waiting_for_input, Compacting, Stopping, Crashed]"
| "ALLOWED Running = [Idle, Waiting_for_input, Compacting, Stopping, Crashed]"
| "ALLOWED Waiting_for_input = [Idle, Running, Stopping, Crashed]"
| "ALLOWED Retry_wait = [Starting, Stopping, Crashed, Crash_loop]"
| "ALLOWED Compacting = [Idle, Running, Stopping, Crashed]"
| "ALLOWED Stopping = [Stopped, Crashed]"
| "ALLOWED Crashed = [Retry_wait, Starting, Crash_loop, Stopped]"
| "ALLOWED Crash_loop = [Starting, Stopped]"
| "ALLOWED Incompatible = [Stopped]"

text \<open>The constructor, with the options of the host.\<close>

definition new_supervisor :: "int option \<Rightarrow> int option \<Rightarrow> int option \<Rightarrow> nat option \<Rightarrow> int option \<Rightarrow> nat option
    \<Rightarrow> supervisor_error + supervisor" where
  "new_supervisor cap idle_timeout window limit delay diag =
     (let c = (case cap of Some c \<Rightarrow> c | None \<Rightarrow> 3) in
      if c < 1 \<or> c > 8 then Inl Capacity_range
      else Inr \<lparr>pv_entries = [], pv_capacity = nat c, pv_draining = False,
                pv_idle_timeout = (case idle_timeout of Some t \<Rightarrow> t | None \<Rightarrow> 30 * 60000),
                pv_window = (case window of Some t \<Rightarrow> t | None \<Rightarrow> 5 * 60000),
                pv_limit = (case limit of Some n \<Rightarrow> n | None \<Rightarrow> 3),
                pv_delay = (case delay of Some t \<Rightarrow> t | None \<Rightarrow> 1000),
                pv_diag_limit = (case diag of Some n \<Rightarrow> n | None \<Rightarrow> 32),
                pv_created = 0, pv_emitted = []\<rparr>)"

section \<open>Steps shared by the calls\<close>

type_synonym 'a sup = "supervisor \<Rightarrow> (supervisor_error + 'a) \<times> supervisor"

definition sup_bind :: "'a sup \<Rightarrow> ('a \<Rightarrow> 'b sup) \<Rightarrow> 'b sup" where
  "sup_bind f g s = (case f s of (Inl e, t) \<Rightarrow> (Inl e, t) | (Inr x, t) \<Rightarrow> g x t)"

definition sup_return :: "'a \<Rightarrow> 'a sup" where
  "sup_return x s = (Inr x, s)"

definition sup_throw :: "supervisor_code \<Rightarrow> string \<Rightarrow> 'a sup" where
  "sup_throw c m s = (Inl (ProcessSupervisorError c m), s)"

definition entry_of :: "supervisor \<Rightarrow> string \<Rightarrow> entry option" where
  "entry_of s i = find (\<lambda>e. pe_id e = i) (pv_entries s)"

definition require :: "string \<Rightarrow> entry sup" where
  "require i s = (case entry_of s i of
      Some e \<Rightarrow> (Inr e, s)
    | None \<Rightarrow> (Inl (ProcessSupervisorError Not_found_code (''unknown session '' @ i)), s))"

definition update_entry :: "string \<Rightarrow> (entry \<Rightarrow> entry) \<Rightarrow> unit sup" where
  "update_entry i f s = (Inr (), s\<lparr>pv_entries := map (\<lambda>e. if pe_id e = i then f e else e) (pv_entries s)\<rparr>)"

definition emit :: "lifecycle_event \<Rightarrow> unit sup" where
  "emit ev s = (Inr (), s\<lparr>pv_emitted := pv_emitted s @ [ev]\<rparr>)"

text \<open>\<open>move\<close>: to the state the entry is in already it does nothing.\<close>

definition move :: "string \<Rightarrow> process_state \<Rightarrow> unit sup" where
  "move i st = sup_bind (require i) (\<lambda>e.
     if pe_state e = st then sup_return ()
     else if st \<notin> set (ALLOWED (pe_state e))
     then sup_throw Invalid_state_code (''invalid '' @ state_text (pe_state e) @ ''->'' @ state_text st)
     else sup_bind (update_entry i (\<lambda>e. e\<lparr>pe_state := st\<rparr>)) (\<lambda>_.
            emit (Session_state i st (pe_attention e))))"

text \<open>
  \<open>redact\<close>: the tokens of two services, bearer tokens, then paths of a home directory are replaced.
  Each pattern is given by the length of its match at the start of a text.
\<close>

definition blank :: "char \<Rightarrow> bool" where
  "blank c \<longleftrightarrow> c \<in> set [CHR 0x09, CHR 0x0A, CHR 0x0B, CHR 0x0C, CHR 0x0D, CHR 0x20, CHR 0xA0]"

definition alnum :: "char \<Rightarrow> bool" where
  "alnum c \<longleftrightarrow> (let n = (of_char c :: nat) in
     48 \<le> n \<and> n \<le> 57 \<or> 65 \<le> n \<and> n \<le> 90 \<or> 97 \<le> n \<and> n \<le> 122)"

definition match_after :: "string \<Rightarrow> (char \<Rightarrow> bool) \<Rightarrow> string \<Rightarrow> nat option" where
  "match_after prefix ok s =
     (let tail = takeWhile ok (drop (length prefix) s) in
      if starts_with prefix s \<and> tail \<noteq> [] then Some (length prefix + length tail) else None)"

definition match_bearer :: "string \<Rightarrow> nat option" where
  "match_bearer s =
     (case match_after ''Bearer'' blank s of
        None \<Rightarrow> None
      | Some n \<Rightarrow> (let tail = takeWhile (\<lambda>c. \<not> blank c) (drop n s) in
                  if tail = [] then None else Some (n + length tail)))"

definition first_match :: "(string \<Rightarrow> nat option) list \<Rightarrow> string \<Rightarrow> nat option" where
  "first_match ms s = (case List.map_filter (\<lambda>m. m s) ms of [] \<Rightarrow> None | n # _ \<Rightarrow> Some n)"

function replace_all :: "(string \<Rightarrow> nat option) \<Rightarrow> string \<Rightarrow> string" where
  "replace_all m s =
     (case s of
        [] \<Rightarrow> []
      | c # cs \<Rightarrow>
          (case m s of
             Some (Suc n) \<Rightarrow> ''redacted'' @ replace_all m (drop n cs)
           | _ \<Rightarrow> c # replace_all m cs))"
  by pat_completeness auto

termination by (relation "measure (\<lambda>(m, s). length s)") auto

declare replace_all.simps [simp del]

definition redact :: "string \<Rightarrow> string" where
  "redact v = take 2048
     (replace_all (first_match [match_after ''/Users/'' (\<lambda>c. \<not> blank c), match_after ''/home/'' (\<lambda>c. \<not> blank c)])
       (replace_all (first_match [match_after ''sk-'' (\<lambda>c. alnum c \<or> c = CHR ''-''), match_after ''ghp_'' alnum, match_bearer]) v))"

definition captureDiagnostics :: "string \<Rightarrow> string list \<Rightarrow> unit sup" where
  "captureDiagnostics i values s =
     update_entry i (\<lambda>e. let all = pe_diag e @ map redact values in
       e\<lparr>pe_diag := drop (length all - pv_diag_limit s) all\<rparr>) s"

section \<open>Plain operations\<close>

definition register :: "string \<Rightarrow> process_state \<Rightarrow> int \<Rightarrow> supervisor \<Rightarrow> supervisor" where
  "register i st now s =
     (if entry_of s i \<noteq> None then s
      else s\<lparr>pv_entries := pv_entries s @ [\<lparr>pe_id = i, pe_state = st, pe_attention = No_attention, pe_process = None,
          pe_spec = None, pe_last = now, pe_restarts = [], pe_retry = None, pe_forced = False, pe_diag = []\<rparr>]\<rparr>)"

definition occupied :: "entry \<Rightarrow> bool" where
  "occupied e \<longleftrightarrow> pe_process e \<noteq> None \<and> pe_state e \<in> set ACTIVE"

definition activeCount :: "supervisor \<Rightarrow> nat" where
  "activeCount s = length (filter occupied (pv_entries s))"

definition configure :: "string \<Rightarrow> spawn_spec \<Rightarrow> unit sup" where
  "configure i spec = sup_bind (require i) (\<lambda>_. update_entry i (\<lambda>e. e\<lparr>pe_spec := Some spec\<rparr>))"

definition setAttention :: "string \<Rightarrow> attention \<Rightarrow> int \<Rightarrow> unit sup" where
  "setAttention i a now = sup_bind (require i) (\<lambda>_. update_entry i (\<lambda>e. e\<lparr>pe_attention := a, pe_last := now\<rparr>))"

definition eligibleIdle :: "supervisor \<Rightarrow> entry list" where
  "eligibleIdle s = filter (\<lambda>e. pe_state e \<in> set EVICTABLE \<and> pe_attention e = No_attention) (pv_entries s)"

section \<open>Stopping\<close>

text \<open>Up to the wait for the exit of the process it returns, if there is one to wait for.\<close>

definition stop_begin :: "string \<Rightarrow> nat option sup" where
  "stop_begin i = sup_bind (require i) (\<lambda>e.
     if pe_state e = Stopped then sup_return None
     else case pe_process e of
       None \<Rightarrow> sup_bind (update_entry i (\<lambda>e. e\<lparr>pe_state := Stopped\<rparr>)) (\<lambda>_. sup_return None)
     | Some p \<Rightarrow> sup_bind (move i Stopping) (\<lambda>_. sup_return (Some p)))"

datatype exit_wait = Exited | Still_alive | Wait_failed string

text \<open>After the wait: whether the process group has to be killed.\<close>

definition stop_waited :: "string \<Rightarrow> exit_wait \<Rightarrow> bool sup" where
  "stop_waited i w = (case w of
      Exited \<Rightarrow> sup_return False
    | Still_alive \<Rightarrow> sup_return True
    | Wait_failed m \<Rightarrow> sup_bind (captureDiagnostics i [m]) (\<lambda>_. sup_return True))"

datatype kill_result = Group_killed | Kill_failed string

definition stop_killed :: "string \<Rightarrow> kill_result \<Rightarrow> unit sup" where
  "stop_killed i k = (case k of
      Group_killed \<Rightarrow> update_entry i (\<lambda>e. e\<lparr>pe_forced := True\<rparr>)
    | Kill_failed m \<Rightarrow> captureDiagnostics i [m])"

definition stop_end :: "string \<Rightarrow> string list \<Rightarrow> string \<Rightarrow> unit sup" where
  "stop_end i diagnostics reason =
     sup_bind (captureDiagnostics i diagnostics) (\<lambda>_.
     sup_bind (update_entry i (\<lambda>e. e\<lparr>pe_process := None\<rparr>)) (\<lambda>_.
     sup_bind (move i Stopped) (\<lambda>_.
     sup_bind (require i) (\<lambda>e. emit (Session_stopped i reason (pe_forced e))))))"

text \<open>The whole call, when nothing else runs while it waits.\<close>

record stop_world =
  sw_exit :: exit_wait
  sw_kill :: kill_result
  sw_diag :: "string list"

definition stop :: "string \<Rightarrow> string \<Rightarrow> stop_world \<Rightarrow> unit sup" where
  "stop i reason w =
     sup_bind (stop_begin i) (\<lambda>p. case p of
       None \<Rightarrow> sup_return ()
     | Some _ \<Rightarrow>
         sup_bind (stop_waited i (sw_exit w)) (\<lambda>kill.
         sup_bind (if kill then stop_killed i (sw_kill w) else sup_return ()) (\<lambda>_.
         stop_end i (sw_diag w) reason)))"

section \<open>Starting\<close>

datatype start_decision = Spawn_now | Stop_first string

definition start_begin :: "string \<Rightarrow> start_decision sup" where
  "start_begin i = sup_bind (require i) (\<lambda>e s.
     if pv_draining s then sup_throw Host_draining_code ''host is draining'' s
     else if pe_state e = Crash_loop then sup_throw Crash_loop_code ''manual retry required'' s
     else if pe_state e \<notin> set [Stopped, Crashed, Retry_wait]
     then sup_throw Invalid_state_code (''cannot start from '' @ state_text (pe_state e)) s
     else if length (filter (\<lambda>x. pe_id x \<noteq> i \<and> occupied x) (pv_entries s)) \<ge> pv_capacity s
     then
       (case order_by (\<lambda>a b. pe_last a < pe_last b) (filter (\<lambda>x. pe_id x \<noteq> i) (eligibleIdle s)) of
          [] \<Rightarrow> sup_bind (emit (Host_capacity (activeCount s) (pv_capacity s)))
                  (\<lambda>_. sup_throw Host_capacity_code ''no eligible idle process'') s
        | victim # _ \<Rightarrow> (Inr (Stop_first (pe_id victim)), s))
     else (Inr Spawn_now, s))"

text \<open>\<open>createProcess\<close> and the move to \<open>starting\<close>, up to the wait for the process to start.\<close>

definition start_spawn :: "string \<Rightarrow> spawn_spec \<Rightarrow> unit sup" where
  "start_spawn i spec s =
     sup_bind (update_entry i (\<lambda>e. e\<lparr>pe_spec := Some spec, pe_process := Some (pv_created s)\<rparr>)) (\<lambda>_.
     sup_bind (\<lambda>t. (Inr (), t\<lparr>pv_created := pv_created t + 1\<rparr>)) (\<lambda>_. move i Starting)) s"

datatype start_result = Came_up | Start_failed string

definition error_text :: "supervisor_error \<Rightarrow> string" where
  "error_text e = (case e of ProcessSupervisorError _ m \<Rightarrow> m | Process_error m \<Rightarrow> m | Capacity_range \<Rightarrow> ''capacity must be 1..8'')"

text \<open>The \<open>try\<close> block after the wait and its \<open>catch\<close>, which an error of the last move reaches as well.\<close>

definition start_settled :: "string \<Rightarrow> start_result \<Rightarrow> int \<Rightarrow> unit sup" where
  "start_settled i r now s =
     (case (case r of
              Came_up \<Rightarrow> sup_bind (update_entry i (\<lambda>e. e\<lparr>pe_last := now\<rparr>)) (\<lambda>_. move i Idle) s
            | Start_failed m \<Rightarrow> (Inl (Process_error m), s)) of
        (Inr x, t) \<Rightarrow> (Inr x, t)
      | (Inl er, t) \<Rightarrow>
          sup_bind (captureDiagnostics i [error_text er]) (\<lambda>_.
          sup_bind (update_entry i (\<lambda>e. e\<lparr>pe_process := None\<rparr>)) (\<lambda>_.
          sup_bind (move i Crashed) (\<lambda>_ u. (Inl er, u)))) t)"

record start_world =
  tw_start :: start_result
  tw_now :: int
  tw_stop :: stop_world

definition start :: "string \<Rightarrow> spawn_spec \<Rightarrow> start_world \<Rightarrow> unit sup" where
  "start i spec w =
     sup_bind (start_begin i) (\<lambda>d.
     sup_bind (case d of Spawn_now \<Rightarrow> sup_return () | Stop_first v \<Rightarrow> stop v ''capacity'' (tw_stop w)) (\<lambda>_.
     sup_bind (start_spawn i spec) (\<lambda>_. start_settled i (tw_start w) (tw_now w))))"

section \<open>Turns, crashes and retries\<close>

definition transition :: "string \<Rightarrow> process_state \<Rightarrow> attention option \<Rightarrow> int \<Rightarrow> stop_world \<Rightarrow> unit sup" where
  "transition i st a now w =
     sup_bind (require i) (\<lambda>_.
     sup_bind (case a of None \<Rightarrow> sup_return () | Some x \<Rightarrow> update_entry i (\<lambda>e. e\<lparr>pe_attention := x\<rparr>)) (\<lambda>_.
     sup_bind (move i st) (\<lambda>_.
     sup_bind (update_entry i (\<lambda>e. e\<lparr>pe_last := now\<rparr>)) (\<lambda>_.
     sup_bind (require i) (\<lambda>e s.
       if pv_draining s \<and> st = Idle \<and> pe_attention e = No_attention
       then (Inr (), snd (stop i ''drain_settled'' w s))
       else (Inr (), s))))))"

text \<open>
  \<open>unexpectedExit\<close> has no wait. The exit counts with the exits since the start of the window; at the limit
  the session is in a crash loop, and only an operator starts it again.
\<close>

definition unexpectedExit :: "string \<Rightarrow> int option \<Rightarrow> string option \<Rightarrow> bool \<Rightarrow> string list \<Rightarrow> int \<Rightarrow> unit sup" where
  "unexpectedExit i exitCode signal runningAction diagnostics now =
     sup_bind (require i) (\<lambda>e s.
       if pe_state e \<notin> set ACTIVE
       then sup_throw Invalid_state_code (''unexpected exit from '' @ state_text (pe_state e)) s
       else
         (let wasRunning = runningAction \<or> pe_state e \<in> set [Running, Waiting_for_input, Compacting];
              restarts = filter (\<lambda>t. t \<ge> now - pv_window s) (pe_restarts e) @ [now] in
          sup_bind (captureDiagnostics i (if pe_process e = None then [] else diagnostics)) (\<lambda>_.
          sup_bind (update_entry i (\<lambda>e. e\<lparr>pe_process := None\<rparr>)) (\<lambda>_.
          sup_bind (if wasRunning then emit (Turn_indeterminate i exitCode signal) else sup_return ()) (\<lambda>_.
          sup_bind (update_entry i (\<lambda>e. e\<lparr>pe_restarts := restarts\<rparr>)) (\<lambda>_.
          sup_bind (move i Crashed) (\<lambda>_.
          if length restarts \<ge> pv_limit s
          then sup_bind (move i Crash_loop) (\<lambda>_. emit (Host_degraded i (length restarts) (pv_window s)))
          else if pv_draining s then move i Stopped
          else sup_bind (update_entry i (\<lambda>e. e\<lparr>pe_retry := Some (now + pv_delay s)\<rparr>)) (\<lambda>_. move i Retry_wait)))))) s))"

definition manualRetry :: "string \<Rightarrow> start_world \<Rightarrow> unit sup" where
  "manualRetry i w =
     sup_bind (require i) (\<lambda>e.
       case (if pe_state e \<in> set [Crash_loop, Crashed, Retry_wait] then pe_spec e else None) of
         None \<Rightarrow> sup_throw Invalid_state_code ''manual retry unavailable''
       | Some spec \<Rightarrow>
           sup_bind (update_entry i (\<lambda>e. e\<lparr>pe_restarts := []\<rparr>)) (\<lambda>_.
           sup_bind (if pe_state e = Crash_loop then move i Stopped else sup_return ()) (\<lambda>_. start i spec w)))"

text \<open>One entry of the loop of \<open>tick\<close>: a start that fails is ignored, a stop that fails ends the loop.\<close>

definition tick_visit :: "int \<Rightarrow> start_world \<Rightarrow> string \<Rightarrow> unit sup" where
  "tick_visit now w i =
     sup_bind (require i) (\<lambda>e s.
     sup_bind (if pe_state e = Idle \<and> pe_attention e = No_attention \<and> now - pe_last e \<ge> pv_idle_timeout s
               then stop i ''idle_timeout'' (tw_stop w) else sup_return ()) (\<lambda>_.
     sup_bind (require i) (\<lambda>e.
       case (pe_retry e, pe_spec e) of
         (Some at, Some spec) \<Rightarrow>
           if pe_state e = Retry_wait \<and> now \<ge> at
           then sup_bind (update_entry i (\<lambda>e. e\<lparr>pe_retry := None\<rparr>)) (\<lambda>_ t. (Inr (), snd (start i spec w t)))
           else sup_return ()
       | _ \<Rightarrow> sup_return ())) s)"

fun tick_entries :: "int \<Rightarrow> (string \<Rightarrow> start_world) \<Rightarrow> string list \<Rightarrow> unit sup" where
  "tick_entries now w [] = sup_return ()"
| "tick_entries now w (i # is) = sup_bind (tick_visit now (w i) i) (\<lambda>_. tick_entries now w is)"

definition tick :: "int \<Rightarrow> (string \<Rightarrow> start_world) \<Rightarrow> unit sup" where
  "tick now w s = tick_entries now w (map pe_id (pv_entries s)) s"

fun drain_entries :: "(string \<Rightarrow> stop_world) \<Rightarrow> string list \<Rightarrow> (string list \<times> string list) sup" where
  "drain_entries w [] = sup_return ([], [])"
| "drain_entries w (i # is) =
     sup_bind (require i) (\<lambda>e.
       if pe_state e = Idle \<and> pe_attention e = No_attention
       then sup_bind (stop i ''host_drain'' (w i)) (\<lambda>_.
            sup_bind (drain_entries w is) (\<lambda>(st, re). sup_return (i # st, re)))
       else sup_bind (drain_entries w is)
              (\<lambda>(st, re). sup_return (st, if pe_state e \<in> set ACTIVE then i # re else re)))"

definition drain :: "(string \<Rightarrow> stop_world) \<Rightarrow> (string list \<times> string list) sup" where
  "drain w =
     sup_bind (\<lambda>s. (Inr (), s\<lparr>pv_draining := True\<rparr>)) (\<lambda>_.
     sup_bind (emit Host_draining) (\<lambda>_ s. drain_entries w (map pe_id (pv_entries s)) s))"

section \<open>Snapshot and reboot\<close>

text \<open>The record of an entry without its process, which is given as a process identifier only.\<close>

record process_record =
  pr_id :: string
  pr_state :: process_state
  pr_attention :: attention
  pr_pid :: "nat option"
  pr_spec :: "spawn_spec option"
  pr_last :: int
  pr_restarts :: "int list"
  pr_retry :: "int option"
  pr_forced :: bool
  pr_diag :: "string list"

record process_snapshot =
  pw_draining :: bool
  pw_capacity :: nat
  pw_sessions :: "process_record list"

definition publicRecord :: "(nat \<Rightarrow> nat option) \<Rightarrow> entry \<Rightarrow> process_record" where
  "publicRecord pid e =
     \<lparr>pr_id = pe_id e, pr_state = pe_state e, pr_attention = pe_attention e,
      pr_pid = (case pe_process e of None \<Rightarrow> None | Some p \<Rightarrow> pid p), pr_spec = pe_spec e, pr_last = pe_last e,
      pr_restarts = pe_restarts e, pr_retry = pe_retry e, pr_forced = pe_forced e, pr_diag = pe_diag e\<rparr>"

definition supervisor_snapshot :: "(nat \<Rightarrow> nat option) \<Rightarrow> supervisor \<Rightarrow> process_snapshot" where
  "supervisor_snapshot pid s =
     \<lparr>pw_draining = pv_draining s, pw_capacity = pv_capacity s, pw_sessions = map (publicRecord pid) (pv_entries s)\<rparr>"

text \<open>\<open>entries.set\<close> of a record: a later record of the same session takes the place of the earlier.\<close>

definition put_entry :: "entry \<Rightarrow> entry list \<Rightarrow> entry list" where
  "put_entry e es = (if pe_id e \<in> pe_id ` set es then map (\<lambda>x. if pe_id x = pe_id e then e else x) es else es @ [e])"

definition restored_entry :: "nat \<Rightarrow> int \<Rightarrow> process_record \<Rightarrow> entry" where
  "restored_entry limit now r =
     \<lparr>pe_id = pr_id r, pe_state = (if pr_state r = Crash_loop \<or> pr_state r = Incompatible then pr_state r else Stopped),
      pe_attention = pr_attention r, pe_process = None, pe_spec = pr_spec r, pe_last = now, pe_restarts = pr_restarts r,
      pe_retry = None, pe_forced = pr_forced r, pe_diag = drop (length (pr_diag r) - limit) (pr_diag r)\<rparr>"

definition restoreAfterReboot :: "process_snapshot \<Rightarrow> int \<Rightarrow> supervisor \<Rightarrow> supervisor" where
  "restoreAfterReboot snap now s =
     s\<lparr>pv_draining := False,
       pv_entries := fold (\<lambda>r. put_entry (restored_entry (pv_diag_limit s) now r)) (pw_sessions snap) []\<rparr>"

text \<open>
  The calls of a host that lets each run to its end before the next, as the adapter does for the
  sessions it admits: sessions are registered as stopped, and a turn moves a process between the states
  of a turn.
\<close>

definition turn_states :: "process_state list" where
  "turn_states = [Idle, Running, Waiting_for_input, Compacting]"

inductive sup_call :: "supervisor \<Rightarrow> supervisor \<Rightarrow> bool" where
  registered: "sup_call s (register i Stopped now s)"
| configured: "sup_call s (snd (configure i spec s))"
| attended: "sup_call s (snd (setAttention i a now s))"
| started: "sup_call s (snd (start i spec w s))"
| stopped: "sup_call s (snd (stop i reason sw s))"
| turned: "st \<in> set turn_states \<Longrightarrow> sup_call s (snd (transition i st at now sw s))"
| exited: "sup_call s (snd (unexpectedExit i code sg ra ds now s))"
| retried: "sup_call s (snd (manualRetry i w s))"
| ticked: "sup_call s (snd (tick now ws s))"
| drained: "sup_call s (snd (drain sws s))"
| rebooted: "sup_call s (restoreAfterReboot snap now s)"

inductive sup_run :: "supervisor \<Rightarrow> supervisor \<Rightarrow> bool" for s0 where
  at_start: "sup_run s0 s0"
| called: "sup_run s0 s \<Longrightarrow> sup_call s s' \<Longrightarrow> sup_run s0 s'"

section \<open>Evaluation of the calls\<close>

named_theorems sup_simps \<open>evaluation of the supervisor's calls\<close>

definition on_entry :: "string \<Rightarrow> (entry \<Rightarrow> entry) \<Rightarrow> supervisor \<Rightarrow> supervisor" where
  "on_entry i f s = s\<lparr>pv_entries := map (\<lambda>e. if pe_id e = i then f e else e) (pv_entries s)\<rparr>"

definition emitted :: "lifecycle_event list \<Rightarrow> supervisor \<Rightarrow> supervisor" where
  "emitted evs s = s\<lparr>pv_emitted := pv_emitted s @ evs\<rparr>"

lemma update_entry_eq [sup_simps]: "update_entry i f s = (Inr (), on_entry i f s)"
  by (simp add: update_entry_def on_entry_def)

lemma emit_eq [sup_simps]: "emit ev s = (Inr (), emitted [ev] s)"
  by (simp add: emit_def emitted_def)

lemmas [sup_simps] = sup_bind_def

lemma sup_return_eq [sup_simps]: "sup_return x s = (Inr x, s)" "sup_throw c m s = (Inl (ProcessSupervisorError c m), s)"
  by (simp_all add: sup_return_def sup_throw_def)

definition keeps_id :: "(entry \<Rightarrow> entry) \<Rightarrow> bool" where
  "keeps_id f \<longleftrightarrow> (\<forall>e. pe_id (f e) = pe_id e)"

lemma on_entry_on_entry [sup_simps]: "keeps_id f \<Longrightarrow> on_entry i g (on_entry i f s) = on_entry i (g \<circ> f) s"
  by (simp add: on_entry_def keeps_id_def comp_def)

lemma on_entry_emitted [sup_simps]: "on_entry i f (emitted evs s) = emitted evs (on_entry i f s)"
  "emitted evs' (emitted evs s) = emitted (evs @ evs') s"
  by (simp_all add: on_entry_def emitted_def)

lemma entry_of_on_entry [sup_simps]:
  "keeps_id f \<Longrightarrow> entry_of (on_entry i f s) i = map_option f (entry_of s i)"
  "keeps_id f \<Longrightarrow> j \<noteq> i \<Longrightarrow> entry_of (on_entry i f s) j = entry_of s j"
  "entry_of (emitted evs s) j = entry_of s j"
proof -
  have "find (\<lambda>e. pe_id e = i) (map (\<lambda>e. if pe_id e = i then f e else e) es) = map_option f (find (\<lambda>e. pe_id e = i) es)"
    if "keeps_id f" for es
    using that by (induction es) (auto simp: keeps_id_def)
  then show "keeps_id f \<Longrightarrow> entry_of (on_entry i f s) i = map_option f (entry_of s i)" by (simp add: entry_of_def on_entry_def)
  have "find (\<lambda>e. pe_id e = j) (map (\<lambda>e. if pe_id e = i then f e else e) es) = find (\<lambda>e. pe_id e = j) es"
    if "keeps_id f" "j \<noteq> i" for es
    using that by (induction es) (auto simp: keeps_id_def)
  then show "keeps_id f \<Longrightarrow> j \<noteq> i \<Longrightarrow> entry_of (on_entry i f s) j = entry_of s j" by (simp add: entry_of_def on_entry_def)
  show "entry_of (emitted evs s) j = entry_of s j" by (simp add: entry_of_def emitted_def)
qed

lemma keeps_id_simps [sup_simps]:
  "keeps_id g \<Longrightarrow> keeps_id f \<Longrightarrow> keeps_id (g \<circ> f)"
  "keeps_id (\<lambda>e. e\<lparr>pe_state := st\<rparr>)" "keeps_id (\<lambda>e. e\<lparr>pe_process := p\<rparr>)" "keeps_id (\<lambda>e. e\<lparr>pe_forced := b\<rparr>)"
  "keeps_id (\<lambda>e. e\<lparr>pe_restarts := r\<rparr>)" "keeps_id (\<lambda>e. e\<lparr>pe_retry := at\<rparr>)" "keeps_id (\<lambda>e. e\<lparr>pe_last := now\<rparr>)"
  "keeps_id (\<lambda>e. e\<lparr>pe_attention := a\<rparr>)" "keeps_id (\<lambda>e. e\<lparr>pe_spec := sp\<rparr>)"
  "keeps_id (\<lambda>e. e\<lparr>pe_spec := sp, pe_process := p\<rparr>)" "keeps_id (\<lambda>e. e\<lparr>pe_attention := a, pe_last := now\<rparr>)"
  by (simp_all add: keeps_id_def)

lemma require_eq [sup_simps]: "entry_of s i = Some e \<Longrightarrow> require i s = (Inr e, s)"
  by (simp add: require_def)

definition add_diag :: "nat \<Rightarrow> string list \<Rightarrow> entry \<Rightarrow> entry" where
  "add_diag limit vs e = (let all = pe_diag e @ map redact vs in e\<lparr>pe_diag := drop (length all - limit) all\<rparr>)"

lemma captureDiagnostics_eq [sup_simps]: "captureDiagnostics i vs s = (Inr (), on_entry i (add_diag (pv_diag_limit s) vs) s)"
  by (simp add: captureDiagnostics_def update_entry_eq add_diag_def [abs_def])

lemma add_diag_simps [simp]:
  "pe_id (add_diag n vs e) = pe_id e" "pe_state (add_diag n vs e) = pe_state e" "pe_process (add_diag n vs e) = pe_process e"
  "pe_attention (add_diag n vs e) = pe_attention e" "pe_restarts (add_diag n vs e) = pe_restarts e"
  "pe_retry (add_diag n vs e) = pe_retry e" "pe_spec (add_diag n vs e) = pe_spec e" "pe_last (add_diag n vs e) = pe_last e"
  "pe_forced (add_diag n vs e) = pe_forced e" "keeps_id (add_diag n vs)"
  by (simp_all add: add_diag_def Let_def keeps_id_def)

lemma settings_simps [simp]:
  "pv_capacity (on_entry i f s) = pv_capacity s" "pv_draining (on_entry i f s) = pv_draining s"
  "pv_limit (on_entry i f s) = pv_limit s" "pv_window (on_entry i f s) = pv_window s" "pv_delay (on_entry i f s) = pv_delay s"
  "pv_diag_limit (on_entry i f s) = pv_diag_limit s" "pv_idle_timeout (on_entry i f s) = pv_idle_timeout s"
  "pv_created (on_entry i f s) = pv_created s" "pv_emitted (on_entry i f s) = pv_emitted s"
  "pv_capacity (emitted evs s) = pv_capacity s" "pv_draining (emitted evs s) = pv_draining s"
  "pv_limit (emitted evs s) = pv_limit s" "pv_window (emitted evs s) = pv_window s" "pv_delay (emitted evs s) = pv_delay s"
  "pv_diag_limit (emitted evs s) = pv_diag_limit s" "pv_idle_timeout (emitted evs s) = pv_idle_timeout s"
  "pv_created (emitted evs s) = pv_created s" "pv_emitted (emitted evs s) = pv_emitted s @ evs"
  "pv_entries (emitted evs s) = pv_entries s"
  "pv_entries (on_entry i f s) = map (\<lambda>e. if pe_id e = i then f e else e) (pv_entries s)"
  by (simp_all add: on_entry_def emitted_def)

lemma move_eq [sup_simps]:
  "entry_of s i = Some e \<Longrightarrow> pe_state e \<noteq> st \<Longrightarrow> st \<in> set (ALLOWED (pe_state e)) \<Longrightarrow>
     move i st s = (Inr (), emitted [Session_state i st (pe_attention e)] (on_entry i (\<lambda>e. e\<lparr>pe_state := st\<rparr>) s))"
  by (simp add: move_def sup_simps)

section \<open>The invariant\<close>

text \<open>Between calls no entry is starting or stopping, and exactly the entries in a turn have a process.\<close>

definition entry_ok :: "nat \<Rightarrow> entry \<Rightarrow> bool" where
  "entry_ok limit e \<longleftrightarrow> pe_state e \<noteq> Starting \<and> pe_state e \<noteq> Stopping
     \<and> (pe_process e \<noteq> None \<longleftrightarrow> pe_state e \<in> set turn_states)
     \<and> (pe_state e = Retry_wait \<longrightarrow> length (pe_restarts e) < limit)"

definition sup_ok :: "supervisor \<Rightarrow> bool" where
  "sup_ok s \<longleftrightarrow> distinct (map pe_id (pv_entries s)) \<and> (\<forall>e \<in> set (pv_entries s). entry_ok (pv_limit s) e)
     \<and> activeCount s \<le> pv_capacity s \<and> 1 \<le> pv_capacity s \<and> pv_capacity s \<le> 8"

lemma entry_of_SomeD: "entry_of s i = Some e \<Longrightarrow> e \<in> set (pv_entries s) \<and> pe_id e = i"
  by (auto simp: entry_of_def find_Some_iff)

lemma entry_of_set: "sup_ok s \<Longrightarrow> e \<in> set (pv_entries s) \<Longrightarrow> entry_of s (pe_id e) = Some e"
proof -
  have "distinct (map pe_id es) \<Longrightarrow> e \<in> set es \<Longrightarrow> find (\<lambda>x. pe_id x = pe_id e) es = Some e" for es
    by (induction es) auto
  then show "sup_ok s \<Longrightarrow> e \<in> set (pv_entries s) \<Longrightarrow> entry_of s (pe_id e) = Some e" by (simp add: sup_ok_def entry_of_def)
qed

lemma entry_of_None: "entry_of s i = None \<longleftrightarrow> i \<notin> pe_id ` set (pv_entries s)"
  by (auto simp: entry_of_def find_None_iff)

lemma occupied_ok: "entry_ok l e \<Longrightarrow> occupied e \<longleftrightarrow> pe_process e \<noteq> None"
  by (auto simp: entry_ok_def occupied_def turn_states_def ACTIVE_def)

text \<open>The entries of other sessions with a process.\<close>

definition others :: "string \<Rightarrow> supervisor \<Rightarrow> nat" where
  "others i s = length (filter (\<lambda>x. pe_id x \<noteq> i \<and> occupied x) (pv_entries s))"

lemma activeCount_split:
  assumes "distinct (map pe_id (pv_entries s))" and "entry_of s i = Some e"
  shows "activeCount s = others i s + (if occupied e then 1 else 0)"
proof -
  have "distinct (map pe_id es) \<Longrightarrow> find (\<lambda>x. pe_id x = i) es = Some e \<Longrightarrow>
     length (filter occupied es) = length (filter (\<lambda>x. pe_id x \<noteq> i \<and> occupied x) es) + (if occupied e then 1 else 0)" for es
  proof (induction es)
    case (Cons x es)
    have "filter (\<lambda>x. pe_id x \<noteq> i \<and> occupied x) es = filter occupied es" if "i \<notin> pe_id ` set es"
      using that by (intro filter_cong) auto
    then show ?case using Cons by (cases "pe_id x = i") (auto split: if_splits)
  qed simp
  then show ?thesis using assms by (simp add: activeCount_def others_def entry_of_def)
qed

lemma others_on_entry [simp]: "keeps_id f \<Longrightarrow> others i (on_entry i f s) = others i s"
proof -
  have "keeps_id f \<Longrightarrow> length (filter (\<lambda>x. pe_id x \<noteq> i \<and> occupied x) (map (\<lambda>e. if pe_id e = i then f e else e) es))
    = length (filter (\<lambda>x. pe_id x \<noteq> i \<and> occupied x) es)" for es
    by (induction es) (auto simp: keeps_id_def)
  then show "keeps_id f \<Longrightarrow> others i (on_entry i f s) = others i s" by (simp add: others_def)
qed

lemma others_emitted [simp]: "others i (emitted evs s) = others i s"
  by (simp add: others_def)

lemma sup_ok_emitted [simp]: "sup_ok (emitted evs s) = sup_ok s"
  by (simp add: sup_ok_def activeCount_def)

lemma sup_ok_created [simp]: "sup_ok (s\<lparr>pv_created := n\<rparr>) = sup_ok s" "sup_ok (s\<lparr>pv_draining := b\<rparr>) = sup_ok s"
  by (simp_all add: sup_ok_def activeCount_def)

text \<open>A change of one entry keeps the invariant if the entry is sound and its process, if it has one, has a place.\<close>

lemma sup_ok_on_entry:
  assumes "sup_ok s" and "entry_of s i = Some e" and "keeps_id f" and "entry_ok (pv_limit s) (f e)"
    and "pe_process (f e) = None \<or> pe_process e \<noteq> None \<or> others i s < pv_capacity s"
  shows "sup_ok (on_entry i f s)"
proof -
  let ?t = "on_entry i f s"
  have ids: "map pe_id (pv_entries ?t) = map pe_id (pv_entries s)" using assms(3) by (simp add: keeps_id_def)
  have dist: "distinct (map pe_id (pv_entries s))" using assms(1) by (simp add: sup_ok_def)
  have only: "x = e" if "x \<in> set (pv_entries s)" "pe_id x = i" for x
    using entry_of_set [OF assms(1) that(1)] assms(2) that(2) by simp
  have ents: "\<forall>x \<in> set (pv_entries ?t). entry_ok (pv_limit ?t) x"
    using assms(1,4) only by (auto simp: sup_ok_def)
  have e: "entry_of ?t i = Some (f e)" using assms(2,3) by (simp add: sup_simps)
  have "activeCount ?t = others i s + (if occupied (f e) then 1 else 0)"
    using activeCount_split [of ?t i "f e"] dist e assms(3) by (simp only: ids others_on_entry)
  moreover have "activeCount s = others i s + (if occupied e then 1 else 0)" using activeCount_split dist assms(2) by blast
  moreover have "occupied (f e) \<longleftrightarrow> pe_process (f e) \<noteq> None" using occupied_ok assms(4) by blast
  moreover have "entry_ok (pv_limit s) e" using assms(1) entry_of_SomeD [OF assms(2)] by (simp add: sup_ok_def)
  then have "occupied e \<longleftrightarrow> pe_process e \<noteq> None" by (rule occupied_ok)
  ultimately have "activeCount ?t \<le> pv_capacity ?t" using assms(1,5) by (auto simp: sup_ok_def)
  then show ?thesis using dist ents assms(1) unfolding sup_ok_def ids by simp
qed

lemma turn_state_moves: "st \<in> set turn_states \<Longrightarrow> Stopping \<in> set (ALLOWED st) \<and> Crashed \<in> set (ALLOWED st) \<and> st \<in> set ACTIVE \<and> st \<noteq> Stopped
   \<and> st \<noteq> Stopping \<and> st \<noteq> Crashed \<and> st \<noteq> Retry_wait"
  by (auto simp: turn_states_def ACTIVE_def)

lemma keeps_id_id [sup_simps]: "keeps_id id" "keeps_id (\<lambda>x. x)" by (simp_all add: keeps_id_def)

lemma stop_end_eq:
  assumes "entry_of s i = Some e" and "pe_state e = Stopping"
  shows "\<exists>evs. stop_end i ds r s = (Inr (), emitted evs (on_entry i
    ((\<lambda>e. e\<lparr>pe_state := Stopped\<rparr>) \<circ> (\<lambda>e. e\<lparr>pe_process := None\<rparr>) \<circ> add_diag (pv_diag_limit s) ds) s))"
proof -
  let ?s1 = "on_entry i ((\<lambda>e. e\<lparr>pe_process := None\<rparr>) \<circ> add_diag (pv_diag_limit s) ds) s"
  have e1: "entry_of ?s1 i = Some ((add_diag (pv_diag_limit s) ds e)\<lparr>pe_process := None\<rparr>)"
    using assms(1) by (simp add: sup_simps)
  have "move i Stopped ?s1 = (Inr (), emitted [Session_state i Stopped (pe_attention e)] (on_entry i (\<lambda>e. e\<lparr>pe_state := Stopped\<rparr>) ?s1))"
    using move_eq [OF e1, of Stopped] assms(2) by simp
  then show ?thesis
    by (simp add: stop_end_def sup_bind_def captureDiagnostics_eq update_entry_eq on_entry_on_entry emit_eq require_def
      entry_of_on_entry keeps_id_simps assms(1) on_entry_emitted comp_assoc) blast
qed

text \<open>What the waits of \<open>stop\<close> do to the entry.\<close>

definition wait_change :: "nat \<Rightarrow> exit_wait \<Rightarrow> entry \<Rightarrow> entry" where
  "wait_change l x = (case x of Wait_failed m \<Rightarrow> add_diag l [m] | _ \<Rightarrow> id)"

definition kill_change :: "nat \<Rightarrow> stop_world \<Rightarrow> entry \<Rightarrow> entry" where
  "kill_change l w = (if sw_exit w = Exited then id
     else case sw_kill w of Group_killed \<Rightarrow> (\<lambda>e. e\<lparr>pe_forced := True\<rparr>) | Kill_failed m \<Rightarrow> add_diag l [m])"

lemma on_entry_id [simp]: "on_entry i id s = s" "on_entry i (\<lambda>x. x) s = s"
  by (simp_all add: on_entry_def map_idI)

lemma stop_waited_eq: "stop_waited i x s = (Inr (x \<noteq> Exited), on_entry i (wait_change (pv_diag_limit s) x) s)"
  by (cases x) (simp_all add: stop_waited_def wait_change_def sup_return_eq sup_bind_def captureDiagnostics_eq)

lemma stop_killed_eq:
  "(if sw_exit w \<noteq> Exited then stop_killed i (sw_kill w) else sup_return ()) s = (Inr (), on_entry i (kill_change (pv_diag_limit s) w) s)"
  by (cases "sw_kill w") (simp_all add: stop_killed_def kill_change_def sup_return_eq update_entry_eq captureDiagnostics_eq)

lemma change_simps [simp]:
  "keeps_id (wait_change l x)" "pe_state (wait_change l x e) = pe_state e"
  "pe_process (wait_change l x e) = pe_process e" "pe_restarts (wait_change l x e) = pe_restarts e"
  "pe_attention (wait_change l x e) = pe_attention e" "pe_id (wait_change l x e) = pe_id e" "pe_last (wait_change l x e) = pe_last e"
  "keeps_id (kill_change l w)" "pe_state (kill_change l w e) = pe_state e"
  "pe_process (kill_change l w e) = pe_process e" "pe_restarts (kill_change l w e) = pe_restarts e"
  "pe_attention (kill_change l w e) = pe_attention e" "pe_id (kill_change l w e) = pe_id e" "pe_last (kill_change l w e) = pe_last e"
  by (simp_all add: wait_change_def kill_change_def keeps_id_def split: exit_wait.split kill_result.split)

definition stopped_entry :: "nat \<Rightarrow> stop_world \<Rightarrow> entry \<Rightarrow> entry" where
  "stopped_entry l w e = (add_diag l (sw_diag w) (kill_change l w (wait_change l (sw_exit w) (e\<lparr>pe_state := Stopping\<rparr>))))
     \<lparr>pe_process := None, pe_state := Stopped\<rparr>"

lemma stopped_entry_simps [simp]:
  "keeps_id (stopped_entry l w)" "pe_id (stopped_entry l w e) = pe_id e" "pe_state (stopped_entry l w e) = Stopped"
  "pe_process (stopped_entry l w e) = None" "pe_restarts (stopped_entry l w e) = pe_restarts e"
  "pe_attention (stopped_entry l w e) = pe_attention e" "pe_last (stopped_entry l w e) = pe_last e"
  by (simp_all add: stopped_entry_def keeps_id_def)

lemma stop_eq:
  assumes e: "entry_of s i = Some e"
  shows "pe_state e = Stopped \<Longrightarrow> stop i r w s = (Inr (), s)"
    and "pe_state e \<noteq> Stopped \<Longrightarrow> pe_process e = None \<Longrightarrow> stop i r w s = (Inr (), on_entry i (\<lambda>e. e\<lparr>pe_state := Stopped\<rparr>) s)"
    and "pe_process e = Some p \<Longrightarrow> pe_state e \<in> set turn_states \<Longrightarrow>
      \<exists>evs. stop i r w s = (Inr (), emitted evs (on_entry i (stopped_entry (pv_diag_limit s) w) s))"
proof -
  show "pe_state e = Stopped \<Longrightarrow> stop i r w s = (Inr (), s)"
    using e by (simp add: stop_def stop_begin_def sup_bind_def require_eq sup_return_eq)
  show "pe_state e \<noteq> Stopped \<Longrightarrow> pe_process e = None \<Longrightarrow> stop i r w s = (Inr (), on_entry i (\<lambda>e. e\<lparr>pe_state := Stopped\<rparr>) s)"
    using e by (simp add: stop_def stop_begin_def sup_bind_def require_eq sup_return_eq update_entry_eq)
  assume p: "pe_process e = Some p" and st: "pe_state e \<in> set turn_states"
  note m = turn_state_moves [OF st]
  let ?d = "pv_diag_limit s"
  let ?ev = "[Session_state i Stopping (pe_attention e)]"
  let ?s1 = "emitted ?ev (on_entry i (\<lambda>e. e\<lparr>pe_state := Stopping\<rparr>) s)"
  let ?s2 = "on_entry i (wait_change ?d (sw_exit w)) ?s1"
  let ?s3 = "on_entry i (kill_change ?d w) ?s2"
  have begun: "stop_begin i s = (Inr (Some p), ?s1)"
    using m p by (simp add: stop_begin_def sup_bind_def require_eq [OF e] move_eq [OF e] sup_return_eq)
  have waited: "stop_waited i (sw_exit w) ?s1 = (Inr (sw_exit w \<noteq> Exited), ?s2)" by (simp add: stop_waited_eq)
  have killed: "(if sw_exit w \<noteq> Exited then stop_killed i (sw_kill w) else sup_return ()) ?s2 = (Inr (), ?s3)"
    by (subst stop_killed_eq) simp
  have e3: "entry_of ?s3 i = Some (kill_change ?d w (wait_change ?d (sw_exit w) (e\<lparr>pe_state := Stopping\<rparr>)))"
    using e by (simp add: entry_of_on_entry keeps_id_simps on_entry_emitted)
  obtain evs where ended: "stop_end i (sw_diag w) r ?s3 = (Inr (), emitted evs (on_entry i
      ((\<lambda>e. e\<lparr>pe_state := Stopped\<rparr>) \<circ> (\<lambda>e. e\<lparr>pe_process := None\<rparr>) \<circ> add_diag (pv_diag_limit ?s3) (sw_diag w)) ?s3))"
    using stop_end_eq [OF e3, of "sw_diag w" r] by auto
  have run: "stop i r w s = stop_end i (sw_diag w) r ?s3"
    by (simp only: stop_def sup_bind_def [of "stop_begin i"] begun prod.case sum.case option.case
      sup_bind_def [of "stop_waited i (sw_exit w)"] waited sup_bind_def [of "if _ then _ else _"] killed)
  have comp: "on_entry i ((\<lambda>e. e\<lparr>pe_state := Stopped\<rparr>) \<circ> (\<lambda>e. e\<lparr>pe_process := None\<rparr>) \<circ> add_diag ?d (sw_diag w)) ?s3
      = emitted ?ev (on_entry i (stopped_entry ?d w) s)"
    by (simp add: on_entry_emitted on_entry_on_entry keeps_id_simps)
      (simp add: stopped_entry_def [abs_def] comp_def)
  show "\<exists>evs. stop i r w s = (Inr (), emitted evs (on_entry i (stopped_entry ?d w) s))"
  proof -
    have lim: "pv_diag_limit ?s3 = ?d" by simp
    have "stop i r w s = (Inr (), emitted evs (emitted ?ev (on_entry i (stopped_entry ?d w) s)))"
      unfolding run ended by (simp only: lim comp)
    then show ?thesis by (simp add: on_entry_emitted) blast
  qed
qed

lemma stop_ok:
  assumes "sup_ok s"
  shows "sup_ok (snd (stop i r w s))"
proof (cases "entry_of s i")
  case None
  then show ?thesis using assms by (simp add: stop_def stop_begin_def sup_bind_def require_def)
next
  case (Some e)
  have ok: "entry_ok (pv_limit s) e" using assms entry_of_SomeD [OF Some] by (simp add: sup_ok_def)
  consider "pe_state e = Stopped" | "pe_state e \<noteq> Stopped" "pe_process e = None" | p where "pe_process e = Some p" by blast
  then show ?thesis
  proof cases
    case 1
    then show ?thesis using stop_eq(1) [OF Some] assms by simp
  next
    case 2
    then show ?thesis using stop_eq(2) [OF Some 2] assms
      by (simp, intro sup_ok_on_entry [OF _ Some]) (simp_all add: keeps_id_simps entry_ok_def turn_states_def)
  next
    case 3
    then have "pe_state e \<in> set turn_states" using ok by (simp add: entry_ok_def)
    then obtain evs where "stop i r w s = (Inr (), emitted evs (on_entry i (stopped_entry (pv_diag_limit s) w) s))"
      using stop_eq(3) [OF Some 3] by blast
    then show ?thesis using assms
      by (simp, intro sup_ok_on_entry [OF _ Some]) (simp_all add: entry_ok_def turn_states_def)
  qed
qed

section \<open>Starting keeps the invariant\<close>

lemma start_begin_cases:
  obtains (refused) er evs where "start_begin i s = (Inl er, emitted evs s)"
  | (free) e where "start_begin i s = (Inr Spawn_now, s)" "entry_of s i = Some e" "pe_state e \<in> {Stopped, Crashed, Retry_wait}"
      "others i s < pv_capacity s" "\<not> pv_draining s"
  | (evict) e v where "start_begin i s = (Inr (Stop_first (pe_id v)), s)" "entry_of s i = Some e"
      "pe_state e \<in> {Stopped, Crashed, Retry_wait}" "\<not> pv_draining s" "v \<in> set (pv_entries s)" "pe_state v = Idle" "pe_id v \<noteq> i"
proof (cases "entry_of s i")
  case None
  then show ?thesis using refused [of _ "[]"] by (simp add: start_begin_def sup_bind_def require_def emitted_def)
next
  case (Some e)
  have quiet: "s = emitted [] s" by (simp add: emitted_def)
  show ?thesis
  proof (cases "pv_draining s \<or> pe_state e = Crash_loop \<or> pe_state e \<notin> set [Stopped, Crashed, Retry_wait]")
    case True
    then have "\<exists>er. start_begin i s = (Inl er, s)"
      using Some by (auto simp: start_begin_def sup_bind_def require_eq sup_return_eq)
    then show ?thesis using refused [of _ "[]"] quiet by auto
  next
    case False
    let ?idle = "order_by (\<lambda>a b. pe_last a < pe_last b) (filter (\<lambda>x. pe_id x \<noteq> i) (eligibleIdle s))"
    have eq: "start_begin i s = (if others i s \<ge> pv_capacity s
        then (case ?idle of
            [] \<Rightarrow> sup_bind (emit (Host_capacity (activeCount s) (pv_capacity s)))
                  (\<lambda>_. sup_throw Host_capacity_code ''no eligible idle process'') s
          | victim # _ \<Rightarrow> (Inr (Stop_first (pe_id victim)), s)) else (Inr Spawn_now, s))"
      using False Some by (simp add: start_begin_def sup_bind_def require_eq others_def)
    show ?thesis
    proof (cases "others i s \<ge> pv_capacity s")
      case full: True
      show ?thesis
      proof (cases ?idle)
        case Nil
        then show ?thesis using refused eq full by (simp add: sup_bind_def emit_eq sup_return_eq)
      next
        case (Cons v vs)
        have "v \<in> set (filter (\<lambda>x. pe_id x \<noteq> i) (eligibleIdle s))"
          using arg_cong [OF Cons, of set] by auto
        then have "v \<in> set (pv_entries s)" "pe_state v = Idle" "pe_id v \<noteq> i" by (simp_all add: eligibleIdle_def EVICTABLE_def)
        then show ?thesis using evict [of v e] eq full Cons False Some by simp
      qed
    next
      case no: False
      then show ?thesis using free [of e] eq False Some by simp
    qed
  qed
qed

definition spawned_entry :: "spawn_spec \<Rightarrow> nat \<Rightarrow> entry \<Rightarrow> entry" where
  "spawned_entry spec p e = e\<lparr>pe_spec := Some spec, pe_process := Some p, pe_state := Starting\<rparr>"

lemma start_spawn_eq:
  assumes "entry_of s i = Some e" and "pe_state e \<in> {Stopped, Crashed, Retry_wait}"
  shows "start_spawn i spec s = (Inr (), emitted [Session_state i Starting (pe_attention e)]
    ((on_entry i (spawned_entry spec (pv_created s)) s)\<lparr>pv_created := pv_created s + 1\<rparr>))"
proof -
  let ?f = "\<lambda>e. e\<lparr>pe_spec := Some spec, pe_process := Some (pv_created s)\<rparr>"
  let ?t = "(on_entry i ?f s)\<lparr>pv_created := pv_created s + 1\<rparr>"
  have e: "entry_of ?t i = Some (?f e)"
    using entry_of_on_entry(1) [of ?f i s] assms(1) by (simp add: entry_of_def keeps_id_def)
  have m: "move i Starting ?t = (Inr (), emitted [Session_state i Starting (pe_attention e)] (on_entry i (\<lambda>e. e\<lparr>pe_state := Starting\<rparr>) ?t))"
    using move_eq [OF e, of Starting] assms(2) by auto
  have c: "on_entry i (\<lambda>e. e\<lparr>pe_state := Starting\<rparr>) ?t = (on_entry i (spawned_entry spec (pv_created s)) s)\<lparr>pv_created := pv_created s + 1\<rparr>"
    by (simp add: on_entry_def spawned_entry_def)
  have "start_spawn i spec s = move i Starting ?t"
    by (simp add: start_spawn_def sup_bind_def update_entry_eq)
  then show ?thesis using m c by (simp only:)
qed

lemma start_settled_eq:
  assumes "entry_of s i = Some e" and "pe_state e = Starting"
  shows "\<exists>evs g. snd (start_settled i r now s) = emitted evs (on_entry i g s) \<and> keeps_id g
    \<and> pe_restarts (g e) = pe_restarts e
    \<and> (if r = Came_up then pe_state (g e) = Idle \<and> pe_process (g e) = pe_process e
       else pe_state (g e) = Crashed \<and> pe_process (g e) = None)"
proof (cases r)
  case Came_up
  let ?f = "\<lambda>e. e\<lparr>pe_last := now\<rparr>"
  have e: "entry_of (on_entry i ?f s) i = Some (?f e)" using assms(1) by (simp add: entry_of_on_entry keeps_id_simps)
  have "move i Idle (on_entry i ?f s) = (Inr (), emitted [Session_state i Idle (pe_attention e)] (on_entry i (\<lambda>e. e\<lparr>pe_state := Idle\<rparr>) (on_entry i ?f s)))"
    using move_eq [OF e, of Idle] assms(2) by simp
  then have "snd (start_settled i r now s) = emitted [Session_state i Idle (pe_attention e)] (on_entry i ((\<lambda>e. e\<lparr>pe_state := Idle\<rparr>) \<circ> ?f) s)"
    by (simp add: start_settled_def Came_up sup_bind_def update_entry_eq on_entry_on_entry keeps_id_simps)
  then show ?thesis using Came_up
    by (intro exI [of _ "[Session_state i Idle (pe_attention e)]"] exI [of _ "(\<lambda>e. e\<lparr>pe_state := Idle\<rparr>) \<circ> ?f"]) (simp add: keeps_id_simps)
next
  case (Start_failed m)
  let ?f = "(\<lambda>e. e\<lparr>pe_process := None\<rparr>) \<circ> add_diag (pv_diag_limit s) [m]"
  have e: "entry_of (on_entry i ?f s) i = Some (?f e)" using assms(1) by (simp add: entry_of_on_entry keeps_id_simps)
  have "move i Crashed (on_entry i ?f s) = (Inr (), emitted [Session_state i Crashed (pe_attention e)] (on_entry i (\<lambda>e. e\<lparr>pe_state := Crashed\<rparr>) (on_entry i ?f s)))"
    using move_eq [OF e, of Crashed] assms(2) by simp
  then have "snd (start_settled i r now s) = emitted [Session_state i Crashed (pe_attention e)] (on_entry i ((\<lambda>e. e\<lparr>pe_state := Crashed\<rparr>) \<circ> ?f) s)"
    by (simp add: start_settled_def Start_failed sup_bind_def update_entry_eq captureDiagnostics_eq on_entry_on_entry keeps_id_simps error_text_def comp_assoc)
  then show ?thesis using Start_failed
    by (intro exI [of _ "[Session_state i Crashed (pe_attention e)]"] exI [of _ "(\<lambda>e. e\<lparr>pe_state := Crashed\<rparr>) \<circ> ?f"]) (simp add: keeps_id_simps)
qed

text \<open>From the spawn on, a start that has a place ends with the process up or the session crashed.\<close>

lemma spawn_and_settle_ok:
  assumes "sup_ok s" and "entry_of s i = Some e" and "pe_state e \<in> {Stopped, Crashed, Retry_wait}" and "others i s < pv_capacity s"
  shows "sup_ok (snd (sup_bind (start_spawn i spec) (\<lambda>_. start_settled i r now) s))"
proof -
  let ?sp = "spawned_entry spec (pv_created s)"
  let ?t = "emitted [Session_state i Starting (pe_attention e)] ((on_entry i ?sp s)\<lparr>pv_created := pv_created s + 1\<rparr>)"
  have ks: "keeps_id ?sp" by (simp add: keeps_id_def spawned_entry_def)
  have e: "entry_of ?t i = Some (?sp e)"
    using entry_of_on_entry(1) [OF ks, of i s] assms(2) by (simp add: entry_of_def)
  obtain evs g where g: "snd (start_settled i r now ?t) = emitted evs (on_entry i g ?t)" "keeps_id g"
      "pe_restarts (g (?sp e)) = pe_restarts (?sp e)"
      "if r = Came_up then pe_state (g (?sp e)) = Idle \<and> pe_process (g (?sp e)) = pe_process (?sp e)
       else pe_state (g (?sp e)) = Crashed \<and> pe_process (g (?sp e)) = None"
    using start_settled_eq [OF e, of r now] by (auto simp: spawned_entry_def)
  have run: "snd (sup_bind (start_spawn i spec) (\<lambda>_. start_settled i r now) s) = snd (start_settled i r now ?t)"
    by (simp add: sup_bind_def start_spawn_eq [OF assms(2,3)])
  have "on_entry i g ?t = emitted [Session_state i Starting (pe_attention e)] ((on_entry i (g \<circ> ?sp) s)\<lparr>pv_created := pv_created s + 1\<rparr>)"
    using ks by (simp add: on_entry_def emitted_def keeps_id_def)
  moreover have "sup_ok (on_entry i (g \<circ> ?sp) s)"
  proof (rule sup_ok_on_entry [OF assms(1,2)])
    show "keeps_id (g \<circ> ?sp)" using g(2) ks by (simp add: keeps_id_simps)
    show "entry_ok (pv_limit s) ((g \<circ> ?sp) e)"
      using g(4) by (auto simp: entry_ok_def turn_states_def spawned_entry_def split: if_splits)
    show "pe_process ((g \<circ> ?sp) e) = None \<or> pe_process e \<noteq> None \<or> others i s < pv_capacity s" using assms(4) by simp
  qed
  ultimately show ?thesis unfolding run g(1) by simp
qed

lemma others_le_active: "others i s \<le> activeCount s"
proof -
  have "length (filter (\<lambda>x. pe_id x \<noteq> i \<and> occupied x) es) \<le> length (filter occupied es)" for es by (induction es) auto
  then show ?thesis by (simp add: others_def activeCount_def)
qed

lemma evict_frees:
  assumes "sup_ok s" and "entry_of s v = Some x" and "pe_process x = Some p" and "pe_state x \<in> set turn_states"
  obtains evs where "stop v r w s = (Inr (), emitted evs (on_entry v (stopped_entry (pv_diag_limit s) w) s))"
    "sup_ok (on_entry v (stopped_entry (pv_diag_limit s) w) s)"
    "activeCount (on_entry v (stopped_entry (pv_diag_limit s) w) s) < pv_capacity s"
proof -
  let ?t = "on_entry v (stopped_entry (pv_diag_limit s) w) s"
  obtain evs where st: "stop v r w s = (Inr (), emitted evs ?t)" using stop_eq(3) [OF assms(2-4)] by blast
  have ok: "sup_ok ?t" using stop_ok [OF assms(1), of v r w] by (simp add: st)
  have t: "entry_of ?t v = Some (stopped_entry (pv_diag_limit s) w x)" using assms(2) by (simp add: entry_of_on_entry)
  have dist: "distinct (map pe_id (pv_entries s))" "distinct (map pe_id (pv_entries ?t))" using assms(1) ok by (simp_all only: sup_ok_def)
  have "activeCount ?t = others v s" using activeCount_split [OF dist(2) t] by (simp add: occupied_def)
  moreover have "activeCount s = others v s + 1"
    using activeCount_split [OF dist(1) assms(2)] assms(3) turn_state_moves [OF assms(4)] by (simp add: occupied_def)
  moreover have "activeCount s \<le> pv_capacity s" using assms(1) by (simp add: sup_ok_def)
  ultimately show ?thesis using that [OF st ok] by simp
qed

lemma start_ok:
  assumes "sup_ok s"
  shows "sup_ok (snd (start i spec w s))"
proof (cases rule: start_begin_cases [of i s])
  case (refused er evs)
  then show ?thesis using assms by (simp add: start_def sup_bind_def)
next
  case (free e)
  have "start i spec w s = sup_bind (start_spawn i spec) (\<lambda>_. start_settled i (tw_start w) (tw_now w)) s"
    by (simp add: start_def sup_bind_def [of "start_begin i"] free(1) sup_bind_def [of "sup_return ()"] sup_return_eq)
  then show ?thesis using spawn_and_settle_ok [OF assms free(2-4)] by simp
next
  case (evict e v)
  have v: "entry_of s (pe_id v) = Some v" using entry_of_set [OF assms evict(5)] .
  have "entry_ok (pv_limit s) v" using assms evict(5) by (simp add: sup_ok_def)
  then obtain p where p: "pe_process v = Some p" using evict(6) by (auto simp: entry_ok_def turn_states_def)
  have ts: "pe_state v \<in> set turn_states" using evict(6) by (simp add: turn_states_def)
  let ?t = "on_entry (pe_id v) (stopped_entry (pv_diag_limit s) (tw_stop w)) s"
  obtain evs where st: "stop (pe_id v) ''capacity'' (tw_stop w) s = (Inr (), emitted evs ?t)" "sup_ok ?t" "activeCount ?t < pv_capacity s"
    by (rule evict_frees [OF assms v p ts])
  have e: "entry_of (emitted evs ?t) i = Some e" using evict(2,7) by (simp add: entry_of_on_entry)
  have "others i ?t < pv_capacity (emitted evs ?t)" using others_le_active [of i ?t] st(3) by simp
  then have room: "others i (emitted evs ?t) < pv_capacity (emitted evs ?t)" by simp
  have "start i spec w s = sup_bind (start_spawn i spec) (\<lambda>_. start_settled i (tw_start w) (tw_now w)) (emitted evs ?t)"
    by (simp add: start_def sup_bind_def [of "start_begin i"] evict(1) sup_bind_def [of "stop _ _ _"] st(1))
  then show ?thesis using spawn_and_settle_ok [OF _ e evict(3) room] st(2) by simp
qed

section \<open>Every call keeps the invariant\<close>

definition keeps :: "'a sup \<Rightarrow> bool" where
  "keeps f \<longleftrightarrow> (\<forall>s. sup_ok s \<longrightarrow> sup_ok (snd (f s)))"

named_theorems keeps_intros \<open>calls that keep the invariant\<close>

lemma keepsI: "(\<And>s. sup_ok s \<Longrightarrow> sup_ok (snd (f s))) \<Longrightarrow> keeps f"
  by (simp add: keeps_def)

lemma keepsD: "keeps f \<Longrightarrow> sup_ok s \<Longrightarrow> sup_ok (snd (f s))"
  by (simp add: keeps_def)

lemma keeps_bind [keeps_intros]: "keeps f \<Longrightarrow> (\<And>x. keeps (g x)) \<Longrightarrow> keeps (sup_bind f g)"
  by (fastforce simp: keeps_def sup_bind_def split: prod.split sum.split)

lemma keeps_simple [keeps_intros]:
  "keeps (sup_return x)" "keeps (sup_throw c m)" "keeps (emit ev)" "keeps (require i)"
  by (simp_all add: keeps_def sup_return_eq emit_eq require_def split: option.split)

lemma keeps_calls [keeps_intros]: "keeps (stop i r w)" "keeps (start i spec sw)"
  using stop_ok start_ok by (auto simp: keeps_def)

lemma on_entry_absent: "entry_of s i = None \<Longrightarrow> on_entry i f s = s"
  by (auto simp: entry_of_None on_entry_def intro!: supervisor.equality map_idI)

lemma keeps_update:
  assumes "keeps_id f" and "\<And>e. pe_process (f e) = None \<or> pe_process (f e) = pe_process e"
    and "\<And>l e. entry_ok l e \<Longrightarrow> entry_ok l (f e)"
  shows "keeps (update_entry i f)"
proof (rule keepsI)
  fix s assume ok: "sup_ok s"
  show "sup_ok (snd (update_entry i f s))"
  proof (cases "entry_of s i")
    case None
    then show ?thesis using ok by (simp add: update_entry_eq on_entry_absent)
  next
    case (Some e)
    then have "entry_ok (pv_limit s) e" using ok entry_of_SomeD [OF Some] by (simp add: sup_ok_def)
    then have "sup_ok (on_entry i f s)"
      using assms(2) [of e] by (intro sup_ok_on_entry [OF ok Some assms(1) assms(3)]) auto
    then show ?thesis by (simp add: update_entry_eq)
  qed
qed

lemma keeps_plain_updates [keeps_intros]:
  "keeps (update_entry i (\<lambda>e. e\<lparr>pe_last := now\<rparr>))" "keeps (update_entry i (\<lambda>e. e\<lparr>pe_attention := a\<rparr>))"
  "keeps (update_entry i (\<lambda>e. e\<lparr>pe_attention := a, pe_last := now\<rparr>))" "keeps (update_entry i (\<lambda>e. e\<lparr>pe_spec := sp\<rparr>))"
  "keeps (update_entry i (\<lambda>e. e\<lparr>pe_retry := at\<rparr>))" "keeps (update_entry i (\<lambda>e. e\<lparr>pe_restarts := []\<rparr>))"
  by (rule keeps_update; auto simp: keeps_id_def entry_ok_def)+

lemma keeps_move [keeps_intros]:
  assumes "st \<in> set turn_states \<or> st = Stopped"
  shows "keeps (move i st)"
proof (rule keepsI)
  fix s assume ok: "sup_ok s"
  show "sup_ok (snd (move i st s))"
  proof (cases "entry_of s i")
    case None
    then show ?thesis using ok by (simp add: move_def sup_bind_def require_def)
  next
    case (Some e)
    have eo: "entry_ok (pv_limit s) e" using ok entry_of_SomeD [OF Some] by (simp add: sup_ok_def)
    show ?thesis
    proof (cases "pe_state e \<noteq> st \<and> st \<in> set (ALLOWED (pe_state e))")
      case True
      have "entry_ok (pv_limit s) (e\<lparr>pe_state := st\<rparr>)"
        using eo True assms by (cases "pe_state e") (auto simp: entry_ok_def turn_states_def)
      then have "sup_ok (on_entry i (\<lambda>e. e\<lparr>pe_state := st\<rparr>) s)"
        by (intro sup_ok_on_entry [OF ok Some]) (auto simp: keeps_id_simps)
      then show ?thesis using move_eq [OF Some] True by simp
    next
      case False
      then have "snd (move i st s) = s" using Some by (auto simp: move_def sup_bind_def require_eq sup_return_eq)
      then show ?thesis using ok by simp
    qed
  qed
qed

section \<open>Crashes\<close>

definition recent_exits :: "entry \<Rightarrow> int \<Rightarrow> supervisor \<Rightarrow> int list" where
  "recent_exits e now s = filter (\<lambda>t. t \<ge> now - pv_window s) (pe_restarts e) @ [now]"

definition exited_entry :: "nat \<Rightarrow> string list \<Rightarrow> int list \<Rightarrow> entry \<Rightarrow> entry" where
  "exited_entry l ds rs e = (add_diag l (if pe_process e = None then [] else ds) e)\<lparr>pe_process := None, pe_restarts := rs, pe_state := Crashed\<rparr>"

lemma exited_entry_simps [simp]:
  "pe_id (exited_entry l ds rs e) = pe_id e" "pe_state (exited_entry l ds rs e) = Crashed" "pe_process (exited_entry l ds rs e) = None"
  "pe_restarts (exited_entry l ds rs e) = rs" "keeps_id (exited_entry l ds rs)" "pe_spec (exited_entry l ds rs e) = pe_spec e"
  "pe_attention (exited_entry l ds rs e) = pe_attention e"
  by (simp_all add: exited_entry_def keeps_id_def)

lemma active_crash: "st \<in> set ACTIVE \<Longrightarrow> st \<noteq> Crashed \<and> Crashed \<in> set (ALLOWED st)"
  by (auto simp: ACTIVE_def)

lemma emitted_Nil [simp]: "emitted [] s = s"
  by (simp add: emitted_def)

lemma emit_if: "(if b then emit ev else sup_return ()) s = (Inr (), emitted (if b then [ev] else []) s)"
  by (simp add: emit_eq sup_return_eq)

lemma on_entry_cong:
  assumes "sup_ok s" and "entry_of s i = Some e" and "f e = g e"
  shows "on_entry i f s = on_entry i g s"
proof -
  have "x = e" if "x \<in> set (pv_entries s)" "pe_id x = i" for x
    using entry_of_set [OF assms(1) that(1)] assms(2) that(2) by simp
  then show ?thesis using assms(3) unfolding on_entry_def by (intro supervisor.fold_congs refl) auto
qed

lemma unexpectedExit_eq:
  assumes "sup_ok s" and e: "entry_of s i = Some e" and act: "pe_state e \<in> set ACTIVE" and rs_def: "rs = recent_exits e now s"
  shows "unexpectedExit i code sg ra ds now s =
    (Inr (), emitted ((if ra \<or> pe_state e \<in> set [Running, Waiting_for_input, Compacting] then [Turn_indeterminate i code sg] else [])
        @ [Session_state i Crashed (pe_attention e)]
        @ (if pv_limit s \<le> length rs then [Session_state i Crash_loop (pe_attention e), Host_degraded i (length rs) (pv_window s)]
           else if pv_draining s then [Session_state i Stopped (pe_attention e)] else [Session_state i Retry_wait (pe_attention e)]))
      (on_entry i ((if pv_limit s \<le> length rs then (\<lambda>e. e\<lparr>pe_state := Crash_loop\<rparr>)
           else if pv_draining s then (\<lambda>e. e\<lparr>pe_state := Stopped\<rparr>)
           else (\<lambda>e. e\<lparr>pe_retry := Some (now + pv_delay s), pe_state := Retry_wait\<rparr>)) \<circ> exited_entry (pv_diag_limit s) ds rs) s))"
proof -
  obtain ev where ev: "ev = (if ra \<or> pe_state e \<in> set [Running, Waiting_for_input, Compacting] then [Turn_indeterminate i code sg] else [])" by simp
  obtain dd where dd: "dd = (if pe_process e = None then [] else ds)" by simp
  let ?f = "(\<lambda>e. e\<lparr>pe_restarts := rs\<rparr>) \<circ> ((\<lambda>e. e\<lparr>pe_process := None\<rparr>) \<circ> add_diag (pv_diag_limit s) dd)"
  let ?t = "emitted ev (on_entry i ?f s)"
  let ?rest = "\<lambda>_. if length rs \<ge> pv_limit s
          then sup_bind (move i Crash_loop) (\<lambda>_. emit (Host_degraded i (length rs) (pv_window s)))
          else if pv_draining s then move i Stopped
          else sup_bind (update_entry i (\<lambda>e. e\<lparr>pe_retry := Some (now + pv_delay s)\<rparr>)) (\<lambda>_. move i Retry_wait)"
  have run: "unexpectedExit i code sg ra ds now s = sup_bind (move i Crashed) ?rest ?t"
    using act unfolding rs_def recent_exits_def ev dd
    by (simp add: unexpectedExit_def Let_def sup_bind_def [of "require i"] require_eq [OF e] sup_bind_def [of "captureDiagnostics _ _"]
      captureDiagnostics_eq sup_bind_def [of "update_entry i (\<lambda>e. e\<lparr>pe_process := None\<rparr>)"] update_entry_eq on_entry_on_entry
      sup_bind_def [of "if _ then emit _ else sup_return _"] emit_if on_entry_emitted keeps_id_simps comp_assoc
      sup_bind_def [of "update_entry i (\<lambda>e. e\<lparr>pe_restarts := _\<rparr>)"] split del: if_split)
  have et: "entry_of ?t i = Some (?f e)" using e by (simp add: entry_of_on_entry keeps_id_simps)
  have st: "pe_state (?f e) = pe_state e" "pe_attention (?f e) = pe_attention e" by simp_all
  let ?u = "emitted [Session_state i Crashed (pe_attention e)] (on_entry i (\<lambda>e. e\<lparr>pe_state := Crashed\<rparr>) ?t)"
  have crashed: "move i Crashed ?t = (Inr (), ?u)" using move_eq [OF et, of Crashed] active_crash [OF act] st by simp
  have u: "?u = emitted (ev @ [Session_state i Crashed (pe_attention e)]) (on_entry i (exited_entry (pv_diag_limit s) ds rs) s)"
    using on_entry_cong [OF assms(1) e, of "(\<lambda>e. e\<lparr>pe_state := Crashed\<rparr>) \<circ> ?f" "exited_entry (pv_diag_limit s) ds rs"]
    by (simp add: on_entry_emitted on_entry_on_entry keeps_id_simps exited_entry_def dd [symmetric])
  have eu: "entry_of ?u i = Some (exited_entry (pv_diag_limit s) ds rs e)" unfolding u using e by (simp add: entry_of_on_entry)
  have then_rest: "unexpectedExit i code sg ra ds now s = ?rest () ?u" unfolding run
    by (simp only: sup_bind_def [of "move i Crashed"] crashed prod.case sum.case)
  let ?g = "\<lambda>e. e\<lparr>pe_retry := Some (now + pv_delay s)\<rparr>"
  have er: "entry_of (on_entry i ?g ?u) i = Some (?g (exited_entry (pv_diag_limit s) ds rs e))"
    by (simp only: entry_of_on_entry(1) [OF keeps_id_simps(6)] eu option.map)
  let ?x = "exited_entry (pv_diag_limit s) ds rs"
  consider (loop) "pv_limit s \<le> length rs" | (drain) "\<not> pv_limit s \<le> length rs" "pv_draining s"
    | (retry) "\<not> pv_limit s \<le> length rs" "\<not> pv_draining s" by blast
  then show ?thesis
  proof cases
    case loop
    have "move i Crash_loop ?u = (Inr (), emitted [Session_state i Crash_loop (pe_attention e)] (on_entry i (\<lambda>e. e\<lparr>pe_state := Crash_loop\<rparr>) ?u))"
      using move_eq [OF eu, of Crash_loop] by simp
    then have "?rest () ?u = (Inr (), emitted [Host_degraded i (length rs) (pv_window s)]
        (emitted [Session_state i Crash_loop (pe_attention e)] (on_entry i (\<lambda>e. e\<lparr>pe_state := Crash_loop\<rparr>) ?u)))"
      using loop by (simp only: if_True sup_bind_def [of "move i Crash_loop"] prod.case sum.case emit_eq)
    then show ?thesis unfolding then_rest u unfolding ev using loop
      by (simp only: if_True on_entry_emitted on_entry_on_entry exited_entry_simps append_assoc append_Cons append_Nil)
  next
    case drain
    have "move i Stopped ?u = (Inr (), emitted [Session_state i Stopped (pe_attention e)] (on_entry i (\<lambda>e. e\<lparr>pe_state := Stopped\<rparr>) ?u))"
      using move_eq [OF eu, of Stopped] by simp
    then have "?rest () ?u = (Inr (), emitted [Session_state i Stopped (pe_attention e)] (on_entry i (\<lambda>e. e\<lparr>pe_state := Stopped\<rparr>) ?u))"
      using drain by (simp only: if_True if_False)
    then show ?thesis unfolding then_rest u unfolding ev using drain
      by (simp only: if_True if_False on_entry_emitted on_entry_on_entry exited_entry_simps append_assoc)
  next
    case retry
    have "move i Retry_wait (on_entry i ?g ?u) = (Inr (), emitted [Session_state i Retry_wait (pe_attention e)]
        (on_entry i (\<lambda>e. e\<lparr>pe_state := Retry_wait\<rparr>) (on_entry i ?g ?u)))"
      using move_eq [OF er, of Retry_wait] by simp
    then have "?rest () ?u = (Inr (), emitted [Session_state i Retry_wait (pe_attention e)]
        (on_entry i (\<lambda>e. e\<lparr>pe_state := Retry_wait\<rparr>) (on_entry i ?g ?u)))"
      using retry by (simp only: if_False sup_bind_def [of "update_entry _ _"] update_entry_eq prod.case sum.case)
    moreover have "on_entry i (\<lambda>e. e\<lparr>pe_state := Retry_wait\<rparr>) (on_entry i ?g (on_entry i ?x s))
        = on_entry i ((\<lambda>e. e\<lparr>pe_retry := Some (now + pv_delay s), pe_state := Retry_wait\<rparr>) \<circ> ?x) s"
      by (simp add: on_entry_on_entry keeps_id_simps comp_def)
    ultimately show ?thesis unfolding then_rest u unfolding ev using retry
      by (simp only: if_False on_entry_emitted append_assoc)
  qed
qed

lemma keeps_exit [keeps_intros]: "keeps (unexpectedExit i code sg ra ds now)"
proof (rule keepsI)
  fix s assume ok: "sup_ok s"
  consider (none) "entry_of s i = None" | (idle) e where "entry_of s i = Some e" "pe_state e \<notin> set ACTIVE"
    | (active) e where "entry_of s i = Some e" "pe_state e \<in> set ACTIVE" by (cases "entry_of s i") auto
  then show "sup_ok (snd (unexpectedExit i code sg ra ds now s))"
  proof cases
    case none
    then show ?thesis using ok by (simp add: unexpectedExit_def sup_bind_def require_def)
  next
    case idle
    then show ?thesis using ok by (simp add: unexpectedExit_def sup_bind_def require_eq sup_return_eq)
  next
    case active
    let ?rs = "recent_exits e now s" and ?x = "exited_entry (pv_diag_limit s) ds (recent_exits e now s)"
    let ?g = "if pv_limit s \<le> length ?rs then (\<lambda>e. e\<lparr>pe_state := Crash_loop\<rparr>)
           else if pv_draining s then (\<lambda>e. e\<lparr>pe_state := Stopped\<rparr>)
           else (\<lambda>e. e\<lparr>pe_retry := Some (now + pv_delay s), pe_state := Retry_wait\<rparr>)"
    have "sup_ok (on_entry i (?g \<circ> ?x) s)"
    proof (rule sup_ok_on_entry [OF ok active(1)])
      show "keeps_id (?g \<circ> ?x)" by (simp add: keeps_id_def)
      show "entry_ok (pv_limit s) ((?g \<circ> ?x) e)" by (simp add: entry_ok_def turn_states_def)
      show "pe_process ((?g \<circ> ?x) e) = None \<or> pe_process e \<noteq> None \<or> others i s < pv_capacity s" by simp
    qed
    then show ?thesis unfolding unexpectedExit_eq [OF ok active refl] by simp
  qed
qed

lemma keeps_if [keeps_intros]: "(b \<Longrightarrow> keeps f) \<Longrightarrow> (\<not> b \<Longrightarrow> keeps g) \<Longrightarrow> keeps (if b then f else g)"
  by simp

lemma keeps_transition:
  assumes "st \<in> set turn_states"
  shows "keeps (transition i st a now w)"
proof -
  have last: "keeps (\<lambda>s. if pv_draining s \<and> st = Idle \<and> pe_attention e = No_attention
       then (Inr (), snd (stop i ''drain_settled'' w s)) else (Inr (), s))" for e
    using stop_ok by (simp add: keeps_def)
  have att: "keeps (case a of None \<Rightarrow> sup_return () | Some x \<Rightarrow> update_entry i (\<lambda>e. e\<lparr>pe_attention := x\<rparr>))"
    by (cases a) (simp_all add: keeps_simple keeps_plain_updates)
  show ?thesis unfolding transition_def
    by (intro keeps_bind keeps_simple att keeps_move disjI1 assms keeps_plain_updates last)
qed

lemma keeps_retry [keeps_intros]: "keeps (manualRetry i w)"
proof -
  have one: "keeps (case (if pe_state e \<in> set [Crash_loop, Crashed, Retry_wait] then pe_spec e else None) of
         None \<Rightarrow> sup_throw Invalid_state_code ''manual retry unavailable''
       | Some spec \<Rightarrow>
           sup_bind (update_entry i (\<lambda>e. e\<lparr>pe_restarts := []\<rparr>)) (\<lambda>_.
           sup_bind (if pe_state e = Crash_loop then move i Stopped else sup_return ()) (\<lambda>_. start i spec w)))" for e
    by (cases "if pe_state e \<in> set [Crash_loop, Crashed, Retry_wait] then pe_spec e else None")
      (simp_all only: option.case, auto intro!: keeps_intros)
  show ?thesis unfolding manualRetry_def by (intro keeps_bind keeps_simple one)
qed

lemma keeps_state: "(\<And>t. keeps (f t)) \<Longrightarrow> keeps (\<lambda>s. f s s)"
  by (simp add: keeps_def)

lemma keeps_tick_visit: "keeps (tick_visit now w i)"
proof -
  have st: "keeps (\<lambda>t. (Inr (), snd (start i spec w t)))" for spec using start_ok by (simp add: keeps_def)
  have second: "keeps (case (pe_retry e, pe_spec e) of
         (Some at, Some spec) \<Rightarrow>
           if pe_state e = Retry_wait \<and> now \<ge> at
           then sup_bind (update_entry i (\<lambda>e. e\<lparr>pe_retry := None\<rparr>)) (\<lambda>_ t. (Inr (), snd (start i spec w t)))
           else sup_return ()
       | _ \<Rightarrow> sup_return ())" for e
    by (cases "pe_retry e"; cases "pe_spec e") (auto intro!: keeps_intros st)
  have "keeps (\<lambda>s. sup_bind (if pe_state e = Idle \<and> pe_attention e = No_attention \<and> now - pe_last e \<ge> pv_idle_timeout s
               then stop i ''idle_timeout'' (tw_stop w) else sup_return ()) (\<lambda>_.
     sup_bind (require i) (\<lambda>e. case (pe_retry e, pe_spec e) of
         (Some at, Some spec) \<Rightarrow>
           if pe_state e = Retry_wait \<and> now \<ge> at
           then sup_bind (update_entry i (\<lambda>e. e\<lparr>pe_retry := None\<rparr>)) (\<lambda>_ t. (Inr (), snd (start i spec w t)))
           else sup_return ()
       | _ \<Rightarrow> sup_return ())) s)" for e
    by (rule keeps_state) (intro keeps_bind keeps_if keeps_calls keeps_simple second)
  then show ?thesis unfolding tick_visit_def by (intro keeps_bind keeps_simple)
qed

lemma keeps_tick_entries: "keeps (tick_entries now w is)"
  by (induction "is") (auto intro: keeps_intros keeps_tick_visit)

lemma keeps_tick: "keeps (tick now w)"
  using keeps_tick_entries by (simp add: keeps_def tick_def)

lemma keeps_drain_entries: "keeps (drain_entries w is)"
proof (induction "is")
  case (Cons i "is")
  have rest: "keeps (sup_bind (drain_entries w is) (\<lambda>(st, re). sup_return (f st re)))" for f :: "string list \<Rightarrow> string list \<Rightarrow> string list \<times> string list"
    by (intro keeps_bind Cons.IH) (simp add: case_prod_beta keeps_simple)
  show ?case by (simp, intro keeps_bind keeps_if keeps_simple keeps_calls rest)
qed (simp add: keeps_simple)

lemma keeps_drain: "keeps (drain w)"
proof -
  have "keeps (\<lambda>s. drain_entries w (map pe_id (pv_entries s)) s)" by (rule keeps_state) (rule keeps_drain_entries)
  then show ?thesis unfolding drain_def by (intro keeps_bind keeps_simple) (simp add: keeps_def)
qed

lemma put_entry_props:
  assumes "distinct (map pe_id es)"
  shows "distinct (map pe_id (put_entry e es))" "set (put_entry e es) \<subseteq> insert e (set es)"
proof -
  have "map pe_id (map (\<lambda>x. if pe_id x = pe_id e then e else x) es) = map pe_id es" by simp
  then show "distinct (map pe_id (put_entry e es))" using assms by (auto simp: put_entry_def simp del: map_map)
  show "set (put_entry e es) \<subseteq> insert e (set es)" by (auto simp: put_entry_def)
qed

lemma fold_put_entry:
  assumes "\<And>r. P (row r)" and "distinct (map pe_id es)" and "\<forall>e \<in> set es. P e"
  shows "distinct (map pe_id (fold (\<lambda>r. put_entry (row r)) rs es)) \<and> (\<forall>e \<in> set (fold (\<lambda>r. put_entry (row r)) rs es). P e)"
  using assms(2,3)
proof (induction rs arbitrary: es)
  case (Cons r rs)
  have "\<forall>e \<in> set (put_entry (row r) es). P e" using put_entry_props(2) [OF Cons.prems(1), of "row r"] Cons.prems(2) assms(1) by auto
  from Cons.IH [OF put_entry_props(1) [OF Cons.prems(1)] this] show ?case by simp
qed simp

lemma restore_ok:
  assumes "sup_ok s"
  shows "sup_ok (restoreAfterReboot snap now s)"
proof -
  let ?P = "\<lambda>e. pe_process e = None \<and> (pe_state e = Crash_loop \<or> pe_state e = Incompatible \<or> pe_state e = Stopped)"
  let ?t = "restoreAfterReboot snap now s"
  have es: "distinct (map pe_id (pv_entries ?t)) \<and> (\<forall>e \<in> set (pv_entries ?t). ?P e)"
    using fold_put_entry [of ?P "restored_entry (pv_diag_limit s) now" "[]" "pw_sessions snap"]
    by (simp add: restoreAfterReboot_def restored_entry_def)
  have "filter occupied (pv_entries ?t) = []" using es by (auto simp: filter_empty_conv occupied_def)
  moreover have "entry_ok l e" if "?P e" for l e using that by (auto simp: entry_ok_def turn_states_def)
  moreover have "pv_capacity ?t = pv_capacity s" by (simp add: restoreAfterReboot_def)
  ultimately show ?thesis using es assms by (simp add: sup_ok_def activeCount_def)
qed

lemma register_ok:
  assumes "sup_ok s"
  shows "sup_ok (register i Stopped now s)"
proof (cases "entry_of s i")
  case None
  then have "i \<notin> pe_id ` set (pv_entries s)" by (simp add: entry_of_None)
  then show ?thesis using assms None
    by (auto simp: register_def sup_ok_def activeCount_def occupied_def entry_ok_def turn_states_def)
qed (use assms in \<open>simp add: register_def\<close>)

lemma sup_call_ok: "sup_call s s' \<Longrightarrow> sup_ok s \<Longrightarrow> sup_ok s'"
proof (induction rule: sup_call.induct)
  case (configured s i spec)
  have "keeps (configure i spec)" unfolding configure_def by (intro keeps_intros)
  then show ?case using configured by (rule keepsD)
next
  case (attended s i a now)
  have "keeps (setAttention i a now)" unfolding setAttention_def by (intro keeps_intros)
  then show ?case using attended by (rule keepsD)
next
  case (turned st s i a now sw)
  then show ?case using keepsD [OF keeps_transition] by blast
next
  case (exited s i code sg ra ds now)
  then show ?case using keepsD [OF keeps_exit] by blast
next
  case (retried s i w)
  then show ?case using keepsD [OF keeps_retry] by blast
next
  case (ticked s now ws)
  then show ?case using keepsD [OF keeps_tick] by blast
next
  case (drained s sws)
  then show ?case using keepsD [OF keeps_drain] by blast
qed (auto intro: register_ok stop_ok start_ok restore_ok)

lemma sup_run_ok: "sup_run s0 s \<Longrightarrow> sup_ok s0 \<Longrightarrow> sup_ok s"
  by (induction rule: sup_run.induct) (auto intro: sup_call_ok)

lemma new_supervisor_ok: "new_supervisor cap it wi li de di = Inr s \<Longrightarrow> sup_ok s"
  by (auto simp: new_supervisor_def sup_ok_def activeCount_def Let_def split: if_splits)

section \<open>Draining\<close>

lemma drain_entries_eq:
  assumes "sup_ok s" and "distinct is" and "set is \<subseteq> pe_id ` set (pv_entries s)"
  shows "\<exists>st re t. drain_entries w is s = (Inr (st, re), t) \<and> sup_ok t \<and> pv_draining t = pv_draining s
    \<and> map pe_id (pv_entries t) = map pe_id (pv_entries s)
    \<and> (\<forall>j. j \<notin> set is \<longrightarrow> entry_of t j = entry_of s j)
    \<and> (\<forall>j \<in> set is. \<exists>e e'. entry_of s j = Some e \<and> entry_of t j = Some e'
          \<and> (if pe_state e = Idle \<and> pe_attention e = No_attention
             then j \<in> set st \<and> pe_state e' = Stopped \<and> pe_process e' = None
             else e' = e \<and> (pe_state e \<in> set ACTIVE \<longrightarrow> j \<in> set re)))"
  using assms
proof (induction "is" arbitrary: s)
  case Nil
  then show ?case by (simp add: sup_return_eq)
next
  case (Cons i "is")
  obtain e where e: "entry_of s i = Some e" using Cons.prems(3) entry_of_None [of s i] by (cases "entry_of s i") auto
  show ?case
  proof (cases "pe_state e = Idle \<and> pe_attention e = No_attention")
    case True
    have "entry_ok (pv_limit s) e" using Cons.prems(1) entry_of_SomeD [OF e] by (simp add: sup_ok_def)
    then obtain p where p: "pe_process e = Some p" "pe_state e \<in> set turn_states" using True by (auto simp: entry_ok_def turn_states_def)
    let ?u = "on_entry i (stopped_entry (pv_diag_limit s) (w i)) s"
    obtain evs where st: "stop i ''host_drain'' (w i) s = (Inr (), emitted evs ?u)" "sup_ok ?u"
      by (rule evict_frees [OF Cons.prems(1) e p])
    have ids: "map pe_id (pv_entries ?u) = map pe_id (pv_entries s)" by simp
    have pe: "pv_entries (emitted evs ?u) = pv_entries ?u" by simp
    have eids: "pe_id ` set (pv_entries (emitted evs ?u)) = pe_id ` set (pv_entries s)"
      unfolding pe using arg_cong [OF ids, of set] by (simp only: set_map)
    have iset: "set is \<subseteq> pe_id ` set (pv_entries (emitted evs ?u))" unfolding eids using Cons.prems(3) by simp
    have dis: "distinct is" "i \<notin> set is" using Cons.prems(2) by simp_all
    have ok: "sup_ok (emitted evs ?u)" using st(2) by simp
    obtain sts re t where IH: "drain_entries w is (emitted evs ?u) = (Inr (sts, re), t)" "sup_ok t" "pv_draining t = pv_draining s"
      "map pe_id (pv_entries t) = map pe_id (pv_entries s)" "\<And>j. j \<notin> set is \<Longrightarrow> entry_of t j = entry_of ?u j"
      "\<And>j. j \<in> set is \<Longrightarrow> \<exists>e e'. entry_of ?u j = Some e \<and> entry_of t j = Some e'
          \<and> (if pe_state e = Idle \<and> pe_attention e = No_attention
             then j \<in> set sts \<and> pe_state e' = Stopped \<and> pe_process e' = None
             else e' = e \<and> (pe_state e \<in> set ACTIVE \<longrightarrow> j \<in> set re))"
      using Cons.IH [OF ok dis(1) iset] ids by (auto simp: entry_of_on_entry)
    have run: "drain_entries w (i # is) s = (Inr (i # sts, re), t)"
      using True by (simp add: sup_bind_def require_eq [OF e] st(1) IH(1) sup_return_eq)
    have ui: "entry_of ?u i = Some (stopped_entry (pv_diag_limit s) (w i) e)" using e by (simp add: entry_of_on_entry)
    have uj: "entry_of ?u j = entry_of s j" if "j \<noteq> i" for j using that by (simp add: entry_of_on_entry)
    have ti: "entry_of t i = Some (stopped_entry (pv_diag_limit s) (w i) e)" using IH(5) [OF dis(2)] ui by simp
    show ?thesis
    proof (rule exI [of _ "i # sts"], rule exI [of _ re], rule exI [of _ t], intro conjI run IH(2-4) allI impI ballI)
      fix j assume "j \<notin> set (i # is)"
      then show "entry_of t j = entry_of s j" using IH(5) uj by simp
    next
      fix j assume j: "j \<in> set (i # is)"
      show "\<exists>e e'. entry_of s j = Some e \<and> entry_of t j = Some e'
          \<and> (if pe_state e = Idle \<and> pe_attention e = No_attention
             then j \<in> set (i # sts) \<and> pe_state e' = Stopped \<and> pe_process e' = None
             else e' = e \<and> (pe_state e \<in> set ACTIVE \<longrightarrow> j \<in> set re))"
      proof (cases "j = i")
        case True
        then show ?thesis using e ti \<open>pe_state e = Idle \<and> pe_attention e = No_attention\<close> by simp
      next
        case False
        then show ?thesis using IH(6) [of j] j uj [OF False] by (auto split: if_splits)
      qed
    qed
  next
    case False
    have iset: "set is \<subseteq> pe_id ` set (pv_entries s)" using Cons.prems(3) by simp
    have dis: "distinct is" "i \<notin> set is" using Cons.prems(2) by simp_all
    obtain sts re t where IH: "drain_entries w is s = (Inr (sts, re), t)" "sup_ok t" "pv_draining t = pv_draining s"
      "map pe_id (pv_entries t) = map pe_id (pv_entries s)" "\<And>j. j \<notin> set is \<Longrightarrow> entry_of t j = entry_of s j"
      "\<And>j. j \<in> set is \<Longrightarrow> \<exists>e e'. entry_of s j = Some e \<and> entry_of t j = Some e'
          \<and> (if pe_state e = Idle \<and> pe_attention e = No_attention
             then j \<in> set sts \<and> pe_state e' = Stopped \<and> pe_process e' = None
             else e' = e \<and> (pe_state e \<in> set ACTIVE \<longrightarrow> j \<in> set re))"
      using Cons.IH [OF Cons.prems(1) dis(1) iset] by auto
    let ?re = "if pe_state e \<in> set ACTIVE then i # re else re"
    have run: "drain_entries w (i # is) s = (Inr (sts, ?re), t)"
      using False by (cases "pe_state e = Idle") (simp_all add: sup_bind_def require_eq [OF e] IH(1) sup_return_eq)
    show ?thesis
    proof (rule exI [of _ sts], rule exI [of _ ?re], rule exI [of _ t], intro conjI run IH(2-4) allI impI ballI)
      fix j assume "j \<notin> set (i # is)"
      then show "entry_of t j = entry_of s j" using IH(5) by simp
    next
      fix j assume j: "j \<in> set (i # is)"
      show "\<exists>e e'. entry_of s j = Some e \<and> entry_of t j = Some e'
          \<and> (if pe_state e = Idle \<and> pe_attention e = No_attention
             then j \<in> set sts \<and> pe_state e' = Stopped \<and> pe_process e' = None
             else e' = e \<and> (pe_state e \<in> set ACTIVE \<longrightarrow> j \<in> set ?re))"
      proof (cases "j = i")
        case True
        then show ?thesis using e IH(5) [OF dis(2)] False by simp
      next
        case ne: False
        then show ?thesis using IH(6) [of j] j by (auto split: if_splits)
      qed
    qed
  qed
qed

lemma start_draining: "pv_draining s \<Longrightarrow> \<exists>er. start i spec w s = (Inl er, s)"
  by (cases "entry_of s i") (simp_all add: start_def start_begin_def sup_bind_def require_def sup_return_eq)

section \<open>Properties\<close>

text \<open>
  C36 (capacity_kept). However a host calls the supervisor, one call after the other - starts that evict, starts
  that fail, crashes, retries, ticks, drains, reboots - never more processes are at work than its
  capacity, which is at most eight, and between calls exactly the sessions in a turn have one.
\<close>

theorem capacity_kept:
  assumes "new_supervisor cap it wi li de di = Inr s0" and "sup_run s0 s"
  shows "activeCount s \<le> pv_capacity s \<and> pv_capacity s \<le> 8
    \<and> (\<forall>e \<in> set (pv_entries s). pe_process e \<noteq> None \<longleftrightarrow> pe_state e \<in> set turn_states)"
  using sup_run_ok [OF assms(2) new_supervisor_ok [OF assms(1)]] by (simp add: sup_ok_def entry_ok_def)

text \<open>
  A drain always succeeds. After it no session is left idle without something to wait for, every
  session that still has a process is reported as retained, every one reported as stopped has none, and
  no start is admitted any more.
\<close>

theorem drain_settles:
  assumes "new_supervisor cap it wi li de di = Inr s0" and "sup_run s0 s"
  shows "\<exists>stopped retained s'. drain w s = (Inr (stopped, retained), s')
    \<and> (\<forall>e \<in> set (pv_entries s'). \<not> (pe_state e = Idle \<and> pe_attention e = No_attention)
          \<and> (pe_process e \<noteq> None \<longrightarrow> pe_id e \<in> set retained))
    \<and> (\<forall>i spec sw. \<exists>er. start i spec sw s' = (Inl er, s'))"
proof -
  have ok: "sup_ok s" using sup_run_ok [OF assms(2) new_supervisor_ok [OF assms(1)]] .
  let ?d = "emitted [Host_draining] (s\<lparr>pv_draining := True\<rparr>)"
  have dok: "sup_ok ?d" using ok by simp
  have ids: "distinct (map pe_id (pv_entries ?d))" using ok by (simp add: sup_ok_def)
  have all: "set (map pe_id (pv_entries ?d)) \<subseteq> pe_id ` set (pv_entries ?d)" by simp
  obtain st re t where t: "drain_entries w (map pe_id (pv_entries ?d)) ?d = (Inr (st, re), t)" "sup_ok t" "pv_draining t = pv_draining ?d"
      "map pe_id (pv_entries t) = map pe_id (pv_entries ?d)"
    and each: "\<forall>j \<in> set (map pe_id (pv_entries ?d)). \<exists>e e'. entry_of ?d j = Some e \<and> entry_of t j = Some e'
          \<and> (if pe_state e = Idle \<and> pe_attention e = No_attention
             then j \<in> set st \<and> pe_state e' = Stopped \<and> pe_process e' = None
             else e' = e \<and> (pe_state e \<in> set ACTIVE \<longrightarrow> j \<in> set re))"
    using drain_entries_eq [OF dok ids all, of w] by (elim exE conjE) (rule that)
  have dr: "pv_draining t" using t(3) by simp
  have run: "drain w s = (Inr (st, re), t)" using t(1) by (simp add: drain_def sup_bind_def emit_eq)
  have "\<not> (pe_state e = Idle \<and> pe_attention e = No_attention) \<and> (pe_process e \<noteq> None \<longrightarrow> pe_id e \<in> set re)"
    if e: "e \<in> set (pv_entries t)" for e
  proof -
    have te: "entry_of t (pe_id e) = Some e" using entry_of_set [OF t(2) e] .
    have "pe_id e \<in> set (map pe_id (pv_entries t))" using e by simp
    then have "pe_id e \<in> set (map pe_id (pv_entries ?d))" unfolding t(4) .
    then obtain d where "if pe_state d = Idle \<and> pe_attention d = No_attention
             then pe_id e \<in> set st \<and> pe_state e = Stopped \<and> pe_process e = None
             else e = d \<and> (pe_state d \<in> set ACTIVE \<longrightarrow> pe_id e \<in> set re)" using bspec [OF each] te by fastforce
    moreover have "pe_state e \<in> set ACTIVE" if "pe_process e \<noteq> None"
      using that t(2) e by (auto simp: sup_ok_def entry_ok_def turn_states_def ACTIVE_def)
    ultimately show ?thesis by (auto split: if_splits)
  qed
  then show ?thesis using run start_draining [OF dr] by blast
qed

text \<open>A host with two sessions: one comes up, is used, crashes, and the other starts.\<close>

definition demo_spec :: spawn_spec where
  "demo_spec = \<lparr>ss_executable = ''pi'', ss_args = [], ss_cwd = ''/w''\<rparr>"

definition demo_world :: start_world where
  "demo_world = \<lparr>tw_start = Came_up, tw_now = 5, tw_stop = \<lparr>sw_exit = Exited, sw_kill = Group_killed, sw_diag = []\<rparr>\<rparr>"

definition demo_supervisor :: supervisor where
  "demo_supervisor = \<lparr>pv_entries = [], pv_capacity = 1, pv_draining = False, pv_idle_timeout = 1800000, pv_window = 300000,
     pv_limit = 1, pv_delay = 1000, pv_diag_limit = 32, pv_created = 0, pv_emitted = []\<rparr>"

definition demo_up :: supervisor where
  "demo_up = snd (start ''a'' demo_spec demo_world (register ''a'' Stopped 1 demo_supervisor))"

lemma demo_new: "new_supervisor (Some 1) None None (Some 1) None None = Inr demo_supervisor"
  by (simp add: new_supervisor_def demo_supervisor_def)

lemma demo_up_run: "sup_run demo_supervisor demo_up"
  unfolding demo_up_def
  by (rule sup_run.called [OF sup_run.called [OF sup_run.at_start sup_call.registered] sup_call.started])

lemma demo_up_entries: "map (\<lambda>e. (pe_id e, pe_state e, pe_process e)) (pv_entries demo_up) = [(''a'', Idle, Some 0)]"
  by code_simp

theorem capacity_kept_witness:
  "activeCount (snd (start ''b'' demo_spec demo_world (register ''b'' Stopped 6 demo_up))) \<le> 8"
proof -
  have "sup_run demo_supervisor (snd (start ''b'' demo_spec demo_world (register ''b'' Stopped 6 demo_up)))"
    by (rule sup_run.called [OF sup_run.called [OF demo_up_run sup_call.registered] sup_call.started])
  from capacity_kept [OF demo_new this] show ?thesis by (auto intro: order_trans)
qed

section \<open>Calls that overlap\<close>

text \<open>
  The capacity is kept only by calls that do not overlap. Here a start waits for the exit of the process it
  evicts; that process crashes meanwhile, another start takes the place it leaves, and the first one goes
  on without looking again: with a capacity of one, two processes are at work.
\<close>

definition overlapping_starts :: supervisor where
  "overlapping_starts =
     (let s0 = register ''c'' Stopped 6 (register ''b'' Stopped 6 demo_up);
          s1 = snd (start_begin ''b'' s0);
          s2 = snd (stop_begin ''a'' s1);
          s3 = snd (unexpectedExit ''a'' None None False [] 7 s2);
          s4 = snd (start ''c'' demo_spec demo_world s3);
          s5 = snd (stop_end ''a'' [] ''capacity'' s4);
          s6 = snd (start_spawn ''b'' demo_spec s5) in
      snd (start_settled ''b'' Came_up 8 s6))"

lemma overlapping_starts_exceed: "activeCount overlapping_starts = 2" "pv_capacity overlapping_starts = 1"
  by code_simp+

end
