(* ===== verification/Supervisor_Loops.thy ===== *)
theory Supervisor_Loops
  imports Process_Supervisor
begin

text \<open>
  Crash loops of the process supervisor (core/process-supervisor.ts): which calls leave a session in its crash
  loop, and what an exit at the restart limit means for every later call.
\<close>

section \<open>A crash loop lasts\<close>


definition looped :: "string \<Rightarrow> supervisor \<Rightarrow> bool" where
  "looped i s \<longleftrightarrow> i \<in> set (map pe_id (pv_entries s))
     \<and> (\<forall>e \<in> set (pv_entries s). pe_id e = i \<longrightarrow> pe_state e = Crash_loop \<and> pe_process e = None)"

lemma looped_entry: "looped i s \<Longrightarrow> \<exists>e. entry_of s i = Some e \<and> pe_state e = Crash_loop \<and> pe_process e = None"
  by (cases "entry_of s i") (auto simp: looped_def entry_of_None dest: entry_of_SomeD)

definition spares :: "string \<Rightarrow> 'a sup \<Rightarrow> bool" where
  "spares i f \<longleftrightarrow> (\<forall>s. looped i s \<longrightarrow> looped i (snd (f s)))"

named_theorems spares_intros \<open>calls that leave a crash loop alone\<close>

lemma sparesI: "(\<And>s. looped i s \<Longrightarrow> looped i (snd (f s))) \<Longrightarrow> spares i f"
  by (simp add: spares_def)

lemma sparesD: "spares i f \<Longrightarrow> looped i s \<Longrightarrow> looped i (snd (f s))"
  by (simp add: spares_def)

lemma spares_bind [spares_intros]: "spares i f \<Longrightarrow> (\<And>x. spares i (g x)) \<Longrightarrow> spares i (sup_bind f g)"
  by (fastforce simp: spares_def sup_bind_def split: prod.split sum.split)

lemma spares_simple [spares_intros]:
  "spares i (sup_return x)" "spares i (sup_throw c m)" "spares i (emit ev)" "spares i (require j)"
  by (simp_all add: spares_def looped_def sup_return_eq emit_eq require_def split: option.split)

lemma spares_if [spares_intros]: "(b \<Longrightarrow> spares i f) \<Longrightarrow> (\<not> b \<Longrightarrow> spares i g) \<Longrightarrow> spares i (if b then f else g)"
  by simp

lemma spares_case_option [spares_intros]:
  "spares i f \<Longrightarrow> (\<And>x. spares i (g x)) \<Longrightarrow> spares i (case v of None \<Rightarrow> f | Some x \<Rightarrow> g x)"
  by (cases v) simp_all

lemma looped_on_entry:
  assumes "looped i s" and "keeps_id f"
    and "j \<noteq> i \<or> (\<forall>e. pe_state (f e) = pe_state e \<and> (pe_process e = None \<longrightarrow> pe_process (f e) = None))"
  shows "looped i (on_entry j f s)"
proof -
  have ids: "map pe_id (pv_entries (on_entry j f s)) = map pe_id (pv_entries s)"
    using assms(2) by (simp add: keeps_id_def)
  have "pe_state e = Crash_loop \<and> pe_process e = None" if e: "e \<in> set (pv_entries (on_entry j f s))" "pe_id e = i" for e
  proof -
    from e(1) obtain x where x: "x \<in> set (pv_entries s)" "e = (if pe_id x = j then f x else x)" by auto
    then have "pe_id x = i" using e(2) assms(2) by (simp add: keeps_id_def split: if_splits)
    then show ?thesis using x assms(1,3) by (simp add: looped_def split: if_splits)
  qed
  then show ?thesis using assms(1) unfolding looped_def ids by blast
qed

lemma spares_update:
  assumes "keeps_id f" and "j \<noteq> i \<or> (\<forall>e. pe_state (f e) = pe_state e \<and> (pe_process e = None \<longrightarrow> pe_process (f e) = None))"
  shows "spares i (update_entry j f)"
  using looped_on_entry [OF _ assms] by (intro sparesI) (simp add: update_entry_eq)

lemma spares_plain [spares_intros]:
  "spares i (captureDiagnostics j vs)" "spares i (update_entry j (\<lambda>e. e\<lparr>pe_restarts := rs\<rparr>))"
  "spares i (update_entry j (\<lambda>e. e\<lparr>pe_retry := at\<rparr>))" "spares i (update_entry j (\<lambda>e. e\<lparr>pe_last := now\<rparr>))"
  "spares i (update_entry j (\<lambda>e. e\<lparr>pe_attention := a\<rparr>))" "spares i (update_entry j (\<lambda>e. e\<lparr>pe_process := None\<rparr>))"
  "spares i (update_entry j (\<lambda>e. e\<lparr>pe_spec := sp\<rparr>))" "spares i (update_entry j (\<lambda>e. e\<lparr>pe_attention := a, pe_last := now\<rparr>))"
  "spares i (update_entry j (\<lambda>e. e\<lparr>pe_forced := b\<rparr>))"
  by (rule sparesI, simp only: captureDiagnostics_eq snd_conv, rule looped_on_entry, assumption, simp, simp)
    (rule spares_update; simp add: keeps_id_def)+

lemma spares_move [spares_intros]: "j \<noteq> i \<Longrightarrow> spares i (move j st)"
  unfolding move_def by (intro spares_intros spares_update) (simp_all add: keeps_id_def)

lemma spares_stop [spares_intros]: "j \<noteq> i \<Longrightarrow> spares i (stop j r w)"
  unfolding stop_def stop_begin_def stop_waited_def stop_killed_def stop_end_def
  by (cases "sw_exit w"; cases "sw_kill w")
    (simp_all, (intro spares_intros spares_update; simp add: keeps_id_def)+)

lemma looped_requires: "looped i s \<Longrightarrow> \<exists>e. require i s = (Inr e, s) \<and> pe_state e = Crash_loop \<and> pe_process e = None"
  using looped_entry [of i s] by (auto simp: require_def)

lemma looped_start: "looped i s \<Longrightarrow> \<exists>er. start i spec w s = (Inl er, s)"
  using looped_requires [of i s] by (auto simp: start_def start_begin_def sup_bind_def sup_return_eq)

lemma spares_settled [spares_intros]: "j \<noteq> i \<Longrightarrow> spares i (start_settled j r now)"
proof -
  assume j: "j \<noteq> i"
  have up: "spares i (sup_bind (update_entry j (\<lambda>e. e\<lparr>pe_last := now\<rparr>)) (\<lambda>_. move j Idle))"
    using j by (intro spares_intros)
  have down: "spares i (sup_bind (captureDiagnostics j [error_text er]) (\<lambda>_.
      sup_bind (update_entry j (\<lambda>e. e\<lparr>pe_process := None\<rparr>)) (\<lambda>_. sup_bind (move j Crashed) (\<lambda>_ u. (Inl er, u)))))" for er
    using j by (intro spares_intros) (simp_all add: spares_def)
  show ?thesis
  proof (rule sparesI)
    fix s assume l: "looped i s"
    show "looped i (snd (start_settled j r now s))"
    proof (cases r)
      case Came_up
      obtain x t where x: "sup_bind (update_entry j (\<lambda>e. e\<lparr>pe_last := now\<rparr>)) (\<lambda>_. move j Idle) s = (x, t)" by fastforce
      then have t: "looped i t" using sparesD [OF up l] by simp
      show ?thesis
      proof (cases x)
        case (Inl er)
        then show ?thesis using sparesD [OF down t, of er] by (simp add: start_settled_def Came_up x)
      qed (use t in \<open>simp add: start_settled_def Came_up x\<close>)
    next
      case (Start_failed m)
      then show ?thesis using sparesD [OF down l, of "Process_error m"] by (simp add: start_settled_def)
    qed
  qed
qed

lemma spares_start [spares_intros]: "spares i (start j spec w)"
proof (rule sparesI)
  fix s assume l: "looped i s"
  have go: "spares i (sup_bind (start_spawn j spec) (\<lambda>_. start_settled j (tw_start w) (tw_now w)))" if "j \<noteq> i"
  proof (rule spares_bind)
    have "spares i (sup_bind (update_entry j (\<lambda>e. e\<lparr>pe_spec := Some spec, pe_process := Some p\<rparr>)) (\<lambda>_.
        sup_bind (\<lambda>t. (Inr (), t\<lparr>pv_created := pv_created t + 1\<rparr>)) (\<lambda>_. move j Starting)))" for p
      using that by (intro spares_bind spares_update spares_move) (simp_all add: keeps_id_def looped_def spares_def)
    then show "spares i (start_spawn j spec)" by (simp add: start_spawn_def spares_def)
  qed (rule spares_settled [OF that])
  show "looped i (snd (start j spec w s))"
  proof (cases "j = i")
    case True
    then show ?thesis using looped_start [OF l, of spec w] l by auto
  next
    case ne: False
    show ?thesis
    proof (cases rule: start_begin_cases [of j s])
      case (refused er evs)
      then show ?thesis using l by (simp add: start_def sup_bind_def looped_def)
    next
      case (free e)
      then show ?thesis using sparesD [OF go [OF ne] l] by (simp add: start_def sup_bind_def [of "start_begin j"] sup_bind_def [of "sup_return ()"] sup_return_eq)
    next
      case (evict e v)
      have "pe_id v \<noteq> i" using evict(5,6) l by (auto simp: looped_def)
      then have "spares i (sup_bind (stop (pe_id v) ''capacity'' (tw_stop w)) (\<lambda>_. sup_bind (start_spawn j spec) (\<lambda>_. start_settled j (tw_start w) (tw_now w))))"
        using go [OF ne] by (intro spares_bind [OF spares_stop])
      then show ?thesis using sparesD [OF _ l] by (simp add: start_def sup_bind_def [of "start_begin j"] evict(1))
    qed
  qed
qed




lemma looped_tick_visit: "looped i s \<Longrightarrow> tick_visit now w i s = (Inr (), s)"
  using looped_requires [of i s] by (auto simp: tick_visit_def sup_bind_def sup_return_eq split: option.split)

lemma spares_tick_visit [spares_intros]: "spares i (tick_visit now w j)"
proof (cases "j = i")
  case True
  show ?thesis by (rule sparesI) (simp add: True looped_tick_visit)
next
  case False
  have go: "spares i (sup_bind (update_entry j (\<lambda>e. e\<lparr>pe_retry := None\<rparr>)) (\<lambda>_ t. (Inr (), snd (start j spec w t))))" for spec
    by (intro spares_bind spares_intros sparesI) (auto dest: sparesD [OF spares_start])
  show ?thesis unfolding tick_visit_def
  proof (rule sparesI, rule sparesD [rotated], assumption, intro spares_bind spares_simple, rule sparesI, goal_cases)
    case (1 s e t)
    show ?case
      by (rule sparesD [OF _ 1(2)]) (auto split: option.split intro!: go spares_intros False)
  qed
qed






text \<open>The exception: stopping a session in a crash loop makes it stopped, from where a start needs no retry.\<close>

lemma stop_ends_loop:
  "entry_of s i = Some e \<Longrightarrow> pe_state e = Crash_loop \<Longrightarrow> pe_process e = None \<Longrightarrow>
   stop i r w s = (Inr (), on_entry i (\<lambda>e. e\<lparr>pe_state := Stopped\<rparr>) s)"
  by (rule stop_eq(2)) simp_all

section \<open>Properties\<close>



end
