(* ===== verification/Store_Devices.thy ===== *)
theory Store_Devices
  imports Store_Base
begin

text \<open>
  The smaller registries of packages/bridge/src/core/store.ts: the devices that receive notifications, the
  record of the source events already notified, the trust given to workspaces and the host's policy.
\<close>

section \<open>Devices\<close>

text \<open>A row as the code returns it: a rejection is shown only when reason and time are both there.\<close>

definition device_view :: "device_row \<Rightarrow> device_row" where
  "device_view d =
     (if (case dv_rejected_reason d of None \<Rightarrow> False | Some r \<Rightarrow> r \<noteq> []) \<and> dv_rejected_at d \<noteq> None then d
      else d\<lparr>dv_rejected_reason := None, dv_rejected_at := None\<rparr>)"

definition findDeviceInstallById :: "store \<Rightarrow> string \<Rightarrow> device_row option" where
  "findDeviceInstallById s i = map_option device_view (find (\<lambda>d. dv_id d = i) (devices s))"

definition listActiveDeviceInstalls :: "store \<Rightarrow> device_row list" where
  "listActiveDeviceInstalls s =
     map device_view (order_by (\<lambda>a b. dv_created a < dv_created b) (filter (\<lambda>d. dv_rejected_reason d = None) (devices s)))"

record device_input =
  di_device :: "string option"
  di_install :: string
  di_platform :: platform
  di_token :: string
  di_version :: string

definition update_devices :: "(device_row \<Rightarrow> bool) \<Rightarrow> (device_row \<Rightarrow> device_row) \<Rightarrow> store \<Rightarrow> store" where
  "update_devices P f s = s\<lparr>devices := map (\<lambda>d. if P d then f d else d) (devices s)\<rparr>"

definition registerDeviceInstall_tx :: "device_input \<Rightarrow> (device_row \<times> bool) tx" where
  "registerDeviceInstall_tx x s =
     (let mine = (\<lambda>d. dv_install d = di_install x \<and> dv_platform d = di_platform x) in
      case find mine (devices s) of
        Some d \<Rightarrow>
          (let replaced = (dv_token d \<noteq> di_token x \<or> dv_version d \<noteq> di_version x);
               s' = update_devices mine (\<lambda>e. e\<lparr>dv_id := dv_id d, dv_token := di_token x, dv_version := di_version x,
                      dv_revision := (if replaced then dv_revision d + 1 else dv_revision d), dv_seen := clock s,
                      dv_rejected_reason := None, dv_rejected_at := None\<rparr>) s in
           case findDeviceInstallById s' (dv_id d) of
             Some u \<Rightarrow> Inr ((u, replaced), s')
           | None \<Rightarrow> Inl (Type_error ''null is not an object''))
      | None \<Rightarrow>
          tx_bind (case di_device x of Some i \<Rightarrow> tx_return i | None \<Rightarrow> (\<lambda>t. Inr (uuids t (uuid_pos t), t\<lparr>uuid_pos := Suc (uuid_pos t)\<rparr>)))
            (\<lambda>i t. if \<exists>d \<in> set (devices t). dv_id d = i
                   then Inl (Sqlite_error ''UNIQUE constraint failed: notification_devices.device_id'')
                   else
                     (let t' = t\<lparr>devices := devices t @ [\<lparr>dv_id = i, dv_install = di_install x, dv_platform = di_platform x,
                              dv_token = di_token x, dv_version = di_version x, dv_revision = 1, dv_seen = clock t,
                              dv_created = clock t, dv_rejected_reason = None, dv_rejected_at = None\<rparr>]\<rparr> in
                      case findDeviceInstallById t' i of
                        Some u \<Rightarrow> Inr ((u, False), t')
                      | None \<Rightarrow> Inl (Type_error ''null is not an object''))) s)"

definition registerDeviceInstall :: "device_input \<Rightarrow> store \<Rightarrow> (exn + device_row \<times> bool) \<times> store" where
  "registerDeviceInstall x = transaction (registerDeviceInstall_tx x)"

definition replaceDeviceToken :: "string \<Rightarrow> string \<Rightarrow> string \<Rightarrow> store \<Rightarrow> (exn + device_row option) \<times> store" where
  "replaceDeviceToken i token version =
     transaction (\<lambda>s. case findDeviceInstallById s i of
         None \<Rightarrow> Inr (None, s)
       | Some d \<Rightarrow>
           (let s' = update_devices (\<lambda>e. dv_id e = i) (\<lambda>e. e\<lparr>dv_token := token, dv_version := version,
                  dv_revision := (if dv_token d = token \<and> dv_version d = version then dv_revision d else dv_revision d + 1),
                  dv_seen := clock s, dv_rejected_reason := None, dv_rejected_at := None\<rparr>) s in
            Inr (findDeviceInstallById s' i, s')))"

definition unregisterDeviceInstall :: "string \<Rightarrow> store \<Rightarrow> (exn + bool) \<times> store" where
  "unregisterDeviceInstall i =
     transaction (\<lambda>s. Inr (\<exists>d \<in> set (devices s). dv_id d = i, s\<lparr>devices := filter (\<lambda>d. dv_id d \<noteq> i) (devices s)\<rparr>))"

definition unregisterInstallation :: "string \<Rightarrow> store \<Rightarrow> (exn + nat) \<times> store" where
  "unregisterInstallation inst =
     transaction (\<lambda>s. Inr (length (filter (\<lambda>d. dv_install d = inst) (devices s)),
                          s\<lparr>devices := filter (\<lambda>d. dv_install d \<noteq> inst) (devices s)\<rparr>))"

definition markDeviceRejected :: "string \<Rightarrow> string \<Rightarrow> store \<Rightarrow> (exn + device_row option) \<times> store" where
  "markDeviceRejected i reason =
     transaction (\<lambda>s. case findDeviceInstallById s i of
         None \<Rightarrow> Inr (None, s)
       | Some _ \<Rightarrow>
           (let s' = update_devices (\<lambda>e. dv_id e = i)
                  (\<lambda>e. e\<lparr>dv_rejected_reason := Some (take 200 reason), dv_rejected_at := Some (clock s)\<rparr>) s in
            Inr (findDeviceInstallById s' i, s')))"

definition touchDeviceInstall :: "string \<Rightarrow> store \<Rightarrow> (exn + unit) \<times> store" where
  "touchDeviceInstall i = transaction (\<lambda>s. Inr ((), update_devices (\<lambda>e. dv_id e = i) (\<lambda>e. e\<lparr>dv_seen := clock s\<rparr>) s))"

section \<open>Notified source events\<close>

definition recordNotificationDedup :: "string \<Rightarrow> string \<Rightarrow> string \<Rightarrow> store \<Rightarrow> (exn + unit) \<times> store" where
  "recordNotificationDedup source kind sess =
     transaction (\<lambda>s. Inr ((), if \<exists>d \<in> set (dedup s). dd_source d = source then s
         else s\<lparr>dedup := dedup s @ [\<lparr>dd_source = source, dd_kind = kind, dd_session = sess, dd_created = clock s\<rparr>]\<rparr>))"

definition hasNotificationDedup :: "store \<Rightarrow> string \<Rightarrow> bool" where
  "hasNotificationDedup s source \<longleftrightarrow> (\<exists>d \<in> set (dedup s). dd_source d = source)"

definition sweepNotificationDedup :: "int \<Rightarrow> int option \<Rightarrow> store \<Rightarrow> (exn + nat) \<times> store" where
  "sweepNotificationDedup retention now =
     transaction (\<lambda>s.
       let cut = (case now of Some t \<Rightarrow> t | None \<Rightarrow> clock s) - retention in
       Inr (length (filter (\<lambda>d. dd_created d < cut) (dedup s)), s\<lparr>dedup := filter (\<lambda>d. \<not> dd_created d < cut) (dedup s)\<rparr>))"

section \<open>Trust and policy\<close>

definition loadWorkspaceTrust :: "store \<Rightarrow> string \<Rightarrow> trust_row option" where
  "loadWorkspaceTrust s i = find (\<lambda>t. tr_id t = i) (trust s)"

text \<open>The time a record was seeded stays that of its first save.\<close>

definition saveWorkspaceTrust :: "trust_row \<Rightarrow> store \<Rightarrow> (exn + unit) \<times> store" where
  "saveWorkspaceTrust r =
     transaction (\<lambda>s. Inr ((), if \<exists>t \<in> set (trust s). tr_id t = tr_id r
         then s\<lparr>trust := map (\<lambda>t. if tr_id t = tr_id r then r\<lparr>tr_seeded := tr_seeded t\<rparr> else t) (trust s)\<rparr>
         else s\<lparr>trust := trust s @ [r]\<rparr>))"

definition listWorkspaceTrust :: "store \<Rightarrow> trust_row list" where
  "listWorkspaceTrust s = order_by (\<lambda>a b. str_less (tr_id a) (tr_id b)) (trust s)"

definition clearWorkspaceTrust :: "string \<Rightarrow> store \<Rightarrow> (exn + unit) \<times> store" where
  "clearWorkspaceTrust i = transaction (\<lambda>s. Inr ((), s\<lparr>trust := filter (\<lambda>t. tr_id t \<noteq> i) (trust s)\<rparr>))"

definition loadHostPolicyState :: "store \<Rightarrow> policy_row option" where
  "loadHostPolicyState s = policy s"

definition saveHostPolicyState :: "policy_row \<Rightarrow> store \<Rightarrow> (exn + unit) \<times> store" where
  "saveHostPolicyState p = transaction (\<lambda>s. Inr ((), s\<lparr>policy := Some p\<rparr>))"

section \<open>Health\<close>

text \<open>The probe of the database is the answer of its query; a failing probe is mapped like any error.\<close>

definition health :: "exn + int option \<Rightarrow> store \<Rightarrow> (bool \<times> string option) \<times> store" where
  "health probe s =
     (if \<not> writable s \<or> maintenance s
      then ((False, Some (if maintenance s then ''maintenance''
              else case last_failure s of Some c \<Rightarrow> code_text c | None \<Rightarrow> ''not_writable'')), s)
      else case probe of
        Inr ok \<Rightarrow> (if ok = Some 1 then (True, None) else (False, Some ''unavailable''), s)
      | Inl e \<Rightarrow> ((False, Some ''unavailable''), snd (mapError e s)))"

section \<open>One device for an installation and platform\<close>

definition devices_ok :: "store \<Rightarrow> bool" where
  "devices_ok s \<longleftrightarrow> distinct (map dv_id (devices s)) \<and> distinct (map (\<lambda>d. (dv_install d, dv_platform d)) (devices s))"

lemma devices_ok_db:
  assumes "db_of t = db_of s"
  shows "devices_ok t = devices_ok s"
proof -
  have "devices t = devices s" using arg_cong [OF assms, of devices] by simp
  then show ?thesis by (simp add: devices_ok_def)
qed

lemma devices_ok_transaction:
  assumes "devices_ok s" and "\<And>a s'. m s = Inr (a, s') \<Longrightarrow> devices_ok s'"
  shows "devices_ok (snd (transaction m s))"
  by (rule transaction_preserves [OF assms(2)]) (simp_all add: devices_ok_db assms(1))

lemma devices_ok_update:
  assumes "devices_ok s"
    and same: "\<And>d. d \<in> set (devices s) \<Longrightarrow> P d \<Longrightarrow> dv_id (f d) = dv_id d \<and> dv_install (f d) = dv_install d \<and> dv_platform (f d) = dv_platform d"
  shows "devices_ok (update_devices P f s)"
proof -
  let ?g = "\<lambda>d. if P d then f d else d"
  have g: "dv_id (?g d) = dv_id d" "dv_install (?g d) = dv_install d" "dv_platform (?g d) = dv_platform d"
    if "d \<in> set (devices s)" for d
    using same [OF that] by (cases "P d"; simp)+
  have "map dv_id (map ?g (devices s)) = map dv_id (devices s)"
    unfolding map_map by (rule map_cong [OF refl]) (simp only: comp_def g)
  moreover have "map (\<lambda>d. (dv_install d, dv_platform d)) (map ?g (devices s)) = map (\<lambda>d. (dv_install d, dv_platform d)) (devices s)"
    unfolding map_map by (rule map_cong [OF refl]) (simp only: comp_def g)
  moreover have "devices (update_devices P f s) = map ?g (devices s)" by (simp add: update_devices_def)
  ultimately show ?thesis using assms(1) by (simp only: devices_ok_def)
qed

lemma distinct_map_same: "distinct (map f xs) \<Longrightarrow> x \<in> set xs \<Longrightarrow> y \<in> set xs \<Longrightarrow> f x = f y \<Longrightarrow> x = y"
  by (simp add: distinct_map inj_on_def)

lemma registerDeviceInstall_ok: "devices_ok s \<Longrightarrow> devices_ok (snd (registerDeviceInstall x s))"
  unfolding registerDeviceInstall_def
proof (rule devices_ok_transaction)
  fix a s'
  assume ok: "devices_ok s" and r: "registerDeviceInstall_tx x s = Inr (a, s')"
  let ?mine = "\<lambda>d. dv_install d = di_install x \<and> dv_platform d = di_platform x"
  show "devices_ok s'"
  proof (cases "find ?mine (devices s)")
    case (Some d)
    have d: "d \<in> set (devices s)" "?mine d" using Some by (auto simp: find_Some_iff)
    have "e = d" if "e \<in> set (devices s)" "?mine e" for e
      using distinct_map_same [of "\<lambda>d. (dv_install d, dv_platform d)" "devices s" e d] ok d that by (simp add: devices_ok_def)
    then show ?thesis using r ok
      by (auto simp: registerDeviceInstall_tx_def Some Let_def split: option.splits intro!: devices_ok_update)
  next
    case None
    then have "\<forall>d \<in> set (devices s). \<not> ?mine d" by (auto simp: find_None_iff)
    then have new: "(di_install x, di_platform x) \<notin> (\<lambda>d. (dv_install d, dv_platform d)) ` set (devices s)" by auto
    show ?thesis using r ok new
      by (auto simp: registerDeviceInstall_tx_def None Let_def tx_bind_Inr_iff devices_ok_def split: option.splits if_splits) (blast+)
  qed
qed

end
