(* ===== verification/Notifications.thy ===== *)
theory Notifications
  imports Store_Devices Schema
begin

text \<open>
  Notifications to mobile devices (packages/bridge/src/notifications): the policy that turns an event into
  a status (policy.ts), the allowlist of what may leave the host (payload.ts), coalescing and rate limits
  (coalesce.ts), and the service that puts them together over the store's registries (service.ts).

  The clock, fresh identifiers and the two answers of the event source - the name of the host and
  whether notifications are suppressed - are arguments of a call. A message handed to a transport is returned
  by the call that sends it; how its sending ends is an argument of a later step. The lengths are exact for ASCII
  texts: outside ASCII a text is its bytes in UTF-8, where the code counts UTF-16 units.
\<close>

section \<open>Policy\<close>

datatype notification_kind = Settled_kind | Failed_kind | Indeterminate_kind | Needs_attention_kind | Crash_loop_kind

fun kind_text :: "notification_kind \<Rightarrow> string" where
  "kind_text Settled_kind = ''settled''"
| "kind_text Failed_kind = ''failed''"
| "kind_text Indeterminate_kind = ''indeterminate''"
| "kind_text Needs_attention_kind = ''needs_attention''"
| "kind_text Crash_loop_kind = ''crash_loop''"

record raw_status_event =
  rw_type :: string
  rw_session :: string
  rw_error :: "string option"
  rw_attention :: "string option"
  rw_runtime :: "string option"

definition classifyEvent :: "raw_status_event \<Rightarrow> notification_kind option" where
  "classifyEvent e =
     (if rw_type e = ''turn.settled'' then Some Settled_kind
      else if rw_type e = ''turn.failed'' then (if rw_error e = Some ''provider_interrupted'' then None else Some Failed_kind)
      else if rw_type e = ''turn.aborted'' then None
      else if rw_type e = ''turn.indeterminate'' then Some Indeterminate_kind
      else if rw_type e = ''turn.waiting_for_input'' then Some Needs_attention_kind
      else if rw_type e = ''session.state'' then
        (if rw_attention e = Some ''needs_attention'' then Some Needs_attention_kind
         else if rw_runtime e = Some ''crash_loop'' then Some Crash_loop_kind else None)
      else if rw_type e = ''host.state'' \<and> rw_runtime e = Some ''crash_loop'' then Some Crash_loop_kind
      else None)"

text \<open>\<open>encodeURIComponent\<close>, on bytes.\<close>

definition unreserved :: "char \<Rightarrow> bool" where
  "unreserved c \<longleftrightarrow> in_class ''09azAZ'' c \<or> c \<in> set ''-_.!~*'' \<or> c = CHR 0x27 \<or> c = CHR ''('' \<or> c = CHR '')''"

definition encodeURIComponent :: "string \<Rightarrow> string" where
  "encodeURIComponent s =
     concat (map (\<lambda>c. if unreserved c then [c]
        else [CHR ''%'', upper_char (hex_digit (of_char c div 16)), upper_char (hex_digit (of_char c mod 16))]) s)"

definition buildDeepLink :: "notification_kind \<Rightarrow> string \<Rightarrow> string" where
  "buildDeepLink k sess = ''pi-mob://session/'' @ encodeURIComponent sess @ ''?kind='' @ encodeURIComponent (kind_text k)"

definition buildNotificationId :: "notification_kind \<Rightarrow> string \<Rightarrow> string option \<Rightarrow> int option \<Rightarrow> string" where
  "buildNotificationId k sess source at =
     ''notif:'' @ kind_text k @ '':'' @ sess @ '':''
       @ (case source of Some e \<Rightarrow> e | None \<Rightarrow> int_text (case at of Some t \<Rightarrow> t | None \<Rightarrow> 0))"

datatype emit_reason = First_emit | Repeat_emit | Suppressed_emit

definition shouldEmitAfterCoalesce :: "notification_kind \<Rightarrow> notification_kind option \<Rightarrow> nat \<Rightarrow> int \<Rightarrow> int \<Rightarrow> int \<Rightarrow> nat
    \<Rightarrow> bool \<times> emit_reason" where
  "shouldEmitAfterCoalesce k lastKind count now firstAt minInterval sessionCeiling =
     (if count = 0 then (True, First_emit)
      else if count \<ge> sessionCeiling then (False, Suppressed_emit)
      else if k = Crash_loop_kind \<and> lastKind = Some Crash_loop_kind then
        (if now - firstAt < minInterval * 5 then (False, Suppressed_emit) else (True, Repeat_emit))
      else if k = Needs_attention_kind \<and> lastKind = Some Needs_attention_kind \<and> now - firstAt < minInterval
      then (False, Suppressed_emit)
      else (True, Repeat_emit))"

section \<open>What may leave the host\<close>

definition MAX_NOTIFICATION_STRING :: nat where "MAX_NOTIFICATION_STRING = 140"
definition MAX_DATA_BYTES :: nat where "MAX_DATA_BYTES = 2 * 1024"
definition MAX_DATA_KEYS :: nat where "MAX_DATA_KEYS = 8"

definition ALLOWED_DATA_KEYS :: "string list" where
  "ALLOWED_DATA_KEYS = [''sessionId'', ''notificationId'', ''deepLink'', ''kind'', ''hostDisplayName'']"

definition FORBIDDEN_KEY_PATTERNS :: "string list" where
  "FORBIDDEN_KEY_PATTERNS =
     [''transcript'', ''message'', ''content'', ''path'', ''file'', ''tool'', ''secret'', ''credential'', ''token'',
      ''output'', ''prompt'', ''body'', ''payload'', ''preview'', ''snippet'']"

text \<open>
  \<open>SAFE_STRING\<close> is one class of characters in which three sets are united: what is not a control
  character, what is not unassigned, and pictographs. A control character is assigned, so every character
  is in it. The general categories are given for the characters of this development: U+0000 to U+001F and
  U+007F to U+009F are control characters, none is unassigned, two are pictographs.
\<close>

definition category_Cc :: "char \<Rightarrow> bool" where
  "category_Cc c \<longleftrightarrow> (let n = (of_char c :: nat) in n < 32 \<or> 127 \<le> n \<and> n < 160)"

definition category_Cn :: "char \<Rightarrow> bool" where
  "category_Cn c \<longleftrightarrow> False"

definition Extended_Pictographic :: "char \<Rightarrow> bool" where
  "Extended_Pictographic c \<longleftrightarrow> of_char c = (169 :: nat) \<or> of_char c = (174 :: nat)"

definition SAFE_STRING :: "string \<Rightarrow> bool" where
  "SAFE_STRING s \<longleftrightarrow> list_all (\<lambda>c. \<not> category_Cc c \<or> \<not> category_Cn c \<or> Extended_Pictographic c) s"

text \<open>The test for a URL, path or address anywhere in a text, without regard to case.\<close>

definition rx_search :: "rx \<Rightarrow> string \<Rightarrow> bool" where
  "rx_search r s \<longleftrightarrow> (\<exists>i \<in> set [0..<Suc (length s)]. rx_run r (rev (take i s), drop i s) \<noteq> [])"

definition word_end :: "string \<Rightarrow> rx" where
  "word_end t = Then (Lit t) (NotAhead (In ''09azAZ__''))"

definition ADDRESS_PATTERN :: rx where
  "ADDRESS_PATTERN =
     Alt (Lit ''//'') (Alt (Lit ''/'') (Alt (Lit ''@'') (Alt (word_end ''.git'') (Alt (word_end ''.com'')
       (Alt (word_end ''.io'') (Alt (word_end ''.net'') (Then (Alt AtStart (NotIn ''09azAZ__'')) (Lit ''file:''))))))))"

definition sanitizeNotificationString :: "json option \<Rightarrow> string option" where
  "sanitizeNotificationString v =
     (case v of
        Some (JStr s) \<Rightarrow>
          if s = [] \<or> length s > MAX_NOTIFICATION_STRING \<or> \<not> SAFE_STRING s \<or> rx_search ADDRESS_PATTERN (map lower_char s)
          then None else Some s
      | _ \<Rightarrow> None)"

datatype payload_code = Too_long | Forbidden_key | Invalid_string | Too_many_keys | Oversize

datatype payload_error = NotificationPayloadError payload_code string

definition DEEP_LINK_PATTERN :: rx where
  "DEEP_LINK_PATTERN =
     sequence [Lit ''pi-mob://session/'', times 36 (In ''09af--''), Lit ''?kind='',
       Alt (Lit ''settled'') (Alt (Lit ''failed'') (Alt (Lit ''indeterminate'') (Alt (Lit ''needs_attention'') (Lit ''crash_loop'')))),
       AtEnd]"

definition quoted :: "string \<Rightarrow> string" where
  "quoted s = CHR 0x27 # s @ [CHR 0x27]"

text \<open>The value of a key that is allowed.\<close>

definition data_value :: "string \<Rightarrow> json \<Rightarrow> string option" where
  "data_value key raw =
     (case raw of
        JStr s \<Rightarrow> if key = ''deepLink'' \<and> rx_test DEEP_LINK_PATTERN s then Some s else sanitizeNotificationString (Some raw)
      | _ \<Rightarrow> sanitizeNotificationString (Some raw))"

fun sanitize_entries :: "obj \<Rightarrow> nat \<Rightarrow> (string \<times> string) list \<Rightarrow> payload_error + (string \<times> string) list" where
  "sanitize_entries [] bytes out = Inr out"
| "sanitize_entries ((key, raw) # rest) bytes out =
     (if key \<notin> set ALLOWED_DATA_KEYS
      then Inl (NotificationPayloadError Forbidden_key
        (if list_ex (\<lambda>p. str_includes p (map lower_char key)) FORBIDDEN_KEY_PATTERNS
         then ''data key '' @ quoted key @ '' is not allowed'' else ''data key '' @ quoted key @ '' is not in the allowlist''))
      else
        (case data_value key raw of
           None \<Rightarrow> Inl (NotificationPayloadError Invalid_string (''data value for '' @ quoted key @ '' is not a safe notification string''))
         | Some v \<Rightarrow>
             (let bytes = bytes + length key + length v + 6 in
              if bytes > MAX_DATA_BYTES
              then Inl (NotificationPayloadError Oversize ''data block exceeds 2048 bytes'')
              else sanitize_entries rest bytes (out @ [(key, v)]))))"

definition sanitizeData :: "obj \<Rightarrow> payload_error + (string \<times> string) list" where
  "sanitizeData input =
     (if length input > MAX_DATA_KEYS
      then Inl (NotificationPayloadError Too_many_keys (''data has '' @ dec (length input) @ '' keys, max '' @ dec MAX_DATA_KEYS))
      else sanitize_entries input 2 [])"

fun DEFAULT_COPY :: "notification_kind \<Rightarrow> string \<times> string" where
  "DEFAULT_COPY Settled_kind = (''Pi'', ''Turn finished'')"
| "DEFAULT_COPY Failed_kind = (''Pi'', ''Turn failed'')"
| "DEFAULT_COPY Indeterminate_kind =
     (''Pi'', ''Status uncertain '' @ [CHR 0xE2, CHR 0x80, CHR 0x94] @ '' check Pi'')"
| "DEFAULT_COPY Needs_attention_kind = (''Pi'', ''Pi needs your attention'')"
| "DEFAULT_COPY Crash_loop_kind = (''Pi'', ''Pi is in a crash loop'')"

definition buildNotificationCopy :: "notification_kind \<Rightarrow> json option \<Rightarrow> json option \<Rightarrow> string option \<Rightarrow> string \<times> string" where
  "buildNotificationCopy k title body host =
     ((case sanitizeNotificationString title of
         Some t \<Rightarrow> t
       | None \<Rightarrow> (case sanitizeNotificationString (map_option JStr host) of
           Some h \<Rightarrow> h @ [CHR '' '', CHR 0xC2, CHR 0xB7] @ '' Pi''
         | None \<Rightarrow> fst (DEFAULT_COPY k))),
      (case sanitizeNotificationString body of Some b \<Rightarrow> b | None \<Rightarrow> snd (DEFAULT_COPY k)))"

text \<open>A status with its optional title, body and data.\<close>

definition assertStatusPayloadAllowed :: "string option \<Rightarrow> string option \<Rightarrow> obj option \<Rightarrow> payload_error + unit" where
  "assertStatusPayloadAllowed title body dat =
     (if title \<noteq> None \<and> sanitizeNotificationString (map_option JStr title) = None
      then Inl (NotificationPayloadError Invalid_string ''status.title failed sanitization'')
      else if body \<noteq> None \<and> sanitizeNotificationString (map_option JStr body) = None
      then Inl (NotificationPayloadError Invalid_string ''status.body failed sanitization'')
      else case dat of None \<Rightarrow> Inr () | Some d \<Rightarrow> (case sanitizeData d of Inl e \<Rightarrow> Inl e | Inr _ \<Rightarrow> Inr ()))"

section \<open>Coalescing\<close>

record coalesce_state =
  cs_key :: string
  cs_kind :: "string option"
  cs_notification :: "string option"
  cs_count :: nat
  cs_first :: int
  cs_last :: int

record coalesce_limits =
  cl_interval :: int
  cl_minute :: nat
  cl_session :: nat

definition DEFAULT_COALESCE_LIMITS :: coalesce_limits where
  "DEFAULT_COALESCE_LIMITS = \<lparr>cl_interval = 60000, cl_minute = 10, cl_session = 50\<rparr>"

text \<open>A \<open>Map\<close> in the order of its insertions: \<open>set\<close> of a known key keeps its place.\<close>

fun map_put :: "'k \<Rightarrow> 'v \<Rightarrow> ('k \<times> 'v) list \<Rightarrow> ('k \<times> 'v) list" where
  "map_put k v [] = [(k, v)]"
| "map_put k v ((k', v') # m) = (if k' = k then (k, v) # m else (k', v') # map_put k v m)"

record coalescer =
  co_keys :: "(string \<times> coalesce_state) list"
  co_minutes :: "(string \<times> nat) list"
  co_limits :: coalesce_limits

definition NUL :: char where "NUL = CHR 0x00"

definition COALESCE_KEY :: "string \<Rightarrow> string \<Rightarrow> string" where
  "COALESCE_KEY device sess = device @ [NUL] @ sess"

definition PER_DEVICE_KEY :: "string \<Rightarrow> int \<Rightarrow> string" where
  "PER_DEVICE_KEY device minute = device @ [NUL] @ int_text minute"

datatype decide_reason = First_send | Repeat_send | Rate_limited | Session_ceiling | Per_device_ceiling

record decision =
  de_emit :: bool
  de_reason :: decide_reason
  de_replace :: "string option"
  de_next :: coalesce_state

definition minute_count :: "coalescer \<Rightarrow> string \<Rightarrow> int \<Rightarrow> nat" where
  "minute_count co device minute = (case map_of (co_minutes co) (PER_DEVICE_KEY device minute) of Some n \<Rightarrow> n | None \<Rightarrow> 0)"

definition put_state :: "string \<Rightarrow> coalesce_state \<Rightarrow> coalescer \<Rightarrow> coalescer" where
  "put_state key st co = co\<lparr>co_keys := map_put key st (co_keys co)\<rparr>"

definition count_minute :: "string \<Rightarrow> int \<Rightarrow> coalescer \<Rightarrow> coalescer" where
  "count_minute device minute co =
     co\<lparr>co_minutes := map_put (PER_DEVICE_KEY device minute) (minute_count co device minute + 1) (co_minutes co)\<rparr>"

definition decide :: "string \<Rightarrow> string \<Rightarrow> string \<Rightarrow> string \<Rightarrow> int \<Rightarrow> coalesce_state option \<Rightarrow> coalescer \<Rightarrow> decision \<times> coalescer" where
  "decide device sess kind notification now previous co =
     (let key = COALESCE_KEY device sess; minute = now div 60000; perDevice = minute_count co device minute in
      case previous of
        None \<Rightarrow>
          if perDevice \<ge> cl_minute (co_limits co)
          then (\<lparr>de_emit = False, de_reason = Per_device_ceiling, de_replace = None,
                 de_next = \<lparr>cs_key = key, cs_kind = None, cs_notification = None, cs_count = 0, cs_first = now, cs_last = now\<rparr>\<rparr>, co)
          else
            (let st = \<lparr>cs_key = key, cs_kind = Some kind, cs_notification = Some notification, cs_count = 1,
                       cs_first = now, cs_last = now\<rparr> in
             (\<lparr>de_emit = True, de_reason = First_send, de_replace = None, de_next = st\<rparr>,
              count_minute device minute (put_state key st co)))
      | Some p \<Rightarrow>
          if cs_count p \<ge> cl_session (co_limits co)
          then (\<lparr>de_emit = False, de_reason = Session_ceiling, de_replace = None, de_next = p\<rparr>, co)
          else if cs_kind p = Some kind \<and> now - cs_last p < cl_interval (co_limits co)
          then
            (let st = p\<lparr>cs_count := cs_count p + 1, cs_last := now\<rparr> in
             (\<lparr>de_emit = False, de_reason = Rate_limited, de_replace = cs_notification p, de_next = st\<rparr>, put_state key st co))
          else if perDevice \<ge> cl_minute (co_limits co)
          then (\<lparr>de_emit = False, de_reason = Per_device_ceiling, de_replace = None, de_next = p\<rparr>, co)
          else
            (let st = \<lparr>cs_key = key, cs_kind = Some kind, cs_notification = Some notification, cs_count = cs_count p + 1,
                       cs_first = cs_first p, cs_last = now\<rparr> in
             (\<lparr>de_emit = True, de_reason = Repeat_send, de_replace = None, de_next = st\<rparr>,
              count_minute device minute (put_state key st co))))"

definition coalescer_snapshot :: "coalescer \<Rightarrow> string \<Rightarrow> string \<Rightarrow> coalesce_state option" where
  "coalescer_snapshot co device sess = map_of (co_keys co) (COALESCE_KEY device sess)"

definition coalescer_drop :: "string \<Rightarrow> string \<Rightarrow> coalescer \<Rightarrow> coalescer" where
  "coalescer_drop device sess co = co\<lparr>co_keys := filter (\<lambda>p. fst p \<noteq> COALESCE_KEY device sess) (co_keys co)\<rparr>"

text \<open>\<open>Number(parts[1] ?? "0")\<close> of a key: \<open>None\<close> for a text that is no number.\<close>

definition key_bucket :: "string \<Rightarrow> int option" where
  "key_bucket key =
     (case dropWhile (\<lambda>c. c \<noteq> NUL) key of
        [] \<Rightarrow> Some 0
      | _ # rest \<Rightarrow>
          (let part = takeWhile (\<lambda>c. c \<noteq> NUL) rest in
           case part of
             [] \<Rightarrow> Some 0
           | c # cs \<Rightarrow>
               if c = CHR ''-'' \<and> cs \<noteq> [] \<and> list_all is_digit cs then Some (- int (big_int cs))
               else if list_all is_digit part then Some (int (big_int part)) else None))"

definition MAX_COALESCE_KEYS :: nat where "MAX_COALESCE_KEYS = 10000"

definition coalescer_sweep :: "int \<Rightarrow> int \<Rightarrow> coalescer \<Rightarrow> nat \<times> coalescer" where
  "coalescer_sweep now retention co =
     (let cutoff = (now - retention) div 60000;
          live = filter (\<lambda>p. \<not> cs_last (snd p) < now - retention) (co_keys co);
          excess = length live - MAX_COALESCE_KEYS;
          oldest = map fst (take excess (order_by (\<lambda>a b. cs_last (snd a) < cs_last (snd b)) live));
          kept = (if length live > MAX_COALESCE_KEYS then filter (\<lambda>p. fst p \<notin> set oldest) live else live);
          minutes = filter (\<lambda>p. case key_bucket (fst p) of None \<Rightarrow> False | Some b \<Rightarrow> \<not> b < cutoff) (co_minutes co) in
      (length (co_keys co) - length kept + (length (co_minutes co) - length minutes),
       co\<lparr>co_keys := kept, co_minutes := minutes\<rparr>))"

end
