(* ===== verification/Notification_Service.thy ===== *)
theory Notification_Service
  imports Notifications
begin

text \<open>
  The notification service of packages/bridge/src/notifications/service.ts over the store's registries,
  the coalescer and the allowlist. A message handed to a transport is returned by the call that sends it
  and waits in \<open>nf_inflight\<close> until its outcome arrives; a device rejected for good waits in \<open>nf_timers\<close>
  for the timer that removes it.
\<close>

section \<open>State\<close>

record notification_status =
  ns_kind :: notification_kind
  ns_session :: string
  ns_notification :: string
  ns_link :: string
  ns_created :: int
  ns_title :: "string option"
  ns_body :: "string option"

record transport_notification =
  tn_platform :: platform
  tn_device :: string
  tn_token :: string
  tn_status :: notification_status
  tn_alert :: "string \<times> string"
  tn_data :: "(string \<times> string) list"
  tn_collapse :: string
  tn_ttl :: int

record notification_counters =
  nc_delivered :: nat
  nc_transient :: nat
  nc_permanent :: nat
  nc_rejected :: nat
  nc_coalesced :: nat
  nc_stale :: nat
  nc_suppressed :: nat

record notifier =
  nf_store :: store
  nf_platforms :: "platform list"
  nf_coalescer :: coalescer
  nf_stale_after :: int
  nf_counters :: notification_counters
  nf_suspended :: bool
  nf_inflight :: "transport_notification list"
  nf_timers :: "string list"

definition new_coalescer :: "int option \<Rightarrow> nat option \<Rightarrow> nat option \<Rightarrow> coalescer" where
  "new_coalescer interval minute sess =
     \<lparr>co_keys = [], co_minutes = [],
      co_limits = \<lparr>cl_interval = (case interval of Some i \<Rightarrow> i | None \<Rightarrow> cl_interval DEFAULT_COALESCE_LIMITS),
                   cl_minute = (case minute of Some m \<Rightarrow> m | None \<Rightarrow> cl_minute DEFAULT_COALESCE_LIMITS),
                   cl_session = (case sess of Some n \<Rightarrow> n | None \<Rightarrow> cl_session DEFAULT_COALESCE_LIMITS)\<rparr>\<rparr>"

definition new_notifier :: "store \<Rightarrow> platform list option \<Rightarrow> coalescer \<Rightarrow> int option \<Rightarrow> notifier" where
  "new_notifier s platforms co stale =
     \<lparr>nf_store = s, nf_platforms = (case platforms of Some p \<Rightarrow> p | None \<Rightarrow> [Apns, Fcm]), nf_coalescer = co,
      nf_stale_after = (case stale of Some t \<Rightarrow> t | None \<Rightarrow> 5 * 60000),
      nf_counters = \<lparr>nc_delivered = 0, nc_transient = 0, nc_permanent = 0, nc_rejected = 0, nc_coalesced = 0,
                     nc_stale = 0, nc_suppressed = 0\<rparr>,
      nf_suspended = False, nf_inflight = [], nf_timers = []\<rparr>"

definition setSuspended :: "bool \<Rightarrow> notifier \<Rightarrow> notifier" where
  "setSuspended v n = n\<lparr>nf_suspended := v\<rparr>"

text \<open>\<open>suppressed\<close> is the answer of the event source.\<close>

definition isSuspended :: "bool \<Rightarrow> notifier \<Rightarrow> bool" where
  "isSuspended suppressed n \<longleftrightarrow> nf_suspended n \<or> suppressed"

definition count_up :: "(notification_counters \<Rightarrow> notification_counters) \<Rightarrow> notifier \<Rightarrow> notifier" where
  "count_up f n = n\<lparr>nf_counters := f (nf_counters n)\<rparr>"

section \<open>Devices\<close>

datatype notify_error = Notify_error string | Store_failed exn

text \<open>\<open>fresh\<close> is the next random identifier.\<close>

definition registerDevice :: "device_input \<Rightarrow> string \<Rightarrow> notifier \<Rightarrow> (notify_error + device_row) \<times> notifier" where
  "registerDevice x fresh n =
     (if di_platform x \<notin> set (nf_platforms n) then (Inl (Notify_error ''notification provider is not configured''), n)
      else if \<not> rx_test UUID4_PATTERN (di_install x) then (Inl (Notify_error ''invalid installation id''), n)
      else if (case di_device x of None \<Rightarrow> False | Some i \<Rightarrow> i \<noteq> [] \<and> \<not> rx_test UUID4_PATTERN i)
        then (Inl (Notify_error ''invalid device id''), n)
      else if length (di_token x) < 1 \<or> length (di_token x) > 4096 \<or> list_ex (\<lambda>c. of_char c < (32 :: nat)) (di_token x)
        then (Inl (Notify_error ''invalid push token''), n)
      else if length (di_version x) < 1 \<or> length (di_version x) > 128 then (Inl (Notify_error ''invalid app version''), n)
      else
        (case registerDeviceInstall (x\<lparr>di_device := Some (case di_device x of Some i \<Rightarrow> i | None \<Rightarrow> fresh)\<rparr>) (nf_store n) of
           (Inl e, s) \<Rightarrow> (Inl (Store_failed e), n\<lparr>nf_store := s\<rparr>)
         | (Inr r, s) \<Rightarrow> (Inr (fst r), n\<lparr>nf_store := s\<rparr>)))"

definition replaceToken :: "string \<Rightarrow> string \<Rightarrow> string \<Rightarrow> notifier \<Rightarrow> (notify_error + device_row) \<times> notifier" where
  "replaceToken i token version n =
     (if (case findDeviceInstallById (nf_store n) i of None \<Rightarrow> False | Some d \<Rightarrow> dv_platform d \<notin> set (nf_platforms n))
      then (Inl (Notify_error ''notification provider is not configured''), n)
      else
        (case replaceDeviceToken i token version (nf_store n) of
           (Inl e, s) \<Rightarrow> (Inl (Store_failed e), n\<lparr>nf_store := s\<rparr>)
         | (Inr None, s) \<Rightarrow> (Inl (Notify_error (''device_not_found:'' @ i)), n\<lparr>nf_store := s\<rparr>)
         | (Inr (Some d), s) \<Rightarrow> (Inr d, n\<lparr>nf_store := s\<rparr>)))"

definition unregisterDevice :: "string \<Rightarrow> notifier \<Rightarrow> (notify_error + unit) \<times> notifier" where
  "unregisterDevice i n =
     (case unregisterDeviceInstall i (nf_store n) of
        (Inl e, s) \<Rightarrow> (Inl (Store_failed e), n\<lparr>nf_store := s\<rparr>)
      | (Inr _, s) \<Rightarrow>
          (Inr (), n\<lparr>nf_store := s,
             nf_coalescer := fold (\<lambda>r co. case prop_get r ''sessionId'' of Some (JStr j) \<Rightarrow> coalescer_drop i j co | _ \<Rightarrow> co)
                                  (sessionStates s) (nf_coalescer n)\<rparr>))"

definition unregister_installation :: "string \<Rightarrow> notifier \<Rightarrow> (notify_error + nat) \<times> notifier" where
  "unregister_installation i n =
     (case unregisterInstallation i (nf_store n) of
        (Inl e, s) \<Rightarrow> (Inl (Store_failed e), n\<lparr>nf_store := s\<rparr>)
      | (Inr k, s) \<Rightarrow> (Inr k, n\<lparr>nf_store := s\<rparr>))"

definition listDevices :: "notifier \<Rightarrow> device_row list" where
  "listDevices n = filter (\<lambda>d. dv_platform d \<in> set (nf_platforms n)) (listActiveDeviceInstalls (nf_store n))"

definition rejectionReason :: "notifier \<Rightarrow> string \<Rightarrow> (string \<times> int) option" where
  "rejectionReason n i =
     (case findDeviceInstallById (nf_store n) i of
        None \<Rightarrow> None
      | Some d \<Rightarrow>
          (case (dv_rejected_reason d, dv_rejected_at d) of
             (Some r, Some t) \<Rightarrow> if r = [] then None else Some (r, t)
           | _ \<Rightarrow> None))"

definition rejectDevice :: "string \<Rightarrow> string \<Rightarrow> notifier \<Rightarrow> (notify_error + unit) \<times> notifier" where
  "rejectDevice i reason n =
     (case markDeviceRejected i reason (nf_store n) of
        (Inl e, s) \<Rightarrow> (Inl (Store_failed e), n\<lparr>nf_store := s\<rparr>)
      | (Inr _, s) \<Rightarrow>
          (Inr (), count_up (\<lambda>c. c\<lparr>nc_rejected := nc_rejected c + 1\<rparr>) (n\<lparr>nf_store := s, nf_timers := nf_timers n @ [i]\<rparr>)))"

text \<open>The timer of a rejected device: what it throws is ignored.\<close>

definition reject_timer :: "string \<Rightarrow> notifier \<Rightarrow> notifier" where
  "reject_timer i n =
     n\<lparr>nf_store := snd (unregisterDeviceInstall i (nf_store n)), nf_timers := remove1 i (nf_timers n)\<rparr>"

section \<open>Publishing a status\<close>

record publish_input =
  pi_session :: string
  pi_kind :: notification_kind
  pi_source :: "string option"
  pi_at :: "int option"
  pi_link :: "string option"

record publish_result =
  pr_delivered :: nat
  pr_suppressed :: nat
  pr_coalesced :: nat
  pr_stale :: nat
  pr_rejected :: nat

definition no_result :: publish_result where
  "no_result = \<lparr>pr_delivered = 0, pr_suppressed = 0, pr_coalesced = 0, pr_stale = 0, pr_rejected = 0\<rparr>"

text \<open>The message for one device.\<close>

definition device_message :: "publish_input \<Rightarrow> string \<Rightarrow> string \<Rightarrow> int \<Rightarrow> string \<times> string \<Rightarrow> (string \<times> string) list \<Rightarrow> device_row
    \<Rightarrow> transport_notification" where
  "device_message x notification link now copy dat d =
     \<lparr>tn_platform = dv_platform d, tn_device = dv_id d, tn_token = dv_token d,
      tn_status = \<lparr>ns_kind = pi_kind x, ns_session = pi_session x, ns_notification = notification, ns_link = link,
                   ns_created = now, ns_title = (if fst copy = [] then None else Some (fst copy)),
                   ns_body = (if snd copy = [] then None else Some (snd copy))\<rparr>,
      tn_alert = copy, tn_data = dat, tn_collapse = kind_text (pi_kind x) @ '':'' @ pi_session x, tn_ttl = 60 * 60\<rparr>"

text \<open>
  The loop over the active devices. The body builds a message from texts that are there, so its own
  error branch cannot be taken.
\<close>

fun publish_devices :: "publish_input \<Rightarrow> string \<Rightarrow> string \<Rightarrow> int \<Rightarrow> string \<times> string \<Rightarrow> (string \<times> string) list \<Rightarrow> device_row list
    \<Rightarrow> publish_result \<Rightarrow> notifier \<Rightarrow> publish_result \<times> transport_notification list \<times> notifier" where
  "publish_devices x nid link now copy dat [] r n = (r, [], n)"
| "publish_devices x nid link now copy dat (d # ds) r n =
     (if dv_platform d \<notin> set (nf_platforms n) then publish_devices x nid link now copy dat ds r n
      else
        (let previous = coalescer_snapshot (nf_coalescer n) (dv_id d) (pi_session x);
             dc = decide (dv_id d) (pi_session x) (kind_text (pi_kind x)) nid now previous (nf_coalescer n);
             n = n\<lparr>nf_coalescer := snd dc\<rparr> in
         if \<not> de_emit (fst dc)
         then publish_devices x nid link now copy dat ds (r\<lparr>pr_coalesced := pr_coalesced r + 1\<rparr>)
                (count_up (\<lambda>c. c\<lparr>nc_coalesced := nc_coalesced c + 1\<rparr>) n)
         else
           (let m = device_message x nid link now copy dat d;
                rest = publish_devices x nid link now copy dat ds (r\<lparr>pr_delivered := pr_delivered r + 1\<rparr>)
                         (n\<lparr>nf_inflight := nf_inflight n @ [m]\<rparr>) in
            (fst rest, m # fst (snd rest), snd (snd rest)))))"

text \<open>What follows the check of the source event.\<close>

definition publish_unseen :: "publish_input \<Rightarrow> string \<Rightarrow> int \<Rightarrow> notifier
    \<Rightarrow> publish_result \<times> transport_notification list \<times> notifier" where
  "publish_unseen x host now n =
     (if (case pi_at x of Some t \<Rightarrow> now - t > nf_stale_after n | None \<Rightarrow> False)
      then (no_result\<lparr>pr_stale := 1\<rparr>, [], count_up (\<lambda>c. c\<lparr>nc_stale := nc_stale c + 1\<rparr>) n)
      else
        (let nid = buildNotificationId (pi_kind x) (pi_session x) (pi_source x) (pi_at x);
             link = (case pi_link x of Some l \<Rightarrow> l | None \<Rightarrow> buildDeepLink (pi_kind x) (pi_session x));
             copy = buildNotificationCopy (pi_kind x) None None (Some host) in
         case sanitizeData [(''sessionId'', JStr (pi_session x)), (''notificationId'', JStr nid),
                            (''kind'', JStr (kind_text (pi_kind x))), (''deepLink'', JStr link), (''hostDisplayName'', JStr host)] of
           Inl _ \<Rightarrow> (no_result\<lparr>pr_suppressed := 1\<rparr>, [], count_up (\<lambda>c. c\<lparr>nc_suppressed := nc_suppressed c + 1\<rparr>) n)
         | Inr dat \<Rightarrow> publish_devices x nid link now copy dat (listActiveDeviceInstalls (nf_store n)) no_result n))"

definition publishStatus :: "publish_input \<Rightarrow> bool \<Rightarrow> string \<Rightarrow> int \<Rightarrow> notifier
    \<Rightarrow> (notify_error + publish_result) \<times> transport_notification list \<times> notifier" where
  "publishStatus x suppressed host now n =
     (if isSuspended suppressed n
      then (Inr (no_result\<lparr>pr_suppressed := 1\<rparr>), [], count_up (\<lambda>c. c\<lparr>nc_suppressed := nc_suppressed c + 1\<rparr>) n)
      else
        (let go = (\<lambda>n. case publish_unseen x host now n of (r, ms, n') \<Rightarrow> (Inr r, ms, n')) in
         case pi_source x of
           None \<Rightarrow> go n
         | Some e \<Rightarrow>
             if e = [] then go n
             else if hasNotificationDedup (nf_store n) e
             then (Inr (no_result\<lparr>pr_coalesced := 1\<rparr>), [], count_up (\<lambda>c. c\<lparr>nc_coalesced := nc_coalesced c + 1\<rparr>) n)
             else
               (case recordNotificationDedup e (kind_text (pi_kind x)) (pi_session x) (nf_store n) of
                  (Inl er, s) \<Rightarrow> (Inl (Store_failed er), [], n\<lparr>nf_store := s\<rparr>)
                | (Inr _, s) \<Rightarrow> go (n\<lparr>nf_store := s\<rparr>))))"

definition safePublishStatus :: "publish_input \<Rightarrow> bool \<Rightarrow> string \<Rightarrow> int \<Rightarrow> notifier option
    \<Rightarrow> publish_result \<times> transport_notification list \<times> notifier option" where
  "safePublishStatus x suppressed host now service =
     (case service of
        None \<Rightarrow> (no_result, [], None)
      | Some n \<Rightarrow>
          (case publishStatus x suppressed host now n of
             (Inr r, ms, n') \<Rightarrow> (r, ms, Some n')
           | (Inl _, ms, n') \<Rightarrow> (no_result, ms, Some n')))"

definition deriveHostDisplayName :: "string option \<Rightarrow> string" where
  "deriveHostDisplayName source =
     (case source of
        None \<Rightarrow> ''Pi''
      | Some host \<Rightarrow> (case sanitizeNotificationString (Some (JStr host)) of Some h \<Rightarrow> h | None \<Rightarrow> ''Pi''))"

section \<open>The end of a sending\<close>

datatype send_outcome = Sent | Transient_failure | Permanent_failure string | Send_threw

text \<open>The chain of handlers: an error of the store within one is counted as a transient failure.\<close>

definition send_settled :: "transport_notification \<Rightarrow> send_outcome \<Rightarrow> notifier \<Rightarrow> notifier" where
  "send_settled m outcome n =
     (let n = n\<lparr>nf_inflight := remove1 m (nf_inflight n)\<rparr>;
          failed = count_up (\<lambda>c. c\<lparr>nc_transient := nc_transient c + 1\<rparr>) in
      case outcome of
        Sent \<Rightarrow>
          (case touchDeviceInstall (tn_device m) (nf_store n) of
             (Inr _, s) \<Rightarrow> count_up (\<lambda>c. c\<lparr>nc_delivered := nc_delivered c + 1\<rparr>) (n\<lparr>nf_store := s\<rparr>)
           | (Inl _, s) \<Rightarrow> failed (count_up (\<lambda>c. c\<lparr>nc_delivered := nc_delivered c + 1\<rparr>) (n\<lparr>nf_store := s\<rparr>)))
      | Transient_failure \<Rightarrow> failed n
      | Permanent_failure reason \<Rightarrow>
          (case rejectDevice (tn_device m) reason (count_up (\<lambda>c. c\<lparr>nc_permanent := nc_permanent c + 1\<rparr>) n) of
             (Inr _, n) \<Rightarrow> n
           | (Inl _, n) \<Rightarrow> failed n)
      | Send_threw \<Rightarrow> failed n)"

section \<open>Sweeping\<close>

fun sweep_devices :: "device_row list \<Rightarrow> notifier \<Rightarrow> (notify_error + nat) \<times> notifier" where
  "sweep_devices [] n = (Inr 0, n)"
| "sweep_devices (d # ds) n =
     (if (case dv_rejected_reason d of None \<Rightarrow> False | Some r \<Rightarrow> r \<noteq> []) \<and> dv_rejected_at d \<noteq> None
      then
        (case unregisterDeviceInstall (dv_id d) (nf_store n) of
           (Inl e, s) \<Rightarrow> (Inl (Store_failed e), n\<lparr>nf_store := s\<rparr>)
         | (Inr _, s) \<Rightarrow>
             (case sweep_devices ds (n\<lparr>nf_store := s\<rparr>) of
                (Inl e, n) \<Rightarrow> (Inl e, n)
              | (Inr k, n) \<Rightarrow> (Inr (k + 1), n)))
      else sweep_devices ds n)"

definition service_sweep :: "int \<Rightarrow> notifier \<Rightarrow> (notify_error + nat \<times> nat) \<times> notifier" where
  "service_sweep now n =
     (case sweep_devices (listActiveDeviceInstalls (nf_store n)) n of
        (Inl e, n) \<Rightarrow> (Inl e, n)
      | (Inr k, n) \<Rightarrow>
          (case sweepNotificationDedup (24 * 60 * 60000) (Some now) (nf_store n) of
             (Inl e, s) \<Rightarrow> (Inl (Store_failed e), n\<lparr>nf_store := s\<rparr>)
           | (Inr _, s) \<Rightarrow>
               (let sw = coalescer_sweep now (5 * 60000) (nf_coalescer n) in
                (Inr (k, fst sw), n\<lparr>nf_store := s, nf_coalescer := snd sw\<rparr>))))"

section \<open>A run of the service\<close>

text \<open>
  One step of the service at a time of its clock, with the messages it hands to the transports. Between
  its steps other parts of the bridge use the store, but leave the notified source events alone.
\<close>

inductive notify_step :: "int \<Rightarrow> notifier \<Rightarrow> transport_notification list \<Rightarrow> notifier \<Rightarrow> bool" where
  register_step: "notify_step t n [] (snd (registerDevice x fresh n))"
| replace_step: "notify_step t n [] (snd (replaceToken i token version n))"
| unregister_step: "notify_step t n [] (snd (unregisterDevice i n))"
| installation_step: "notify_step t n [] (snd (unregister_installation i n))"
| suspend_step: "notify_step t n [] (setSuspended v n)"
| reject_step: "notify_step t n [] (snd (rejectDevice i reason n))"
| timer_step: "i \<in> set (nf_timers n) \<Longrightarrow> notify_step t n [] (reject_timer i n)"
| publish_step: "notify_step t n (fst (snd (publishStatus x suppressed host t n))) (snd (snd (publishStatus x suppressed host t n)))"
| settle_step: "m \<in> set (nf_inflight n) \<Longrightarrow> notify_step t n [] (send_settled m outcome n)"
| sweep_step: "notify_step t n [] (snd (service_sweep t n))"
| store_step: "dedup s = dedup (nf_store n) \<Longrightarrow> notify_step t n [] (n\<lparr>nf_store := s\<rparr>)"

text \<open>A run between two times of a clock that does not go back, with all its messages.\<close>

inductive notify_run :: "int \<Rightarrow> notifier \<Rightarrow> transport_notification list \<Rightarrow> int \<Rightarrow> notifier \<Rightarrow> bool" where
  run_done: "notify_run t n [] t n"
| run_more: "notify_run t0 n ms t1 n1 \<Longrightarrow> t1 \<le> t \<Longrightarrow> notify_step t n1 ms' n' \<Longrightarrow> notify_run t0 n (ms @ ms') t n'"

section \<open>Notified once\<close>

lemma transaction_keeps:
  assumes "\<And>a s'. m s = Inr (a, s') \<Longrightarrow> f s' = f s" and "\<And>t. db_of t = db_of s \<Longrightarrow> f t = f s"
  shows "f (snd (transaction m s)) = f s"
  by (rule transaction_preserves [where P = "\<lambda>t. f t = f s", OF assms])

lemma dedup_db: "db_of t = db_of s \<Longrightarrow> dedup t = dedup s"
  by (drule arg_cong [where f = dedup]) simp

lemma update_devices_sel [simp]:
  "dedup (update_devices P f s) = dedup s" "clock (update_devices P f s) = clock s"
  by (simp_all add: update_devices_def)

lemma registry_dedup:
  "dedup (snd (registerDeviceInstall x s)) = dedup s"
  "dedup (snd (replaceDeviceToken i token version s)) = dedup s"
  "dedup (snd (unregisterDeviceInstall i s)) = dedup s"
  "dedup (snd (unregisterInstallation i s)) = dedup s"
  "dedup (snd (markDeviceRejected i reason s)) = dedup s"
  "dedup (snd (touchDeviceInstall i s)) = dedup s"
proof -
  show "dedup (snd (registerDeviceInstall x s)) = dedup s" unfolding registerDeviceInstall_def
    by (rule transaction_keeps [OF _ dedup_db])
      (auto simp: registerDeviceInstall_tx_def Let_def tx_bind_Inr_iff tx_return_def split: option.splits if_splits)
  show "dedup (snd (replaceDeviceToken i token version s)) = dedup s" unfolding replaceDeviceToken_def
    by (rule transaction_keeps [OF _ dedup_db]) (auto simp: Let_def split: option.splits)
  show "dedup (snd (unregisterDeviceInstall i s)) = dedup s" unfolding unregisterDeviceInstall_def
    by (rule transaction_keeps [OF _ dedup_db]) auto
  show "dedup (snd (unregisterInstallation i s)) = dedup s" unfolding unregisterInstallation_def
    by (rule transaction_keeps [OF _ dedup_db]) auto
  show "dedup (snd (markDeviceRejected i reason s)) = dedup s" unfolding markDeviceRejected_def
    by (rule transaction_keeps [OF _ dedup_db]) (auto simp: Let_def split: option.splits)
  show "dedup (snd (touchDeviceInstall i s)) = dedup s" unfolding touchDeviceInstall_def
    by (rule transaction_keeps [OF _ dedup_db]) auto
qed

lemma registry_keeps:
  "registerDeviceInstall x s = (r1, s') \<Longrightarrow> dedup s' = dedup s"
  "replaceDeviceToken i token version s = (r2, s') \<Longrightarrow> dedup s' = dedup s"
  "unregisterDeviceInstall i s = (r3, s') \<Longrightarrow> dedup s' = dedup s"
  "unregisterInstallation i s = (r4, s') \<Longrightarrow> dedup s' = dedup s"
  "markDeviceRejected i reason s = (r5, s') \<Longrightarrow> dedup s' = dedup s"
  "touchDeviceInstall i s = (r6, s') \<Longrightarrow> dedup s' = dedup s"
  by (metis registry_dedup(1) snd_conv) (metis registry_dedup(2) snd_conv, metis registry_dedup(3) snd_conv,
    metis registry_dedup(4) snd_conv, metis registry_dedup(5) snd_conv, metis registry_dedup(6) snd_conv)

text \<open>The source event \<open>e\<close> has a row of time \<open>c\<close>.\<close>

definition notified :: "string \<Rightarrow> int \<Rightarrow> store \<Rightarrow> bool" where
  "notified e c s \<longleftrightarrow> (\<exists>d \<in> set (dedup s). dd_source d = e \<and> dd_created d = c)"

lemma notified_has: "notified e c s \<Longrightarrow> hasNotificationDedup s e"
  by (auto simp: notified_def hasNotificationDedup_def)

lemma notified_cong: "dedup s' = dedup s \<Longrightarrow> notified e c s' = notified e c s"
  by (simp add: notified_def)

lemma notified_record: "notified e c s \<Longrightarrow> notified e c (snd (recordNotificationDedup x k i s))"
  unfolding recordNotificationDedup_def
  by (rule transaction_preserves [OF _ iffD2 [OF notified_cong [OF dedup_db]]]) (auto simp: notified_def)

lemma notified_sweep:
  "notified e c s \<Longrightarrow> now \<le> c + r \<Longrightarrow> notified e c (snd (sweepNotificationDedup r (Some now) s))"
  unfolding sweepNotificationDedup_def
  by (rule transaction_preserves [OF _ iffD2 [OF notified_cong [OF dedup_db]]]) (auto simp: notified_def Let_def)

lemma recorded_notified: "recordNotificationDedup e k i s = (Inr u, s') \<Longrightarrow> \<not> hasNotificationDedup s e \<Longrightarrow> notified e (clock s) s'"
  unfolding recordNotificationDedup_def
  by (auto simp: transaction_Inr_iff notified_def hasNotificationDedup_def)

lemma publish_devices_store [simp]: "nf_store (snd (snd (publish_devices x nid link now copy dat ds r n))) = nf_store n"
  by (induction ds arbitrary: r n) (simp_all add: Let_def count_up_def)

lemma publish_unseen_store [simp]: "nf_store (snd (snd (publish_unseen x host now n))) = nf_store n"
  by (simp add: publish_unseen_def count_up_def Let_def split: sum.split)

lemma sweep_devices_dedup: "sweep_devices ds n = (r, n') \<Longrightarrow> dedup (nf_store n') = dedup (nf_store n)"
proof (induction ds arbitrary: n r n')
  case (Cons d ds)
  then show ?case
    by (auto split: prod.splits sum.splits if_splits dest!: registry_keeps(3) Cons.IH)
qed simp

lemma rejectDevice_dedup: "rejectDevice i reason n = (r, n') \<Longrightarrow> dedup (nf_store n') = dedup (nf_store n)"
  by (auto simp: rejectDevice_def count_up_def split: prod.splits sum.splits dest!: registry_keeps(5))

lemma send_settled_dedup: "dedup (nf_store (send_settled m outcome n)) = dedup (nf_store n)"
  by (cases outcome)
    (auto simp: send_settled_def Let_def count_up_def split: prod.split sum.split dest!: registry_keeps(6) rejectDevice_dedup)

lemma publish_dedup:
  "notified e c (nf_store n) \<Longrightarrow> notified e c (nf_store (snd (snd (publishStatus x suppressed host t n))))"
  using notified_record [of e c "nf_store n"]
  by (auto simp: publishStatus_def Let_def count_up_def case_prod_unfold split: option.split sum.split)

lemma service_sweep_dedup:
  assumes "notified e c (nf_store n)" and "t \<le> c + 24 * 60 * 60000"
  shows "notified e c (nf_store (snd (service_sweep t n)))"
proof -
  obtain r n1 where sw: "sweep_devices (listActiveDeviceInstalls (nf_store n)) n = (r, n1)" by fastforce
  have "notified e c (nf_store n1)" using assms(1) sweep_devices_dedup [OF sw] by (simp add: notified_def)
  then have "notified e c (snd (sweepNotificationDedup (24 * 60 * 60000) (Some t) (nf_store n1)))"
    using assms(2) by (intro notified_sweep) simp_all
  then show ?thesis using \<open>notified e c (nf_store n1)\<close>
    by (auto simp: service_sweep_def sw Let_def split: sum.split prod.split)
qed

lemma notify_step_notified:
  assumes "notify_step t n ms n'" and "notified e c (nf_store n)" and "t \<le> c + 24 * 60 * 60000"
  shows "notified e c (nf_store n')"
proof -
  have keep: "dedup s = dedup (nf_store n) \<Longrightarrow> notified e c s" for s using assms(2) by (simp add: notified_def)
  show ?thesis using assms(1,3)
  proof (cases rule: notify_step.cases)
    case (register_step x fresh)
    then show ?thesis using assms(2)
      by (auto simp: registerDevice_def split: prod.split sum.split dest!: registry_keeps(1) intro: keep)
  next
    case (replace_step i token version)
    then show ?thesis using assms(2)
      by (auto simp: replaceToken_def split: prod.split sum.split option.split dest!: registry_keeps(2) intro: keep)
  next
    case (unregister_step i)
    then show ?thesis using assms(2)
      by (auto simp: unregisterDevice_def split: prod.split sum.split dest!: registry_keeps(3) intro: keep)
  next
    case (installation_step i)
    then show ?thesis using assms(2)
      by (auto simp: unregister_installation_def split: prod.split sum.split dest!: registry_keeps(4) intro: keep)
  next
    case (reject_step i reason)
    then show ?thesis using rejectDevice_dedup [of i reason n] by (intro keep) (metis prod.collapse)
  next
    case (timer_step i)
    then show ?thesis by (auto simp: reject_timer_def registry_dedup intro: keep)
  next
    case (publish_step x suppressed host)
    then show ?thesis using assms(2) by (simp add: publish_dedup)
  next
    case (settle_step m outcome)
    then show ?thesis by (auto simp: send_settled_dedup intro: keep)
  next
    case sweep_step
    then show ?thesis using assms(2,3) by (simp add: service_sweep_dedup)
  qed (use assms(2) in \<open>auto simp: setSuspended_def intro: keep\<close>)
qed

lemma notify_run_notified:
  "notify_run t0 n ms t n' \<Longrightarrow> notified e c (nf_store n) \<Longrightarrow> t \<le> c + 24 * 60 * 60000 \<Longrightarrow> notified e c (nf_store n')"
proof (induction rule: notify_run.induct)
  case (run_more t0 n ms t1 n1 t ms' n')
  then have "notified e c (nf_store n1)" by simp
  then show ?case using run_more notify_step_notified by blast
qed

lemma publish_notified:
  assumes "pi_source x = Some e" and "e \<noteq> []" and "fst (snd (publishStatus x suppressed host t n)) \<noteq> []"
  shows "notified e (clock (nf_store n)) (nf_store (snd (snd (publishStatus x suppressed host t n))))"
proof -
  let ?rec = "recordNotificationDedup e (kind_text (pi_kind x)) (pi_session x) (nf_store n)"
  have new: "\<not> hasNotificationDedup (nf_store n) e" "\<not> isSuspended suppressed n"
    using assms by (auto simp: publishStatus_def Let_def split: if_splits)
  obtain u s where rec: "?rec = (Inr u, s)"
    using assms new by (cases ?rec; cases "fst ?rec") (auto simp: publishStatus_def Let_def)
  show ?thesis using recorded_notified [OF rec new(1)] assms(1,2) new rec
    by (simp add: publishStatus_def Let_def case_prod_unfold)
qed

section \<open>What a publication sends\<close>

text \<open>The input of \<open>sanitizeData\<close>, and the part of the service a publication reads.\<close>

abbreviation nid_of :: "publish_input \<Rightarrow> string" where
  "nid_of x \<equiv> buildNotificationId (pi_kind x) (pi_session x) (pi_source x) (pi_at x)"

abbreviation link_of :: "publish_input \<Rightarrow> string" where
  "link_of x \<equiv> (case pi_link x of Some l \<Rightarrow> l | None \<Rightarrow> buildDeepLink (pi_kind x) (pi_session x))"

abbreviation copy_of :: "publish_input \<Rightarrow> string \<Rightarrow> string \<times> string" where
  "copy_of x host \<equiv> buildNotificationCopy (pi_kind x) None None (Some host)"

abbreviation data_of :: "publish_input \<Rightarrow> string \<Rightarrow> obj" where
  "data_of x host \<equiv>
     [(''sessionId'', JStr (pi_session x)), (''notificationId'', JStr (nid_of x)), (''kind'', JStr (kind_text (pi_kind x))),
      (''deepLink'', JStr (link_of x)), (''hostDisplayName'', JStr host)]"

lemma recordNotificationDedup_devices: "devices (snd (recordNotificationDedup e k i s)) = devices s"
  unfolding recordNotificationDedup_def
  by (rule transaction_keeps) (auto dest: arg_cong [where f = devices])

lemma listActive_cong: "devices s' = devices s \<Longrightarrow> listActiveDeviceInstalls s' = listActiveDeviceInstalls s"
  by (simp add: listActiveDeviceInstalls_def)

text \<open>A publication sends nothing and leaves the coalescer alone, or it is the loop over the active devices.\<close>

definition quiet :: "notifier \<Rightarrow> transport_notification list \<times> notifier \<Rightarrow> bool" where
  "quiet n p \<longleftrightarrow> fst p = [] \<and> nf_coalescer (snd p) = nf_coalescer n"

definition sends :: "publish_input \<Rightarrow> string \<Rightarrow> int \<Rightarrow> notifier \<Rightarrow> transport_notification list \<times> notifier \<Rightarrow> bool" where
  "sends x host t n p \<longleftrightarrow>
     (\<exists>s dat. devices s = devices (nf_store n) \<and> sanitizeData (data_of x host) = Inr dat
        \<and> p = snd (publish_devices x (nid_of x) (link_of x) t (copy_of x host) dat
                     (listActiveDeviceInstalls (nf_store n)) no_result (n\<lparr>nf_store := s\<rparr>)))"

lemma publish_unseen_cases:
  assumes "devices s = devices (nf_store n)"
  shows "quiet n (snd (publish_unseen x host t (n\<lparr>nf_store := s\<rparr>))) \<or> sends x host t n (snd (publish_unseen x host t (n\<lparr>nf_store := s\<rparr>)))"
proof (cases "case pi_at x of Some u \<Rightarrow> t - u > nf_stale_after n | None \<Rightarrow> False")
  case True
  then show ?thesis by (cases "pi_at x") (simp_all add: publish_unseen_def quiet_def count_up_def)
next
  case stale: False
  show ?thesis
  proof (cases "sanitizeData (data_of x host)")
    case (Inl e)
    then show ?thesis using stale by (cases "pi_at x") (simp_all add: publish_unseen_def quiet_def count_up_def Let_def)
  next
    case (Inr dat)
    then have "snd (publish_unseen x host t (n\<lparr>nf_store := s\<rparr>))
        = snd (publish_devices x (nid_of x) (link_of x) t (copy_of x host) dat
                 (listActiveDeviceInstalls (nf_store n)) no_result (n\<lparr>nf_store := s\<rparr>))"
      using stale by (cases "pi_at x") (simp_all add: publish_unseen_def Let_def listActive_cong [OF assms])
    then show ?thesis using assms Inr by (auto simp: sends_def)
  qed
qed

lemma publish_cases:
  obtains (quiet) "quiet n (snd (publishStatus x suppressed host t n))"
  | (sends) "sends x host t n (snd (publishStatus x suppressed host t n))"
proof -
  have same: "n\<lparr>nf_store := nf_store n\<rparr> = n" by simp
  let ?p = "snd (publishStatus x suppressed host t n)"
  note here = publish_unseen_cases [OF refl, of n x host t, unfolded same]
  have "quiet n ?p \<or> sends x host t n ?p"
  proof (cases "isSuspended suppressed n")
    case True
    then show ?thesis by (simp add: publishStatus_def quiet_def count_up_def)
  next
    case False
    show ?thesis
    proof (cases "pi_source x")
      case None
      then show ?thesis using False here by (simp add: publishStatus_def Let_def case_prod_unfold)
    next
      case (Some e)
      obtain r s where rec: "recordNotificationDedup e (kind_text (pi_kind x)) (pi_session x) (nf_store n) = (r, s)" by fastforce
      have dv: "devices s = devices (nf_store n)"
        using recordNotificationDedup_devices [of e "kind_text (pi_kind x)" "pi_session x" "nf_store n"] rec by simp
      show ?thesis
      proof (cases "e = [] \<or> hasNotificationDedup (nf_store n) e")
        case True
        then show ?thesis using False Some here
          by (auto simp: publishStatus_def Let_def case_prod_unfold quiet_def count_up_def)
      next
        case fresh: False
        then show ?thesis using False Some publish_unseen_cases [OF dv, of x host t]
          by (cases r) (auto simp: publishStatus_def Let_def case_prod_unfold rec quiet_def)
      qed
    qed
  qed
  then show ?thesis using that by blast
qed

lemma publish_devices_messages:
  "m \<in> set (fst (snd (publish_devices x nid link now copy dat ds r n))) \<Longrightarrow> \<exists>d \<in> set ds. m = device_message x nid link now copy dat d"
  by (induction ds arbitrary: r n) (auto simp: Let_def split: if_splits)

lemma tn_device_message [simp]: "tn_device (device_message x nid link now copy dat d) = dv_id d"
  by (simp add: device_message_def)

lemma publish_devices_distinct:
  assumes "distinct (map dv_id ds)"
  shows "distinct (map tn_device (fst (snd (publish_devices x nid link now copy dat ds r n))))"
  using assms
proof (induction ds arbitrary: r n)
  case (Cons d ds)
  have "dv_id d \<notin> tn_device ` set (fst (snd (publish_devices x nid link now copy dat ds r n)))" for r n
    using Cons.prems publish_devices_messages by fastforce
  then show ?case using Cons by (simp add: Let_def)
qed simp

lemma active_ids: "distinct (map dv_id (devices s)) \<Longrightarrow> distinct (map dv_id (listActiveDeviceInstalls s))"
proof -
  assume "distinct (map dv_id (devices s))"
  then have f: "distinct (map dv_id (filter (\<lambda>d. dv_rejected_reason d = None) (devices s)))" by (rule distinct_map_filter)
  have view: "dv_id \<circ> device_view = dv_id" by (rule ext) (simp add: device_view_def)
  show ?thesis using f by (simp add: listActiveDeviceInstalls_def view distinct_map)
qed

lemma publish_distinct:
  assumes "devices_ok (nf_store n)"
  shows "distinct (map tn_device (fst (snd (publishStatus x suppressed host t n))))"
proof (cases rule: publish_cases [of n x suppressed host t])
  case quiet
  then show ?thesis by (simp add: quiet_def)
next
  case sends
  then obtain s dat where
    "snd (publishStatus x suppressed host t n)
     = snd (publish_devices x (nid_of x) (link_of x) t (copy_of x host) dat
              (listActiveDeviceInstalls (nf_store n)) no_result (n\<lparr>nf_store := s\<rparr>))"
    unfolding sends_def by blast
  moreover have "distinct (map dv_id (listActiveDeviceInstalls (nf_store n)))"
    using active_ids assms by (simp add: devices_ok_def)
  ultimately show ?thesis using publish_devices_distinct by simp
qed

text \<open>
  C38 (published_once). When a source event was published with a message, every device has at most one
  message of it, and no publication of the same source event within a day sends another, whatever the
  service and the other users of its store do in between.
\<close>

theorem published_once:
  assumes "devices_ok (nf_store n)" and "pi_source x = Some e" and "e \<noteq> []"
    and "publishStatus x suppressed host t n = (r, ms, n1)" and "ms \<noteq> []"
    and "notify_run t n1 ms' t' n2" and "t' \<le> clock (nf_store n) + 24 * 60 * 60000"
    and "pi_source y = Some e"
  shows "distinct (map tn_device ms) \<and> fst (snd (publishStatus y suppressed' host' t'' n2)) = []"
proof -
  have "notified e (clock (nf_store n)) (nf_store n1)"
    using publish_notified [OF assms(2,3), of suppressed host t n] assms(4,5) by simp
  then have "notified e (clock (nf_store n)) (nf_store n2)" using notify_run_notified assms(6,7) by blast
  then have has: "hasNotificationDedup (nf_store n2) e" by (rule notified_has)
  show ?thesis using has assms(3,8) publish_distinct [OF assms(1), of x suppressed host t] assms(4)
    by (simp add: publishStatus_def Let_def)
qed

section \<open>At most so many messages a minute\<close>

lemma int_text_NUL: "NUL \<notin> set (int_text k)"
proof -
  have "c \<noteq> NUL" if "c \<in> set (dec m)" for c m
    using dec_digits [of m] that by (auto simp: list_all_iff is_digit_def NUL_def)
  then show ?thesis by (auto simp: int_text_def NUL_def)
qed

lemma int_text_inject: "int_text a = int_text b \<longleftrightarrow> a = b"
proof -
  have "CHR ''-'' \<notin> set (dec m)" for m
    using dec_digits [of m] by (auto simp: list_all_iff is_digit_def)
  then have "CHR ''-'' # xs \<noteq> dec m" for xs m by (metis list.set_intros(1))
  then have ne: "CHR ''-'' # xs \<noteq> dec m" "dec m \<noteq> CHR ''-'' # xs" for xs m by metis+
  show ?thesis by (auto simp: int_text_def ne)
qed

lemma PER_DEVICE_KEY_inject: "PER_DEVICE_KEY d k = PER_DEVICE_KEY d' k' \<longleftrightarrow> d = d' \<and> k = k'"
proof
  assume e: "PER_DEVICE_KEY d k = PER_DEVICE_KEY d' k'"
  have split: "takeWhile (\<lambda>c. c \<noteq> NUL) (rev (PER_DEVICE_KEY d k)) = rev (int_text k)"
    "dropWhile (\<lambda>c. c \<noteq> NUL) (rev (PER_DEVICE_KEY d k)) = NUL # rev d" for d k
    using int_text_NUL [of k]
    by (auto simp: PER_DEVICE_KEY_def takeWhile_append dropWhile_append dropWhile_eq_Nil_conv)
  show "d = d' \<and> k = k'" using split [of d k] split [of d' k'] e by (simp add: int_text_inject)
qed simp

lemma map_of_map_put: "map_of (map_put k v m) j = (if j = k then Some v else map_of m j)"
  by (induction k v m rule: map_put.induct) auto

lemma map_of_filter_key: "P j \<Longrightarrow> map_of (filter (\<lambda>p. P (fst p)) m) j = map_of m j"
  by (induction m) auto

lemma key_bucket_device: "NUL \<notin> set d \<Longrightarrow> key_bucket (PER_DEVICE_KEY d k) = Some k"
proof -
  assume d: "NUL \<notin> set d"
  have drop: "dropWhile (\<lambda>c. c \<noteq> NUL) (d @ NUL # s) = NUL # s" for s
    using d by (induction d) auto
  have take: "takeWhile (\<lambda>c. c \<noteq> NUL) (int_text k) = int_text k"
    using int_text_NUL [of k] by (metis (mono_tags, lifting) takeWhile_eq_all_conv)
  have minus: "c \<noteq> CHR ''-''" if "dec m = c # cs" for m c cs
    using dec_digits [of m] that by (auto simp: is_digit_def)
  show ?thesis
  proof (cases "k < 0")
    case True
    then show ?thesis using take dec_digits [of "nat (- k)"]
      by (simp add: key_bucket_def PER_DEVICE_KEY_def drop int_text_def)
  next
    case False
    obtain c cs where c: "dec (nat k) = c # cs" by (cases "dec (nat k)") auto
    have "big_int (c # cs) = nat k" using big_int_dec [of "nat k"] c by simp
    then show ?thesis using False take dec_digits [of "nat k"] c minus [OF c]
      by (simp add: key_bucket_def PER_DEVICE_KEY_def drop int_text_def)
  qed
qed

lemma minute_count_put: "minute_count (put_state key st co) = minute_count co"
  by (rule ext)+ (simp add: minute_count_def put_state_def)

lemma minute_count_count:
  "minute_count (count_minute d k co) d' k' = minute_count co d' k' + (if d' = d \<and> k' = k then 1 else 0)"
  by (auto simp: minute_count_def count_minute_def map_of_map_put PER_DEVICE_KEY_inject)

lemma decide_minutes:
  assumes "decide d i kind nid now previous co = (dc, co')"
  shows "co_limits co' = co_limits co"
    and "minute_count co' d' k = minute_count co d' k + (if de_emit dc \<and> d' = d \<and> k = now div 60000 then 1 else 0)"
    and "de_emit dc \<Longrightarrow> minute_count co d (now div 60000) < cl_minute (co_limits co)"
proof -
  show "co_limits co' = co_limits co" using assms
    by (auto simp: decide_def Let_def put_state_def count_minute_def split: option.splits if_splits)
  show "minute_count co' d' k = minute_count co d' k + (if de_emit dc \<and> d' = d \<and> k = now div 60000 then 1 else 0)" using assms
    by (auto simp: decide_def Let_def minute_count_put minute_count_count split: option.splits if_splits)
  show "de_emit dc \<Longrightarrow> minute_count co d (now div 60000) < cl_minute (co_limits co)" using assms
    by (auto simp: decide_def Let_def split: option.splits if_splits)
qed

text \<open>The messages to a device in a minute.\<close>

definition sent_in :: "string \<Rightarrow> int \<Rightarrow> transport_notification list \<Rightarrow> nat" where
  "sent_in d k ms = length (filter (\<lambda>m. tn_device m = d \<and> ns_created (tn_status m) div 60000 = k) ms)"

lemma sent_in_simps [simp]:
  "sent_in d k [] = 0"
  "sent_in d k (m # ms) = (if tn_device m = d \<and> ns_created (tn_status m) div 60000 = k then 1 else 0) + sent_in d k ms"
  "sent_in d k (ms @ ms') = sent_in d k ms + sent_in d k ms'"
  by (simp_all add: sent_in_def)

lemma publish_devices_minutes:
  "co_limits (nf_coalescer (snd (snd (publish_devices x nid link now copy dat ds r n)))) = co_limits (nf_coalescer n)
   \<and> minute_count (nf_coalescer (snd (snd (publish_devices x nid link now copy dat ds r n)))) d k
     = minute_count (nf_coalescer n) d k + sent_in d k (fst (snd (publish_devices x nid link now copy dat ds r n)))
   \<and> minute_count (nf_coalescer (snd (snd (publish_devices x nid link now copy dat ds r n)))) d k
     \<le> max (minute_count (nf_coalescer n) d k) (cl_minute (co_limits (nf_coalescer n)))"
proof (induction ds arbitrary: r n)
  case (Cons e ds)
  obtain dc co' where dec: "decide (dv_id e) (pi_session x) (kind_text (pi_kind x)) nid now
      (coalescer_snapshot (nf_coalescer n) (dv_id e) (pi_session x)) (nf_coalescer n) = (dc, co')" by fastforce
  note m = decide_minutes [OF dec]
  have made: "tn_device (device_message x nid link now copy dat e) = dv_id e"
    "ns_created (tn_status (device_message x nid link now copy dat e)) = now"
    by (simp_all add: device_message_def)
  show ?case
  proof (cases "dv_platform e \<notin> set (nf_platforms n)")
    case True
    then show ?thesis using Cons.IH [of r n] by simp
  next
    case known: False
    show ?thesis
    proof (cases "de_emit dc")
      case False
      then show ?thesis
        using known m(1) m(2) [of d k]
          Cons.IH [of "r\<lparr>pr_coalesced := pr_coalesced r + 1\<rparr>" "count_up (\<lambda>c. c\<lparr>nc_coalesced := nc_coalesced c + 1\<rparr>) (n\<lparr>nf_coalescer := co'\<rparr>)"]
        by (simp add: Let_def dec count_up_def)
    next
      case True
      have le: "minute_count co' d k \<le> max (minute_count (nf_coalescer n) d k) (cl_minute (co_limits (nf_coalescer n)))"
        using m(2) [of d k] m(3) [OF True] True by simp
      show ?thesis
        using known m(1) m(2) [of d k] True le
          Cons.IH [of "r\<lparr>pr_delivered := pr_delivered r + 1\<rparr>" "n\<lparr>nf_coalescer := co', nf_inflight := nf_inflight n @ [device_message x nid link now copy dat e]\<rparr>"]
        by (auto simp: Let_def dec made max_def split: if_splits)
    qed
  qed
qed simp

lemma publish_minutes:
  "co_limits (nf_coalescer (snd (snd (publishStatus x suppressed host t n)))) = co_limits (nf_coalescer n)
   \<and> minute_count (nf_coalescer (snd (snd (publishStatus x suppressed host t n)))) d k
     = minute_count (nf_coalescer n) d k + sent_in d k (fst (snd (publishStatus x suppressed host t n)))
   \<and> minute_count (nf_coalescer (snd (snd (publishStatus x suppressed host t n)))) d k
     \<le> max (minute_count (nf_coalescer n) d k) (cl_minute (co_limits (nf_coalescer n)))"
proof (cases rule: publish_cases [of n x suppressed host t])
  case quiet
  then show ?thesis by (simp add: quiet_def)
next
  case sends
  then obtain s dat where p: "snd (publishStatus x suppressed host t n)
     = snd (publish_devices x (nid_of x) (link_of x) t (copy_of x host) dat
              (listActiveDeviceInstalls (nf_store n)) no_result (n\<lparr>nf_store := s\<rparr>))"
    unfolding sends_def by blast
  show ?thesis
    using publish_devices_minutes [of x "nid_of x" "link_of x" t "copy_of x host" dat "listActiveDeviceInstalls (nf_store n)" no_result "n\<lparr>nf_store := s\<rparr>" d k]
    by (simp add: p)
qed

lemma publish_created:
  "m \<in> set (fst (snd (publishStatus x suppressed host t n))) \<Longrightarrow> ns_created (tn_status m) = t"
proof (cases rule: publish_cases [of n x suppressed host t])
  case sends
  then obtain s dat where p: "snd (publishStatus x suppressed host t n)
     = snd (publish_devices x (nid_of x) (link_of x) t (copy_of x host) dat
              (listActiveDeviceInstalls (nf_store n)) no_result (n\<lparr>nf_store := s\<rparr>))"
    unfolding sends_def by blast
  assume "m \<in> set (fst (snd (publishStatus x suppressed host t n)))"
  from this [unfolded p] show ?thesis
    by (auto dest!: publish_devices_messages simp: device_message_def)
qed (simp add: quiet_def)

text \<open>The sweep keeps the counts of the running minute.\<close>

lemma coalescer_sweep_minutes:
  assumes "NUL \<notin> set d" and "t div 60000 \<le> k" and "0 \<le> r"
  shows "minute_count (snd (coalescer_sweep t r co)) d k = minute_count co d k"
proof -
  have cut: "\<not> k < (t - r) div 60000" using assms(2,3) zdiv_mono1 [of "t - r" t 60000] by simp
  have "(case key_bucket (PER_DEVICE_KEY d k) of None \<Rightarrow> False | Some b \<Rightarrow> \<not> b < (t - r) div 60000)"
    using cut by (simp add: key_bucket_device [OF assms(1)])
  note keep = map_of_filter_key [where P = "\<lambda>q. case key_bucket q of None \<Rightarrow> False | Some b \<Rightarrow> \<not> b < (t - r) div 60000", OF this]
  have "co_minutes (snd (coalescer_sweep t r co))
      = filter (\<lambda>p. case key_bucket (fst p) of None \<Rightarrow> False | Some b \<Rightarrow> \<not> b < (t - r) div 60000) (co_minutes co)"
    by (simp add: coalescer_sweep_def Let_def)
  then show ?thesis by (simp only: minute_count_def keep)
qed

lemma sweep_devices_coalescer: "sweep_devices ds n = (r, n') \<Longrightarrow> nf_coalescer n' = nf_coalescer n"
proof (induction ds arbitrary: n r n')
  case (Cons d ds)
  then show ?case
    by (auto split: prod.splits sum.splits if_splits dest!: Cons.IH)
qed simp

lemma unregisterDevice_minutes:
  "minute_count (nf_coalescer (snd (unregisterDevice i n))) = minute_count (nf_coalescer n)
   \<and> co_limits (nf_coalescer (snd (unregisterDevice i n))) = co_limits (nf_coalescer n)"
proof -
  have drop: "minute_count (coalescer_drop i j co) = minute_count co" "co_limits (coalescer_drop i j co) = co_limits co" for j co
    by (rule ext)+ (simp_all add: minute_count_def coalescer_drop_def)
  have "minute_count (fold (\<lambda>r co. case prop_get r ''sessionId'' of Some (JStr j) \<Rightarrow> coalescer_drop i j co | _ \<Rightarrow> co) rs co) = minute_count co
    \<and> co_limits (fold (\<lambda>r co. case prop_get r ''sessionId'' of Some (JStr j) \<Rightarrow> coalescer_drop i j co | _ \<Rightarrow> co) rs co) = co_limits co" for rs co
    by (induction rs arbitrary: co) (auto simp: drop split: option.split json.split)
  then show ?thesis by (simp add: unregisterDevice_def split: prod.split sum.split)
qed

lemma notify_step_minutes:
  assumes "notify_step t n ms n'" and "NUL \<notin> set d"
  shows "co_limits (nf_coalescer n') = co_limits (nf_coalescer n)"
    and "\<forall>m \<in> set ms. ns_created (tn_status m) = t"
    and "t div 60000 \<le> k \<Longrightarrow> minute_count (nf_coalescer n') d k = minute_count (nf_coalescer n) d k + sent_in d k ms
      \<and> minute_count (nf_coalescer n') d k \<le> max (minute_count (nf_coalescer n) d k) (cl_minute (co_limits (nf_coalescer n)))"
proof -
  have reject: "nf_coalescer n'' = nf_coalescer n1" if "rejectDevice i reason n1 = (r, n'')" for i reason n1 r n''
    using that by (auto simp: rejectDevice_def count_up_def split: prod.splits sum.splits)
  have settle: "nf_coalescer (send_settled m outcome n) = nf_coalescer n" for m outcome
    by (cases outcome) (auto simp: send_settled_def Let_def count_up_def split: prod.split sum.split dest!: reject)
  have sweep: "co_limits (nf_coalescer (snd (service_sweep t n))) = co_limits (nf_coalescer n)
    \<and> (t div 60000 \<le> k \<longrightarrow> minute_count (nf_coalescer (snd (service_sweep t n))) d k = minute_count (nf_coalescer n) d k)"
    by (auto simp: service_sweep_def Let_def coalescer_sweep_minutes [OF assms(2)] split: prod.split sum.split dest!: sweep_devices_coalescer)
      (simp_all add: coalescer_sweep_def Let_def)
  have "co_limits (nf_coalescer n') = co_limits (nf_coalescer n) \<and> (\<forall>m \<in> set ms. ns_created (tn_status m) = t)
    \<and> (t div 60000 \<le> k \<longrightarrow> minute_count (nf_coalescer n') d k = minute_count (nf_coalescer n) d k + sent_in d k ms
      \<and> minute_count (nf_coalescer n') d k \<le> max (minute_count (nf_coalescer n) d k) (cl_minute (co_limits (nf_coalescer n))))" (is ?P)
    using assms(1)
  proof (cases rule: notify_step.cases)
    case (register_step x fresh)
    then show ?thesis by (simp add: registerDevice_def split: prod.split sum.split)
  next
    case (replace_step i token version)
    then show ?thesis by (simp add: replaceToken_def split: prod.split sum.split option.split)
  next
    case (unregister_step i)
    then show ?thesis using unregisterDevice_minutes [of i n] by simp
  next
    case (installation_step i)
    then show ?thesis by (simp add: unregister_installation_def split: prod.split sum.split)
  next
    case (reject_step i reason)
    then have "nf_coalescer n' = nf_coalescer n" using reject [of i reason n] by (metis prod.collapse)
    then show ?thesis using reject_step by simp
  next
    case (publish_step x suppressed host)
    then show ?thesis using publish_minutes [of x suppressed host t n d k] publish_created [of _ x suppressed host t n] by auto
  next
    case (settle_step m outcome)
    then show ?thesis by (simp add: settle)
  next
    case sweep_step
    then show ?thesis using sweep by simp
  qed (simp_all add: setSuspended_def reject_timer_def)
  then show "co_limits (nf_coalescer n') = co_limits (nf_coalescer n)" "\<forall>m \<in> set ms. ns_created (tn_status m) = t"
    "t div 60000 \<le> k \<Longrightarrow> minute_count (nf_coalescer n') d k = minute_count (nf_coalescer n) d k + sent_in d k ms
      \<and> minute_count (nf_coalescer n') d k \<le> max (minute_count (nf_coalescer n) d k) (cl_minute (co_limits (nf_coalescer n)))"
    by blast+
qed

lemma sent_in_other: "\<forall>m \<in> set ms. ns_created (tn_status m) = t \<Longrightarrow> k \<noteq> t div 60000 \<Longrightarrow> sent_in d k ms = 0"
  by (induction ms) auto

lemma notify_run_minutes:
  assumes "notify_run t0 n ms t n'" and "NUL \<notin> set d" and "co_minutes (nf_coalescer n) = []"
  shows "co_limits (nf_coalescer n') = co_limits (nf_coalescer n)
    \<and> (\<forall>k. sent_in d k ms \<le> cl_minute (co_limits (nf_coalescer n)))
    \<and> (\<forall>k \<ge> t div 60000. sent_in d k ms \<le> minute_count (nf_coalescer n') d k
          \<and> minute_count (nf_coalescer n') d k \<le> cl_minute (co_limits (nf_coalescer n)))"
  using assms
proof (induction rule: notify_run.induct)
  case (run_done t n)
  then show ?case by (simp add: minute_count_def)
next
  case (run_more t0 n ms t1 n1 t ms' n')
  let ?L = "cl_minute (co_limits (nf_coalescer n))"
  have IH: "co_limits (nf_coalescer n1) = co_limits (nf_coalescer n)" "sent_in d k ms \<le> ?L"
    "t1 div 60000 \<le> k \<Longrightarrow> sent_in d k ms \<le> minute_count (nf_coalescer n1) d k \<and> minute_count (nf_coalescer n1) d k \<le> ?L" for k
    using run_more by simp_all
  note st = notify_step_minutes [OF run_more.hyps(3) run_more.prems(1)]
  have le: "t1 div 60000 \<le> t div 60000" using run_more.hyps(2) by (rule zdiv_mono1) simp
  have now: "sent_in d k (ms @ ms') \<le> minute_count (nf_coalescer n') d k \<and> minute_count (nf_coalescer n') d k \<le> ?L"
    if "t div 60000 \<le> k" for k
    using IH(1) IH(3) [of k] st(3) [OF that] le that by auto
  have "sent_in d k (ms @ ms') \<le> ?L" for k
  proof (cases "k = t div 60000")
    case True
    then show ?thesis using now [of k] by simp
  next
    case False
    then show ?thesis using sent_in_other [OF st(2)] IH(2) [of k] by simp
  qed
  then show ?case using now st(1) IH(1) by simp
qed

text \<open>
  C39 (minute_ceiling). A service started with an empty coalescer never sends a device more messages in
  one minute of its clock than the ceiling, whatever is published and swept and however registrations
  change, as long as the clock does not go back.
\<close>

theorem minute_ceiling:
  assumes "notify_run t0 (new_notifier s platforms (new_coalescer interval minute sess) stale) ms t n"
    and "NUL \<notin> set d"
  shows "sent_in d k ms \<le> (case minute of Some m \<Rightarrow> m | None \<Rightarrow> 10)"
  using notify_run_minutes [OF assms(1,2)]
  by (auto simp: new_notifier_def new_coalescer_def DEFAULT_COALESCE_LIMITS_def split: option.splits)

section \<open>Status only\<close>








section \<open>Witnesses\<close>

definition demo_device :: device_row where
  "demo_device = \<lparr>dv_id = ''d'', dv_install = ''i'', dv_platform = Apns, dv_token = ''t'', dv_version = ''1'', dv_revision = 1,
     dv_seen = 0, dv_created = 0, dv_rejected_reason = None, dv_rejected_at = None\<rparr>"

definition demo_notifier :: notifier where
  "demo_notifier = new_notifier ((empty_store demo_uuids 0)\<lparr>devices := [demo_device]\<rparr>) None (new_coalescer None None None) None"

definition demo_status :: publish_input where
  "demo_status = \<lparr>pi_session = ''00000000-0000-4000-8000-000000000000'', pi_kind = Settled_kind, pi_source = Some ''e'',
     pi_at = Some 0, pi_link = None\<rparr>"

lemma demo_sent: "map tn_device (fst (snd (publishStatus demo_status False ''Studio'' 0 demo_notifier))) = [''d'']"
  by code_simp

lemma demo_step: "notify_step 0 demo_notifier (fst (snd (publishStatus demo_status False ''Studio'' 0 demo_notifier)))
    (snd (snd (publishStatus demo_status False ''Studio'' 0 demo_notifier)))"
  by (rule publish_step)

lemma demo_message: "fst (snd (publishStatus demo_status False ''Studio'' 0 demo_notifier)) \<noteq> []"
  using demo_sent by (metis list.map_disc_iff list.distinct(1))

theorem published_once_witness:
  "map tn_device (fst (snd (publishStatus demo_status False ''Studio'' 0 demo_notifier))) = [''d'']
   \<and> (\<forall>v. fst (snd (publishStatus demo_status v ''Studio'' 5
           (setSuspended False (snd (snd (publishStatus demo_status False ''Studio'' 0 demo_notifier)))))) = [])"
proof -
  let ?p = "publishStatus demo_status False ''Studio'' 0 demo_notifier"
  have ok: "devices_ok (nf_store demo_notifier)" and clk: "clock (nf_store demo_notifier) = 0"
    by (simp_all add: demo_notifier_def new_notifier_def devices_ok_def empty_store_def)
  have src: "pi_source demo_status = Some ''e''" by (simp add: demo_status_def)
  have "notify_run 0 (snd (snd ?p)) ([] @ []) 5 (setSuspended False (snd (snd ?p)))"
    by (rule run_more [OF run_done _ suspend_step]) simp
  then have run: "notify_run 0 (snd (snd ?p)) [] 5 (setSuspended False (snd (snd ?p)))" by simp
  have "fst (snd (publishStatus demo_status v ''Studio'' 5 (setSuspended False (snd (snd ?p))))) = []" for v
    by (rule conjunct2 [OF published_once [where n = demo_notifier and x = demo_status and ms = "fst (snd ?p)" and r = "fst ?p" and e = "''e''",
        OF ok src _ _ demo_message run _ src]]) (simp_all add: clk)
  then show ?thesis using demo_sent by simp
qed

theorem minute_ceiling_witness:
  "sent_in ''d'' 0 (fst (snd (publishStatus demo_status False ''Studio'' 0 demo_notifier))) \<le> 10
   \<and> fst (snd (publishStatus demo_status False ''Studio'' 0 demo_notifier)) \<noteq> []"
proof -
  let ?p = "publishStatus demo_status False ''Studio'' 0 demo_notifier"
  have "notify_run 0 demo_notifier ([] @ fst (snd ?p)) 0 (snd (snd ?p))"
    by (rule run_more [OF run_done _ demo_step]) simp
  then have run: "notify_run 0 demo_notifier (fst (snd ?p)) 0 (snd (snd ?p))" by simp
  have "NUL \<notin> set ''d''" by (simp add: NUL_def)
  from minute_ceiling [OF run [unfolded demo_notifier_def] this, of 0] demo_message show ?thesis
    by (simp add: demo_notifier_def)
qed


text \<open>The sweep looks for rejected devices among the active ones, where there are none.\<close>

lemma sweep_finds_none: "fst (sweep_devices (listActiveDeviceInstalls s) n) = Inr 0"
proof -
  have "fst (sweep_devices ds n) = Inr 0" if "\<forall>d \<in> set ds. dv_rejected_reason d = None" for ds n
    using that by (induction ds arbitrary: n) auto
  then show ?thesis by (simp add: listActiveDeviceInstalls_def device_view_def)
qed

end
