(* ===== verification/Spec2Isabelle.thy ===== *)
theory Spec2Isabelle
  imports Dates Journal Store_Leases Store_Commands Store_Queue Store_Dialogs Store_Sessions Protocol Canonical Canonical_Log Canonical_Transport Store_Backend Enrollment Command_Service Stream_Service Jsonl Supervisor_Loops Notification_Service
begin

text \<open>
  A verification of the pi-mob bridge: packages/bridge, the program on the developer's machine that runs the
  agent Pi in subprocesses and serves it to a phone, and packages/protocol-schema, the messages between them.
  File names without a directory are below packages/bridge/src.

  THE PROGRAM. A phone is paired with the host (auth) and sends commands in messages whose shape is fixed by the
  protocol schemas. The durable command service (core/domain.ts) records a command in the store (core/store.ts,
  SQLite), queues it in the lane of its scope and hands it to the agent adapter once. The adapter talks to one
  subprocess for each session (core/process-supervisor.ts decides which run, pi/jsonl.ts decodes its output). Notifications
  of the agent are written to the journal of the store and to the canonical log (session-events), from which
  streams, replays and live events reach the phone again. Around that stand the notifications of the phone.

  THEORIES AND SOURCES.
  Shared ground. \<open>Prelude\<close>: JSON values, objects, \<open>JSON.stringify\<close>, strings, lists, and the interface
    \<open>kept_along\<close> of components that run in steps. \<open>Bytes\<close>, \<open>Dates\<close> (\<open>toISOString\<close>, \<open>Date.parse\<close>), \<open>Cursor\<close>
    (decimal cursors: \<open>compareDecimalCursors\<close>, \<open>canonicalCursor\<close> and SQLite's order of texts). \<open>Schema\<close>: the TypeBox
    constructors as a datatype, regular expressions with their matcher, and the interface \<open>typebox\<close> of the
    validator, interpreted on the executable checker \<open>schema_check\<close>.
  The protocol, packages/protocol-schema/src/index.ts. \<open>Protocol_Tables\<close>, \<open>Protocol_Content\<close>, \<open>Protocol_Services\<close>,
    \<open>Protocol_Messages\<close> are its tables and schemas in the order of the file; \<open>Protocol\<close> has what they promise;
    \<open>Canonical\<close> the canonical text and hash of a command.
  The store, core/store.ts, one theory for each group of tables, all on the record \<open>store\<close> of \<open>Store_Base\<close>
    (tables are lists of rows in insertion order; a transaction is a function to a result and a store, and an
    error restores the tables): \<open>Store_Events\<close> with \<open>Journal\<close> (streams, events, cursors, compaction), \<open>Store_Leases\<close>,
    \<open>Store_Commands\<close>, \<open>Store_Queue\<close>, \<open>Store_Dialogs\<close>, \<open>Store_Sessions\<close>, \<open>Store_Backend\<close>, \<open>Store_Devices\<close>.
  Services on the store. \<open>Command_Service\<close> and \<open>Stream_Service\<close> (core/domain.ts), \<open>Enrollment\<close> (auth/enrollment.ts,
    auth/credentials.ts, auth/revoke.ts, the check of core/runtime.ts), \<open>Canonical_Log\<close> and \<open>Canonical_Transport\<close>
    (session-events/canonical-event.ts, canonical-session-store.ts, canonical-event-transport.ts),
    \<open>Notifications\<close> and \<open>Notification_Service\<close> (notifications).
  The agent's side. \<open>Jsonl\<close> (pi/jsonl.ts), \<open>Process_Supervisor\<close> and \<open>Supervisor_Loops\<close>
    (core/process-supervisor.ts).

  HOW STATE AND OPERATIONS CORRESPOND. A class is the record of its fields and a method a definition with its
  name; a name that is taken has a suffix or the name of its class. A \<open>Map\<close> is an association list in insertion
  order, a table a list of rows. A thrown error is the left side of a sum, with the state the code leaves behind.
  An \<open>await\<close> ends an operation: what other calls do meanwhile is a matter of the order of the operations, and
  what the outside answers (an exit, the end of an adapter call, the way a sending ends) is an argument of the
  operation that follows, or an event. Callbacks are recorded as what they were called with.

  WHAT THE LEMMAS SHOW.
  Journal: appending numbers a stream without a hole, a replay is exact, paging ends and covers the range, and
    compaction deletes acknowledged events only.
  Leases, dialogs, queue, sessions, backends: at most one lease and one pending dialog in every reachable state, a
    takeover shuts the former holder out, follow-ups are claimed in the order they are listed, a dialog is answered once,
    directory pages cover the sorted rows. A purged session stays purged through every call but the three the
    theorem names. Each operation on a backend migration does to its session what a machine of five phases says, and
    nothing to the others (a refinement).
  Commands: a command is recorded once, alone or together with its lease change, moves by compare-and-set, is dispatched at most once over retries and
    crashes, ends in the state its outcome says, and is marked by recovery if it may have been in flight.
  Protocol: what the schemas accept is the envelope the tables demand; an event lies on a stream that owns its type; a command's hash does not depend on the order of its properties.
  Delivery: the tracker of a client and the pages and live events of the canonical transport give each event
    once and in order (a refinement), and catching up ends.
  Pairing: a passcode binds one installation, a revocation lasts.
  Decoder: chunking is irrelevant, and lines ended by LF or CR LF are read back as their records.
  Supervisor: it keeps its capacity as long as starts do not overlap, and a crash loop lasts until \<open>stop\<close> or a manual retry.
  Notifications: a device gets one message for an event, no more in a minute than the ceiling, and nothing but the
    five fields of a status.

  BOUNDS AND FUEL. Loops are structural recursion or functions with a termination proof. Two functions that
  follow the pages of a client to the end carry fuel: \<open>page_all\<close> of \<open>Journal\<close>, for which the distance of the two
  cursors plus one is enough, and \<open>all_summaries\<close> of \<open>Store_Sessions\<close>, for which the number of rows plus one is. A repetition of a pattern is bounded by the
  length of the text that is left, which is exact for patterns whose rounds take a character. Bytes are 8-bit words.
  Numbers are unbounded integers: where the code adds counters, it stays below the safe integers.

  PARAMETERS AND HYPOTHESES. \<open>sha\<close> is SHA-256 as hexadecimal text, \<open>parse\<close> is \<open>JSON.parse\<close>; \<open>check\<close> is TypeBox, under
  the laws of \<open>typebox\<close>; \<open>engine\<close> is what the JavaScript engine leaves open (\<open>Date.parse\<close>, \<open>Number\<close>, \<open>String\<close> of odd
  values, \<open>localeCompare\<close>); fresh UUIDs are a sequence, assumed distinct where a theorem needs it. No theorem assumes anything of \<open>sha\<close> beyond being a function, except where it says so.
  A character is a code unit up to U+00FF, a JSON number an integer; texts with other characters and fractions are
  outside the model, but for the two catalogue texts of notifications, which are written as the bytes of their UTF-8.

  NOT MODELLED. Sockets, HTTP and the daemon (core/server.ts, core/binary-http.ts, daemon.ts, core/runtime.ts but
  for the credential check), which connect the parts above through closures over live objects;
  pi/one-session-adapter.ts, the asynchronous adapter between a command and the transport, whose calls are the
  arguments of the command service here, pi/rpc-process.ts, the transport, and pi/normalize.ts, the normalization of
  notifications; core/attachments.ts, core/workspace-policy.ts and core/process-projection.ts; files of sessions, exports
  and workspaces (pi/external-history.ts, pi/export-registry.ts, core/workspace-files.ts), git (git), read-only
  catalogues (pi/catalogue-service.ts and others), the second backend (omp), rate limits (auth/rate-quota.ts), the older
  event store and the diagnostics table (session-events/event-store.ts, diagnostics.ts), transports of
  notifications (notifications/transports), installation and update (ops), scripts, and the mobile application,
  a separate program in Dart. Opening and migrating the SQLite file is input and output of its driver.
\<close>

end
